(* ===== verification/Prelude.thy ===== *)
theory Prelude
  imports Main "HOL-Library.AList"
begin

text \<open>
  Shared vocabulary of the development: the exceptions of the Python code as values, a result
  type and its sequencing operator, the string operations of Python that the sources use, and the
  SQL tables of the service as association lists with the three statement shapes the sources use
  (\<open>SELECT\<close> by key, \<open>INSERT ... ON CONFLICT DO NOTHING\<close>, \<open>UPDATE ... WHERE key\<close>).

  A Python \<open>str\<close> is modelled by its UTF-8 encoding as a HOL \<open>string\<close>.  On ASCII text the two
  coincide; on other text \<open>length\<close> and slices count bytes, and white space, letter case, digits
  and word boundaries are those of ASCII.
\<close>

named_theorems result_simps \<open>sequencing of results\<close>
named_theorems table_simps \<open>table statements\<close>

section \<open>Exceptions and results\<close>

text \<open>
  The exceptions the sources raise, catch or let escape.  \<open>PydanticError\<close> is pydantic's
  \<open>ValidationError\<close> and \<open>SchemaError\<close> is \<open>jsonschema.ValidationError\<close>.
\<close>

datatype exn =
    ValueError
  | TypeError
  | KeyError
  | IndexError
  | AttributeError
  | OverflowError
  | AssertionError
  | PydanticError
  | JSONDecodeError
  | SchemaError
  | NormalizationError
  | BudgetExceeded
  | LLMValidationError
  | ProviderError
  | UniqueViolation
  | ForeignKeyViolation
  | CheckViolation
  | DataError
  | ConnectionError
  | RuntimeError
  | HTTPException nat string

type_synonym 'a result = "exn + 'a"

text \<open>
  Which exceptions an \<open>except ValueError\<close> clause catches: \<open>ValueError\<close> and its subclasses
  (pydantic's \<open>ValidationError\<close> and the JSON decoders' \<open>JSONDecodeError\<close>).
\<close>

fun is_value_error :: "exn \<Rightarrow> bool" where
  "is_value_error ValueError = True"
| "is_value_error PydanticError = True"
| "is_value_error JSONDecodeError = True"
| "is_value_error _ = False"

definition bindE :: "'a result \<Rightarrow> ('a \<Rightarrow> 'b result) \<Rightarrow> 'b result" where
  "bindE m f = (case m of Inl e \<Rightarrow> Inl e | Inr x \<Rightarrow> f x)"

lemma bindE_Inl [simp, result_simps]: "bindE (Inl e) f = Inl e"
  by (simp add: bindE_def)

lemma bindE_Inr [simp, result_simps]: "bindE (Inr x) f = f x"
  by (simp add: bindE_def)

lemma bindE_eq_Inr [result_simps]: "bindE m f = Inr y \<longleftrightarrow> (\<exists>x. m = Inr x \<and> f x = Inr y)"
  by (cases m) auto

lemma bindE_eq_Inl [result_simps]:
  "bindE m f = Inl e \<longleftrightarrow> m = Inl e \<or> (\<exists>x. m = Inr x \<and> f x = Inl e)"
  by (cases m) auto

lemma bindE_assoc: "bindE (bindE m f) g = bindE m (\<lambda>x. bindE (f x) g)"
  by (cases m) auto

lemma bindE_split:
  "P (bindE m f) \<longleftrightarrow> (\<forall>e. m = Inl e \<longrightarrow> P (Inl e)) \<and> (\<forall>x. m = Inr x \<longrightarrow> P (f x))"
  by (cases m) auto

lemma bindE_cong [fundef_cong]:
  "m = m' \<Longrightarrow> (\<And>x. m' = Inr x \<Longrightarrow> f x = g x) \<Longrightarrow> bindE m f = bindE m' g"
  by (cases m') auto

lemma case_result_eq: "(case m of Inl e \<Rightarrow> h e | Inr x \<Rightarrow> f x) = Inr y \<longleftrightarrow>
    (\<exists>x. m = Inr x \<and> f x = Inr y) \<or> (\<exists>e. m = Inl e \<and> h e = Inr y)"
  by (cases m) auto

definition is_ok :: "'a result \<Rightarrow> bool" where
  "is_ok m \<longleftrightarrow> (case m of Inl _ \<Rightarrow> False | Inr _ \<Rightarrow> True)"

lemma is_ok_simps [simp]: "is_ok (Inr x)" "\<not> is_ok (Inl e)"
  by (simp_all add: is_ok_def)

lemma is_ok_iff: "is_ok m \<longleftrightarrow> (\<exists>x. m = Inr x)"
  by (cases m) auto

section \<open>Strings\<close>

text \<open>White space of \<open>str.strip()\<close>: tab to carriage return, the four separators, and blank.\<close>

definition is_space :: "char \<Rightarrow> bool" where
  "is_space c \<longleftrightarrow> (let n = of_char c :: nat in (9 \<le> n \<and> n \<le> 13) \<or> (28 \<le> n \<and> n \<le> 32))"

definition strip_if :: "(char \<Rightarrow> bool) \<Rightarrow> string \<Rightarrow> string" where
  "strip_if p s = rev (dropWhile p (rev (dropWhile p s)))"

definition strip :: "string \<Rightarrow> string" where
  "strip s = strip_if is_space s"

definition lstrip :: "string \<Rightarrow> string" where
  "lstrip s = dropWhile is_space s"

text \<open>\<open>s.strip(c)\<close> with a one-character argument.\<close>

definition strip_char :: "char \<Rightarrow> string \<Rightarrow> string" where
  "strip_char c s = strip_if (\<lambda>x. x = c) s"

lemma dropWhile_eq_self: "s = [] \<or> \<not> p (hd s) \<Longrightarrow> dropWhile p s = s"
  by (cases s) auto

lemma dropWhile_hd: "dropWhile p s = [] \<or> \<not> p (hd (dropWhile p s))"
  by (metis hd_dropWhile)

lemma strip_if_ends:
  "strip_if p s = [] \<or> (\<not> p (hd (strip_if p s)) \<and> \<not> p (last (strip_if p s)))"
proof (cases "strip_if p s = []")
  case False
  let ?m = "dropWhile p s"
  let ?r = "dropWhile p (rev ?m)"
  have r: "?r \<noteq> []" using False by (simp add: strip_if_def)
  then have last: "\<not> p (hd ?r)" using dropWhile_hd by blast
  obtain pre where "rev ?m = pre @ ?r" by (metis takeWhile_dropWhile_id)
  then have m: "?m = rev ?r @ rev pre" by (metis rev_append rev_rev_ident)
  then have "?m \<noteq> []" using r by (metis append_is_Nil_conv rev_is_Nil_conv)
  then have "\<not> p (hd ?m)" using dropWhile_hd by blast
  moreover have "hd ?m = hd (rev ?r)" using m r by (metis hd_append2 rev_is_Nil_conv)
  ultimately show ?thesis using last r by (simp add: strip_if_def last_rev)
qed simp

lemma strip_if_fixed:
  assumes "s = [] \<or> (\<not> p (hd s) \<and> \<not> p (last s))"
  shows "strip_if p s = s"
proof -
  have "dropWhile p s = s" using assms by (intro dropWhile_eq_self) auto
  moreover have "dropWhile p (rev s) = rev s"
    using assms by (intro dropWhile_eq_self) (auto simp: hd_rev)
  ultimately show ?thesis by (simp add: strip_if_def)
qed

lemma strip_if_idem [simp]: "strip_if p (strip_if p s) = strip_if p s"
  by (rule strip_if_fixed) (rule strip_if_ends)

lemma strip_idem [simp]: "strip (strip s) = strip s"
  by (simp add: strip_def)

lemma strip_Nil [simp]: "strip [] = []"
  by (simp add: strip_def strip_if_def)

definition startswith :: "string \<Rightarrow> string \<Rightarrow> bool" where
  "startswith s p \<longleftrightarrow> take (length p) s = p"

definition endswith :: "string \<Rightarrow> string \<Rightarrow> bool" where
  "endswith s p \<longleftrightarrow> length p \<le> length s \<and> drop (length s - length p) s = p"

text \<open>\<open>p in s\<close> on strings.\<close>

fun occurs_in :: "string \<Rightarrow> string \<Rightarrow> bool" where
  "occurs_in p [] = (p = [])"
| "occurs_in p (c # s) = (startswith (c # s) p \<or> occurs_in p s)"

lemma occurs_in_iff: "occurs_in p s \<longleftrightarrow> (\<exists>a b. s = a @ p @ b)"
proof (induction s)
  case (Cons c s)
  have "startswith (c # s) p \<longleftrightarrow> (\<exists>b. c # s = p @ b)"
    unfolding startswith_def by (metis append_eq_conv_conj append_take_drop_id)
  moreover have "(\<exists>a b. c # s = a @ p @ b) \<longleftrightarrow>
      (\<exists>b. c # s = p @ b) \<or> (\<exists>a b. s = a @ p @ b)"
    by (auto simp: Cons_eq_append_conv intro: exI [of _ "c # _"])
  ultimately show ?case using Cons.IH by simp
qed simp

definition ascii_upper :: "char \<Rightarrow> char" where
  "ascii_upper c = (let n = of_char c :: nat in
     if 97 \<le> n \<and> n \<le> 122 then char_of (n - 32) else c)"

definition ascii_lower :: "char \<Rightarrow> char" where
  "ascii_lower c = (let n = of_char c :: nat in
     if 65 \<le> n \<and> n \<le> 90 then char_of (n + 32) else c)"

definition upper :: "string \<Rightarrow> string" where
  "upper s = map ascii_upper s"

definition lower :: "string \<Rightarrow> string" where
  "lower s = map ascii_lower s"

definition is_upper :: "char \<Rightarrow> bool" where
  "is_upper c \<longleftrightarrow> (let n = of_char c :: nat in 65 \<le> n \<and> n \<le> 90)"

lemma ascii_upper_id: "is_upper c \<Longrightarrow> ascii_upper c = c"
  by (simp add: is_upper_def ascii_upper_def Let_def)

lemma upper_id: "(\<And>c. c \<in> set s \<Longrightarrow> is_upper c) \<Longrightarrow> upper s = s"
  unfolding upper_def by (rule map_idI) (simp add: ascii_upper_id)

definition is_digit :: "char \<Rightarrow> bool" where
  "is_digit c \<longleftrightarrow> (let n = of_char c :: nat in 48 \<le> n \<and> n \<le> 57)"

definition digit_val :: "char \<Rightarrow> nat" where
  "digit_val c = of_char c - 48"

text \<open>\<open>sep.join(parts)\<close>.\<close>

fun join :: "string \<Rightarrow> string list \<Rightarrow> string" where
  "join sep [] = []"
| "join sep [x] = x"
| "join sep (x # y # ys) = x @ sep @ join sep (y # ys)"

text \<open>\<open>s.split(c)\<close> with a one-character separator: always at least one piece.\<close>

fun split_on :: "char \<Rightarrow> string \<Rightarrow> string list" where
  "split_on c [] = [[]]"
| "split_on c (x # xs) =
     (if x = c then [] # split_on c xs
      else (case split_on c xs of [] \<Rightarrow> [[x]] | p # ps \<Rightarrow> (x # p) # ps))"

lemma split_on_nonempty [simp]: "split_on c s \<noteq> []"
  by (induction s) (auto split: list.splits)

lemma join_Cons: "ps \<noteq> [] \<Longrightarrow> join sep (p # ps) = p @ sep @ join sep ps"
  by (cases ps) auto

lemma join_split_on: "join [c] (split_on c s) = s"
proof (induction s)
  case (Cons x s)
  obtain p ps where "split_on c s = p # ps" by (cases "split_on c s") auto
  with Cons.IH show ?case by (cases ps) auto
qed simp

text \<open>\<open>s.replace(old, new)\<close> for a non-empty \<open>old\<close>: left to right, without overlap.\<close>

fun replace_all :: "string \<Rightarrow> string \<Rightarrow> string \<Rightarrow> string" where
  "replace_all old new [] = []"
| "replace_all old new (c # cs) =
     (if old \<noteq> [] \<and> startswith (c # cs) old
      then new @ replace_all old new (drop (length old - 1) cs)
      else c # replace_all old new cs)"

section \<open>Decimal numerals\<close>

definition digit_char :: "nat \<Rightarrow> char" where
  "digit_char d = char_of (48 + d)"

fun nat_str :: "nat \<Rightarrow> string" where
  "nat_str n = (if n < 10 then [digit_char n] else nat_str (n div 10) @ [digit_char (n mod 10)])"

declare nat_str.simps [simp del]

text \<open>\<open>str(n)\<close> of an integer.\<close>

definition int_str :: "int \<Rightarrow> string" where
  "int_str i = (if i < 0 then ''-'' @ nat_str (nat (- i)) else nat_str (nat i))"

definition digits_val :: "string \<Rightarrow> nat" where
  "digits_val s = foldl (\<lambda>n c. 10 * n + digit_val c) 0 s"

lemma digits_val_snoc: "digits_val (s @ [c]) = 10 * digits_val s + digit_val c"
  by (simp add: digits_val_def)

lemma digits_val_Nil [simp]: "digits_val [] = 0"
  by (simp add: digits_val_def)

lemma digit_char_props [simp]:
  assumes "d < 10"
  shows "is_digit (digit_char d)" "digit_val (digit_char d) = d"
proof -
  have "of_char (digit_char d) = (48 + d :: nat)"
    using assms by (simp add: digit_char_def)
  then show "is_digit (digit_char d)" "digit_val (digit_char d) = d"
    using assms by (simp_all add: is_digit_def digit_val_def)
qed

lemma nat_str_digits: "list_all is_digit (nat_str n) \<and> nat_str n \<noteq> []"
proof (induction n rule: nat_str.induct)
  case (1 n)
  then show ?case by (subst (1 2) nat_str.simps) simp
qed

lemma nat_str_nonempty [simp]: "nat_str n \<noteq> []"
  using nat_str_digits by blast

lemma digits_val_nat_str [simp]: "digits_val (nat_str n) = n"
proof (induction n rule: nat_str.induct)
  case (1 n)
  show ?case
  proof (cases "n < 10")
    case True
    then show ?thesis by (subst nat_str.simps) (simp add: digits_val_def)
  next
    case False
    with 1 show ?thesis by (subst nat_str.simps) (simp add: digits_val_snoc)
  qed
qed

text \<open>
  \<open>int(s)\<close> of a string: surrounding white space, an optional sign, then digits with single
  underscores between them; \<open>None\<close> is the \<open>ValueError\<close>.
\<close>

fun under_digits :: "string \<Rightarrow> string option" where
  "under_digits [] = None"
| "under_digits [c] = (if is_digit c then Some [c] else None)"
| "under_digits (c # d # s) =
     (if \<not> is_digit c then None
      else if d = CHR ''_'' then map_option (\<lambda>t. c # t) (under_digits s)
      else map_option (\<lambda>t. c # t) (under_digits (d # s)))"

definition py_int :: "string \<Rightarrow> int option" where
  "py_int s = (case strip s of
       [] \<Rightarrow> None
     | c # t \<Rightarrow>
         (if c = CHR ''-'' then map_option (\<lambda>d. - int (digits_val d)) (under_digits t)
          else if c = CHR ''+'' then map_option (\<lambda>d. int (digits_val d)) (under_digits t)
          else map_option (\<lambda>d. int (digits_val d)) (under_digits (c # t))))"

lemma digit_not_underscore: "is_digit c \<Longrightarrow> c \<noteq> CHR ''_''"
  by (auto simp: is_digit_def)

lemma digit_not_sign: "is_digit c \<Longrightarrow> c \<noteq> CHR ''-'' \<and> c \<noteq> CHR ''+''"
  by (auto simp: is_digit_def)

lemma digit_not_space: "is_digit c \<Longrightarrow> \<not> is_space c"
  by (auto simp: is_digit_def is_space_def Let_def)

lemma under_digits_plain:
  "list_all is_digit s \<Longrightarrow> s \<noteq> [] \<Longrightarrow> under_digits s = Some s"
  by (induction s rule: under_digits.induct) (auto dest: digit_not_underscore)

lemma strip_digits: "list_all is_digit s \<Longrightarrow> strip s = s"
  unfolding strip_def
  by (rule strip_if_fixed) (auto simp: list_all_iff dest: digit_not_space)

lemma py_int_digits:
  assumes "list_all is_digit s" "s \<noteq> []"
  shows "py_int s = Some (int (digits_val s))"
proof -
  obtain c t where s: "s = c # t" using assms(2) by (cases s) auto
  then have "c \<noteq> CHR ''-'' \<and> c \<noteq> CHR ''+''"
    using assms(1) digit_not_sign by simp
  with s strip_digits [OF assms(1)] under_digits_plain [OF assms] show ?thesis
    by (simp add: py_int_def)
qed

lemma py_int_nat_str [simp]: "py_int (nat_str n) = Some (int n)"
  using py_int_digits [of "nat_str n"] nat_str_digits [of n] by simp

section \<open>Tables\<close>

text \<open>
  A table is an association list from its primary key to the rest of the row, in insertion
  order.  \<open>tbl_insert\<close> is \<open>INSERT ... ON CONFLICT (key) DO NOTHING\<close>; \<open>tbl_update\<close> is
  \<open>UPDATE ... WHERE key = k\<close>.
\<close>

type_synonym ('k, 'v) table = "('k \<times> 'v) list"

definition tbl_get :: "('k, 'v) table \<Rightarrow> 'k \<Rightarrow> 'v option" where
  "tbl_get t k = map_of t k"

definition tbl_insert :: "'k \<Rightarrow> 'v \<Rightarrow> ('k, 'v) table \<Rightarrow> ('k, 'v) table" where
  "tbl_insert k v t = (if tbl_get t k = None then t @ [(k, v)] else t)"

definition tbl_update :: "'k \<Rightarrow> ('v \<Rightarrow> 'v) \<Rightarrow> ('k, 'v) table \<Rightarrow> ('k, 'v) table" where
  "tbl_update k f t = map (\<lambda>(k', v). (k', if k' = k then f v else v)) t"

text \<open>What the callers of a table rely on.\<close>

locale keyed_table =
  fixes get :: "'t \<Rightarrow> 'k \<Rightarrow> 'v option"
    and ins :: "'k \<Rightarrow> 'v \<Rightarrow> 't \<Rightarrow> 't"
    and upd :: "'k \<Rightarrow> ('v \<Rightarrow> 'v) \<Rightarrow> 't \<Rightarrow> 't"
  assumes get_ins: "get (ins k v t) k' =
      (if k' = k then (case get t k of None \<Rightarrow> Some v | Some w \<Rightarrow> Some w) else get t k')"
    and ins_conflict: "get t k \<noteq> None \<Longrightarrow> ins k v t = t"
    and get_upd: "get (upd k f t) k' = (if k' = k then map_option f (get t k) else get t k')"
    and upd_absent: "get t k = None \<Longrightarrow> upd k f t = t"
begin

lemma get_ins_new: "get t k = None \<Longrightarrow> get (ins k v t) k = Some v"
  by (simp add: get_ins)

lemma get_ins_other: "k' \<noteq> k \<Longrightarrow> get (ins k v t) k' = get t k'"
  by (simp add: get_ins)

lemma get_ins_present: "get (ins k v t) k \<noteq> None"
  by (auto simp: get_ins split: option.splits)

lemma get_ins_keeps: "get t k' = Some w \<Longrightarrow> get (ins k v t) k' = Some w"
  by (auto simp: get_ins)

lemma ins_idem: "ins k v' (ins k v t) = ins k v t"
  by (rule ins_conflict) (rule get_ins_present)

lemma get_upd_other: "k' \<noteq> k \<Longrightarrow> get (upd k f t) k' = get t k'"
  by (simp add: get_upd)

lemma get_upd_None_iff: "get (upd k f t) k' = None \<longleftrightarrow> get t k' = None"
  by (simp add: get_upd)

end

lemma tbl_get_insert: "tbl_get (tbl_insert k v t) k' =
    (if k' = k then (case tbl_get t k of None \<Rightarrow> Some v | Some w \<Rightarrow> Some w) else tbl_get t k')"
  by (auto simp: tbl_get_def tbl_insert_def map_add_def split: option.splits)

lemma tbl_get_update: "tbl_get (tbl_update k f t) k' =
    (if k' = k then map_option f (tbl_get t k) else tbl_get t k')"
  by (induction t) (auto simp: tbl_get_def tbl_update_def)

lemma tbl_update_absent: "tbl_get t k = None \<Longrightarrow> tbl_update k f t = t"
  by (induction t) (auto simp: tbl_get_def tbl_update_def split: if_splits)

interpretation tbl: keyed_table tbl_get tbl_insert tbl_update
proof (unfold_locales, goal_cases)
  case 1
  show ?case by (rule tbl_get_insert)
next
  case 2
  then show ?case by (simp add: tbl_insert_def)
next
  case 3
  show ?case by (rule tbl_get_update)
next
  case 4
  then show ?case by (rule tbl_update_absent)
qed

declare tbl.get_ins [table_simps] tbl.get_upd [table_simps]
declare tbl.get_ins_present [simp] tbl.get_upd_None_iff [simp]

lemma tbl_get_Nil [simp]: "tbl_get [] k = None"
  by (simp add: tbl_get_def)

lemma tbl_get_Cons: "tbl_get ((k, v) # t) k' = (if k' = k then Some v else tbl_get t k')"
  by (simp add: tbl_get_def)

lemma tbl_get_mem: "tbl_get t k = Some v \<Longrightarrow> (k, v) \<in> set t"
  by (simp add: tbl_get_def map_of_SomeD)

lemma tbl_get_None_iff: "tbl_get t k = None \<longleftrightarrow> k \<notin> fst ` set t"
  by (simp add: tbl_get_def map_of_eq_None_iff)

lemma tbl_get_None_notin: "tbl_get t k = None \<Longrightarrow> (k, v) \<notin> set t"
  by (force simp: tbl_get_None_iff)

lemma tbl_keys_insert: "map fst (tbl_insert k v t) =
    (if tbl_get t k = None then map fst t @ [k] else map fst t)"
  by (simp add: tbl_insert_def)

lemma tbl_keys_update [simp]: "map fst (tbl_update k f t) = map fst t"
  by (auto simp: tbl_update_def)

lemma tbl_distinct_insert:
  "distinct (map fst t) \<Longrightarrow> distinct (map fst (tbl_insert k v t))"
  by (auto simp: tbl_keys_insert tbl_get_None_iff)

end
