(* ===== verification/Values.thy ===== *)
theory Values
  imports Prelude Complex_Main
begin

text \<open>
  The values the service computes with: parsed JSON documents with Python's \<open>dict.get\<close>, truth
  value and \<open>str\<close> on them; aware and naive datetimes; and the record \<open>externals\<close> of the code
  that is not part of the repository (orjson, dateutil, hashing, float formatting), which every
  definition that uses it takes as its argument \<open>X\<close>.
\<close>

named_theorems json_simps \<open>access to JSON documents\<close>

section \<open>JSON documents\<close>

text \<open>
  A parsed JSON value.  A \<open>dict\<close> is the list of its items in iteration order; the parser never
  produces a key twice (\<open>json_wf\<close>).  A float is the rational number it denotes.
\<close>

datatype json =
    JNull
  | JBool bool
  | JInt int
  | JFloat rat
  | JStr string
  | JArr "json list"
  | JObj "(string \<times> json) list"

type_synonym jobject = "(string \<times> json) list"

text \<open>\<open>d.get(k)\<close>: \<open>None\<close> (here \<open>JNull\<close>) for a missing key.\<close>

definition jget :: "jobject \<Rightarrow> string \<Rightarrow> json" where
  "jget kvs k = (case map_of kvs k of None \<Rightarrow> JNull | Some v \<Rightarrow> v)"

lemma jget_Nil [simp]: "jget [] k = JNull"
  by (simp add: jget_def)

lemma jget_Cons [simp]: "jget ((k, v) # kvs) k' = (if k' = k then v else jget kvs k')"
  by (simp add: jget_def)

lemma jget_mem: "jget kvs k \<noteq> JNull \<Longrightarrow> (k, jget kvs k) \<in> set kvs"
  by (auto simp: jget_def dest: map_of_SomeD split: option.splits)

lemma jget_distinct: "distinct (map fst kvs) \<Longrightarrow> (k, v) \<in> set kvs \<Longrightarrow> jget kvs k = v"
  by (simp add: jget_def)

text \<open>The truth value of a JSON value in a Python condition.\<close>

fun truthy :: "json \<Rightarrow> bool" where
  "truthy JNull = False"
| "truthy (JBool b) = b"
| "truthy (JInt i) = (i \<noteq> 0)"
| "truthy (JFloat r) = (r \<noteq> 0)"
| "truthy (JStr s) = (s \<noteq> [])"
| "truthy (JArr xs) = (xs \<noteq> [])"
| "truthy (JObj kvs) = (kvs \<noteq> [])"

lemma truthy_not_null: "truthy v \<Longrightarrow> v \<noteq> JNull"
  by auto

fun json_wf :: "json \<Rightarrow> bool" where
  "json_wf (JArr xs) = list_all json_wf xs"
| "json_wf (JObj kvs) = (distinct (map fst kvs) \<and> list_all (\<lambda>(k, v). json_wf v) kvs)"
| "json_wf _ = True"

fun is_leaf :: "json \<Rightarrow> bool" where
  "is_leaf (JArr xs) = False"
| "is_leaf (JObj kvs) = False"
| "is_leaf _ = True"

section \<open>Python's \<open>str\<close> and \<open>repr\<close>\<close>

definition hex_digit :: "nat \<Rightarrow> char" where
  "hex_digit d = (if d < 10 then char_of (48 + d) else char_of (87 + d))"

definition repr_char :: "char \<Rightarrow> char \<Rightarrow> string" where
  "repr_char q c =
     (let n = of_char c :: nat in
      if c = q \<or> n = 92 then [CHR 0x5C, c]
      else if n = 9 then [CHR 0x5C, CHR ''t'']
      else if n = 10 then [CHR 0x5C, CHR ''n'']
      else if n = 13 then [CHR 0x5C, CHR ''r'']
      else if n < 32 \<or> n = 127 then [CHR 0x5C, CHR ''x'', hex_digit (n div 16), hex_digit (n mod 16)]
      else [c])"

definition str_repr :: "string \<Rightarrow> string" where
  "str_repr s =
     (let q = (if CHR 0x27 \<in> set s \<and> CHR 0x22 \<notin> set s then CHR 0x22 else CHR 0x27)
      in [q] @ concat (map (repr_char q) s) @ [q])"

text \<open>\<open>repr(v)\<close> of a parsed JSON value; \<open>fr\<close> is \<open>repr\<close> on floats.\<close>

fun py_repr :: "(rat \<Rightarrow> string) \<Rightarrow> json \<Rightarrow> string" where
  "py_repr fr JNull = ''None''"
| "py_repr fr (JBool b) = (if b then ''True'' else ''False'')"
| "py_repr fr (JInt i) = int_str i"
| "py_repr fr (JFloat r) = fr r"
| "py_repr fr (JStr s) = str_repr s"
| "py_repr fr (JArr xs) = ''['' @ join '', '' (map (py_repr fr) xs) @ '']''"
| "py_repr fr (JObj kvs) =
     ''{'' @ join '', '' (map (\<lambda>(k, v). str_repr k @ '': '' @ py_repr fr v) kvs) @ ''}''"

definition py_str :: "(rat \<Rightarrow> string) \<Rightarrow> json \<Rightarrow> string" where
  "py_str fr v = (case v of JStr s \<Rightarrow> s | _ \<Rightarrow> py_repr fr v)"

lemma py_str_simps [simp]:
  "py_str fr (JStr s) = s"
  "py_str fr (JInt i) = int_str i"
  "py_str fr JNull = ''None''"
  "py_str fr (JBool b) = (if b then ''True'' else ''False'')"
  "py_str fr (JFloat r) = fr r"
  by (simp_all add: py_str_def)

section \<open>Datetimes\<close>

text \<open>
  A Python \<open>datetime\<close>: its wall clock in microseconds since 0001-01-01T00:00:00 and, when it is
  aware, its offset from UTC in microseconds.  Python represents the years 1 to 9999 only.
\<close>

record datetime =
  dt_wall :: int
  dt_off :: "int option"

definition max_wall :: int where
  "max_wall = 3652059 * 86400 * 1000000"

definition dt_valid :: "datetime \<Rightarrow> bool" where
  "dt_valid d \<longleftrightarrow> 0 \<le> dt_wall d \<and> dt_wall d < max_wall"

text \<open>The instant an aware datetime denotes; comparison of aware datetimes compares instants.\<close>

definition dt_instant :: "datetime \<Rightarrow> int" where
  "dt_instant d = dt_wall d - (case dt_off d of None \<Rightarrow> 0 | Some z \<Rightarrow> z)"

definition dt_aware :: "datetime \<Rightarrow> bool" where
  "dt_aware d \<longleftrightarrow> dt_off d \<noteq> None"

text \<open>\<open>d.replace(tzinfo=UTC)\<close> and, for an aware \<open>d\<close>, \<open>d.astimezone(UTC)\<close>.\<close>

definition replace_utc :: "datetime \<Rightarrow> datetime" where
  "replace_utc d = d\<lparr>dt_off := Some 0\<rparr>"

definition astimezone_utc :: "datetime \<Rightarrow> datetime result" where
  "astimezone_utc d =
     (let w = dt_instant d in
      if 0 \<le> w \<and> w < max_wall then Inr \<lparr>dt_wall = w, dt_off = Some 0\<rparr> else Inl OverflowError)"

definition is_utc :: "datetime \<Rightarrow> bool" where
  "is_utc d \<longleftrightarrow> dt_off d = Some 0"

lemma astimezone_utc_instant:
  "astimezone_utc d = Inr d' \<Longrightarrow> dt_instant d' = dt_instant d \<and> is_utc d' \<and> dt_valid d'"
  by (auto simp: astimezone_utc_def Let_def dt_instant_def is_utc_def dt_valid_def
           split: if_splits)

lemma astimezone_utc_fixed:
  "is_utc d \<Longrightarrow> dt_valid d \<Longrightarrow> astimezone_utc d = Inr d"
  by (cases d) (auto simp: astimezone_utc_def Let_def dt_instant_def is_utc_def dt_valid_def)

section \<open>The code outside the repository\<close>

text \<open>
  \<^item> \<open>x_float_repr\<close>, \<open>x_float_of\<close>: \<open>repr\<close> of a float and \<open>float\<close> of a string (\<open>None\<close> is
    the \<open>ValueError\<close>);
  \<^item> \<open>x_dt_parse raw tzinfos dayfirst\<close>: \<open>dateutil.parser.parse\<close>;
  \<^item> \<open>x_dumps\<close>: \<open>orjson.dumps\<close> with sorted keys; \<open>x_loads\<close>: \<open>orjson.loads\<close>, \<open>None\<close> is its
    \<open>JSONDecodeError\<close>;
  \<^item> \<open>x_sha256\<close>, \<open>x_hmac key msg\<close>: the hexadecimal SHA-256 and HMAC-SHA-256 digests;
  \<^item> \<open>x_exn_text\<close>: \<open>str(exc)\<close>.
\<close>

record externals =
  x_float_repr :: "rat \<Rightarrow> string"
  x_float_of :: "string \<Rightarrow> rat option"
  x_dt_parse :: "string \<Rightarrow> (string \<times> int) list \<Rightarrow> bool \<Rightarrow> datetime result"
  x_dumps :: "json \<Rightarrow> string"
  x_loads :: "string \<Rightarrow> json option"
  x_sha256 :: "string \<Rightarrow> string"
  x_hmac :: "string \<Rightarrow> string \<Rightarrow> string"
  x_exn_text :: "exn \<Rightarrow> string"

abbreviation pstr :: "externals \<Rightarrow> json \<Rightarrow> string" where
  "pstr X v \<equiv> py_str (x_float_repr X) v"

text \<open>\<open>float(v)\<close> of a JSON value: a string is parsed, a container or \<open>None\<close> is a \<open>TypeError\<close>.\<close>

definition py_float :: "externals \<Rightarrow> json \<Rightarrow> rat result" where
  "py_float X v = (case v of
       JFloat r \<Rightarrow> Inr r
     | JInt i \<Rightarrow> Inr (of_int i)
     | JBool b \<Rightarrow> Inr (if b then 1 else 0)
     | JStr s \<Rightarrow> (case x_float_of X s of None \<Rightarrow> Inl ValueError | Some r \<Rightarrow> Inr r)
     | _ \<Rightarrow> Inl TypeError)"

end
