(* ===== verification/Canonical.thy ===== *)
theory Canonical
  imports Values
begin

text \<open>
  \<open>app/domain/canonical.py\<close>: the canonical events every adapter produces and the state machine
  consumes.  Pydantic models are records; constructing a model is a function that runs the
  model's validators and returns \<open>PydanticError\<close> where one of them rejects (the record type
  already carries the field types).
\<close>

section \<open>Enumerations\<close>

datatype Classification = SHIPMENT | INVOICE | UNCLASSIFIED

fun classification_value :: "Classification \<Rightarrow> string" where
  "classification_value SHIPMENT = ''shipment''"
| "classification_value INVOICE = ''invoice''"
| "classification_value UNCLASSIFIED = ''unclassified''"

datatype ShipmentEventType =
  ev_PICKED_UP | ev_IN_TRANSIT | ev_OUT_FOR_DELIVERY | ev_DELIVERED | ev_EXCEPTION | ev_CANCELLED

fun shipment_event_value :: "ShipmentEventType \<Rightarrow> string" where
  "shipment_event_value ev_PICKED_UP = ''shipment.picked_up''"
| "shipment_event_value ev_IN_TRANSIT = ''shipment.in_transit''"
| "shipment_event_value ev_OUT_FOR_DELIVERY = ''shipment.out_for_delivery''"
| "shipment_event_value ev_DELIVERED = ''shipment.delivered''"
| "shipment_event_value ev_EXCEPTION = ''shipment.exception''"
| "shipment_event_value ev_CANCELLED = ''shipment.cancelled''"

definition shipment_event_types :: "ShipmentEventType list" where
  "shipment_event_types =
     [ev_PICKED_UP, ev_IN_TRANSIT, ev_OUT_FOR_DELIVERY, ev_DELIVERED, ev_EXCEPTION, ev_CANCELLED]"

datatype InvoiceEventType = ev_ISSUED | ev_PAID | ev_VOIDED | ev_REFUNDED

fun invoice_event_value :: "InvoiceEventType \<Rightarrow> string" where
  "invoice_event_value ev_ISSUED = ''invoice.issued''"
| "invoice_event_value ev_PAID = ''invoice.paid''"
| "invoice_event_value ev_VOIDED = ''invoice.voided''"
| "invoice_event_value ev_REFUNDED = ''invoice.refunded''"

definition invoice_event_types :: "InvoiceEventType list" where
  "invoice_event_types = [ev_ISSUED, ev_PAID, ev_VOIDED, ev_REFUNDED]"

text \<open>Calling the enumeration with a value, as in \<open>ShipmentEventType(canonical_state)\<close>.\<close>

definition enum_of :: "('a \<Rightarrow> string) \<Rightarrow> 'a list \<Rightarrow> string \<Rightarrow> 'a result" where
  "enum_of val members s =
     (case find (\<lambda>m. val m = s) members of None \<Rightarrow> Inl ValueError | Some m \<Rightarrow> Inr m)"

definition shipment_event_of :: "string \<Rightarrow> ShipmentEventType result" where
  "shipment_event_of s = enum_of shipment_event_value shipment_event_types s"

definition invoice_event_of :: "string \<Rightarrow> InvoiceEventType result" where
  "invoice_event_of s = enum_of invoice_event_value invoice_event_types s"

datatype ShipmentState =
  PICKED_UP | IN_TRANSIT | OUT_FOR_DELIVERY | DELIVERED | EXCEPTION | CANCELLED

fun shipment_state_value :: "ShipmentState \<Rightarrow> string" where
  "shipment_state_value PICKED_UP = ''PICKED_UP''"
| "shipment_state_value IN_TRANSIT = ''IN_TRANSIT''"
| "shipment_state_value OUT_FOR_DELIVERY = ''OUT_FOR_DELIVERY''"
| "shipment_state_value DELIVERED = ''DELIVERED''"
| "shipment_state_value EXCEPTION = ''EXCEPTION''"
| "shipment_state_value CANCELLED = ''CANCELLED''"

datatype InvoiceState = ISSUED | PAID | VOIDED | REFUNDED

fun invoice_state_value :: "InvoiceState \<Rightarrow> string" where
  "invoice_state_value ISSUED = ''ISSUED''"
| "invoice_state_value PAID = ''PAID''"
| "invoice_state_value VOIDED = ''VOIDED''"
| "invoice_state_value REFUNDED = ''REFUNDED''"

datatype Source = DETERMINISTIC | LLM | LLM_CACHE

fun source_value :: "Source \<Rightarrow> string" where
  "source_value DETERMINISTIC = ''deterministic''"
| "source_value LLM = ''llm''"
| "source_value LLM_CACHE = ''llm_cache''"

fun SHIPMENT_EVENT_TO_STATE :: "ShipmentEventType \<Rightarrow> ShipmentState" where
  "SHIPMENT_EVENT_TO_STATE ev_PICKED_UP = PICKED_UP"
| "SHIPMENT_EVENT_TO_STATE ev_IN_TRANSIT = IN_TRANSIT"
| "SHIPMENT_EVENT_TO_STATE ev_OUT_FOR_DELIVERY = OUT_FOR_DELIVERY"
| "SHIPMENT_EVENT_TO_STATE ev_DELIVERED = DELIVERED"
| "SHIPMENT_EVENT_TO_STATE ev_EXCEPTION = EXCEPTION"
| "SHIPMENT_EVENT_TO_STATE ev_CANCELLED = CANCELLED"

fun INVOICE_EVENT_TO_STATE :: "InvoiceEventType \<Rightarrow> InvoiceState" where
  "INVOICE_EVENT_TO_STATE ev_ISSUED = ISSUED"
| "INVOICE_EVENT_TO_STATE ev_PAID = PAID"
| "INVOICE_EVENT_TO_STATE ev_VOIDED = VOIDED"
| "INVOICE_EVENT_TO_STATE ev_REFUNDED = REFUNDED"

section \<open>Models\<close>

record Money =
  m_currency :: string
  m_amount_minor :: int

record Location =
  l_code :: "string option"
  l_name :: "string option"
  l_latitude :: "rat option"
  l_longitude :: "rat option"

record canonical_base =
  ev_event_id :: string
  ev_vendor_id :: string
  ev_schema_version :: string
  ev_source :: Source
  ev_confidence :: rat

record shipment_event = canonical_base +
  sh_external_id :: string
  sh_event_type :: ShipmentEventType
  sh_timestamp :: datetime
  sh_reference_ids :: jobject
  sh_location :: "Location option"
  sh_raw_milestone :: "string option"

record invoice_event = canonical_base +
  in_external_id :: string
  in_event_type :: InvoiceEventType
  in_timestamp :: datetime
  in_amount :: "Money option"
  in_due_at :: "datetime option"
  in_linked_references :: jobject
  in_raw_kind :: "string option"

record unclassified_event = canonical_base +
  un_summary :: "string option"
  un_reason :: "string option"

datatype CanonicalEvent =
    Shipment shipment_event
  | Invoice invoice_event
  | Unclassified unclassified_event

fun event_id :: "CanonicalEvent \<Rightarrow> string" where
  "event_id (Shipment e) = ev_event_id e"
| "event_id (Invoice e) = ev_event_id e"
| "event_id (Unclassified e) = ev_event_id e"

fun vendor_id :: "CanonicalEvent \<Rightarrow> string" where
  "vendor_id (Shipment e) = ev_vendor_id e"
| "vendor_id (Invoice e) = ev_vendor_id e"
| "vendor_id (Unclassified e) = ev_vendor_id e"

fun classification :: "CanonicalEvent \<Rightarrow> Classification" where
  "classification (Shipment e) = SHIPMENT"
| "classification (Invoice e) = INVOICE"
| "classification (Unclassified e) = UNCLASSIFIED"

fun confidence :: "CanonicalEvent \<Rightarrow> rat" where
  "confidence (Shipment e) = ev_confidence e"
| "confidence (Invoice e) = ev_confidence e"
| "confidence (Unclassified e) = ev_confidence e"

text \<open>\<open>event.model_copy(update={"vendor_id": v})\<close>: a copy, without validation.\<close>

fun with_vendor_id :: "string \<Rightarrow> CanonicalEvent \<Rightarrow> CanonicalEvent" where
  "with_vendor_id v (Shipment e) = Shipment (e\<lparr>ev_vendor_id := v\<rparr>)"
| "with_vendor_id v (Invoice e) = Invoice (e\<lparr>ev_vendor_id := v\<rparr>)"
| "with_vendor_id v (Unclassified e) = Unclassified (e\<lparr>ev_vendor_id := v\<rparr>)"

section \<open>Validators\<close>

definition non_empty :: "string \<Rightarrow> bool" where
  "non_empty v \<longleftrightarrow> v \<noteq> [] \<and> strip v \<noteq> []"

definition base_valid :: "('a) canonical_base_scheme \<Rightarrow> bool" where
  "base_valid e \<longleftrightarrow>
     non_empty (ev_event_id e) \<and> non_empty (ev_vendor_id e) \<and>
     0 \<le> ev_confidence e \<and> ev_confidence e \<le> 1"

definition money_valid :: "Money \<Rightarrow> bool" where
  "money_valid m \<longleftrightarrow>
     length (m_currency m) = 3 \<and> list_all is_upper (m_currency m) \<and> 0 \<le> m_amount_minor m"

definition shipment_valid :: "shipment_event \<Rightarrow> bool" where
  "shipment_valid e \<longleftrightarrow> base_valid e \<and> dt_aware (sh_timestamp e)"

definition invoice_valid :: "invoice_event \<Rightarrow> bool" where
  "invoice_valid e \<longleftrightarrow> base_valid e \<and> dt_aware (in_timestamp e) \<and>
     (case in_amount e of None \<Rightarrow> True | Some m \<Rightarrow> money_valid m)"

fun event_valid :: "CanonicalEvent \<Rightarrow> bool" where
  "event_valid (Shipment e) = shipment_valid e"
| "event_valid (Invoice e) = invoice_valid e"
| "event_valid (Unclassified e) = base_valid e"

definition new_money :: "string \<Rightarrow> int \<Rightarrow> Money result" where
  "new_money cur amt =
     (let m = \<lparr>m_currency = cur, m_amount_minor = amt\<rparr>
      in if money_valid m then Inr m else Inl PydanticError)"

definition new_shipment :: "shipment_event \<Rightarrow> shipment_event result" where
  "new_shipment e = (if shipment_valid e then Inr e else Inl PydanticError)"

definition new_invoice :: "invoice_event \<Rightarrow> invoice_event result" where
  "new_invoice e = (if invoice_valid e then Inr e else Inl PydanticError)"

definition new_unclassified :: "unclassified_event \<Rightarrow> unclassified_event result" where
  "new_unclassified e = (if base_valid e then Inr e else Inl PydanticError)"

lemmas new_event_defs = new_shipment_def new_invoice_def new_unclassified_def

section \<open>Facts about the enumerations\<close>

lemma shipment_event_of_value [simp]: "shipment_event_of (shipment_event_value t) = Inr t"
  by (cases t) (simp_all add: shipment_event_of_def enum_of_def shipment_event_types_def)

lemma invoice_event_of_value [simp]: "invoice_event_of (invoice_event_value t) = Inr t"
  by (cases t) (simp_all add: invoice_event_of_def enum_of_def invoice_event_types_def)

lemma enum_of_Inr: "enum_of val ms s = Inr m \<Longrightarrow> val m = s \<and> m \<in> set ms"
  by (auto simp: enum_of_def find_Some_iff split: option.splits)

lemma enum_of_Inl: "enum_of val ms s = Inl e \<Longrightarrow> e = ValueError"
  by (auto simp: enum_of_def split: option.splits)

lemma shipment_event_of_Inr:
  "shipment_event_of s = Inr t \<longleftrightarrow> s = shipment_event_value t"
  using enum_of_Inr [of shipment_event_value shipment_event_types s t]
  by (auto simp: shipment_event_of_def [symmetric])

lemma invoice_event_of_Inr:
  "invoice_event_of s = Inr t \<longleftrightarrow> s = invoice_event_value t"
  using enum_of_Inr [of invoice_event_value invoice_event_types s t]
  by (auto simp: invoice_event_of_def [symmetric])

lemma SHIPMENT_EVENT_TO_STATE_bij: "bij SHIPMENT_EVENT_TO_STATE"
proof (rule bijI)
  show "inj SHIPMENT_EVENT_TO_STATE"
  proof (rule injI)
    fix x y
    assume "SHIPMENT_EVENT_TO_STATE x = SHIPMENT_EVENT_TO_STATE y"
    then show "x = y" by (cases x; cases y) simp_all
  qed
  show "surj SHIPMENT_EVENT_TO_STATE"
  proof (rule surjI)
    fix s
    show "SHIPMENT_EVENT_TO_STATE (case s of PICKED_UP \<Rightarrow> ev_PICKED_UP | IN_TRANSIT \<Rightarrow> ev_IN_TRANSIT
        | OUT_FOR_DELIVERY \<Rightarrow> ev_OUT_FOR_DELIVERY | DELIVERED \<Rightarrow> ev_DELIVERED
        | EXCEPTION \<Rightarrow> ev_EXCEPTION | CANCELLED \<Rightarrow> ev_CANCELLED) = s"
      by (cases s) simp_all
  qed
qed

lemma event_valid_new:
  "new_shipment e = Inr e' \<Longrightarrow> event_valid (Shipment e') \<and> e' = e"
  "new_invoice i = Inr i' \<Longrightarrow> event_valid (Invoice i') \<and> i' = i"
  "new_unclassified u = Inr u' \<Longrightarrow> event_valid (Unclassified u') \<and> u' = u"
  by (auto simp: new_event_defs split: if_splits)

end
