(* ===== verification/Normalizer.thy ===== *)
theory Normalizer
  imports Canonical
begin

text \<open>
  \<open>app/domain/normalizer.py\<close>: the checkpoint between extraction and projection.  The lemmas
  show what the state machine may rely on (\<open>normalized\<close>), that normalising twice changes
  nothing, which fields survive unchanged, and the only way it fails.
\<close>

section \<open>Helpers\<close>

definition to_utc :: "datetime \<Rightarrow> datetime result" where
  "to_utc dt = (if dt_off dt = None then Inr (replace_utc dt) else astimezone_utc dt)"

definition clamp_confidence :: "rat \<Rightarrow> rat" where
  "clamp_confidence v = max 0 (min 1 v)"

definition strip_or_none :: "string option \<Rightarrow> string option" where
  "strip_or_none v = (case v of
       None \<Rightarrow> None
     | Some s \<Rightarrow> (let stripped = strip s in if stripped \<noteq> [] then Some stripped else None))"

definition normalize_money :: "Money option \<Rightarrow> Money option result" where
  "normalize_money m = (case m of
       None \<Rightarrow> Inr None
     | Some m \<Rightarrow> bindE (new_money (upper (m_currency m)) (max 0 (m_amount_minor m)))
                  (\<lambda>m'. Inr (Some m')))"

definition normalize_location :: "Location option \<Rightarrow> Location option" where
  "normalize_location l = (case l of
       None \<Rightarrow> None
     | Some l \<Rightarrow>
         (let code = strip_or_none (l_code l); name = strip_or_none (l_name l)
          in if code = None \<and> name = None then None
             else Some \<lparr>l_code = code, l_name = name,
                        l_latitude = l_latitude l, l_longitude = l_longitude l\<rparr>))"

fun clean_ref_dict :: "jobject \<Rightarrow> jobject" where
  "clean_ref_dict [] = []"
| "clean_ref_dict ((k, v) # refs) = (case v of
       JNull \<Rightarrow> clean_ref_dict refs
     | JStr s \<Rightarrow> (if strip s \<noteq> [] then (k, JStr (strip s)) # clean_ref_dict refs
                  else clean_ref_dict refs)
     | _ \<Rightarrow> (k, v) # clean_ref_dict refs)"

text \<open>\<open>_to_utc(ev.due_at) if ev.due_at else None\<close>.\<close>

definition opt_to_utc :: "datetime option \<Rightarrow> datetime option result" where
  "opt_to_utc d = (case d of None \<Rightarrow> Inr None | Some d \<Rightarrow> bindE (to_utc d) (\<lambda>d'. Inr (Some d')))"

section \<open>The three event kinds\<close>

definition normalize_shipment :: "shipment_event \<Rightarrow> shipment_event result" where
  "normalize_shipment ev =
     bindE (to_utc (sh_timestamp ev)) (\<lambda>ts.
       new_shipment
         \<lparr>ev_event_id = ev_event_id ev,
          ev_vendor_id = strip (ev_vendor_id ev),
          ev_schema_version = ev_schema_version ev,
          ev_source = ev_source ev,
          ev_confidence = clamp_confidence (ev_confidence ev),
          sh_external_id = strip (sh_external_id ev),
          sh_event_type = sh_event_type ev,
          sh_timestamp = ts,
          sh_reference_ids = clean_ref_dict (sh_reference_ids ev),
          sh_location = normalize_location (sh_location ev),
          sh_raw_milestone = strip_or_none (sh_raw_milestone ev)\<rparr>)"

definition normalize_invoice :: "invoice_event \<Rightarrow> invoice_event result" where
  "normalize_invoice ev =
     bindE (to_utc (in_timestamp ev)) (\<lambda>ts.
     bindE (normalize_money (in_amount ev)) (\<lambda>amount.
     bindE (opt_to_utc (in_due_at ev)) (\<lambda>due.
       new_invoice
         \<lparr>ev_event_id = ev_event_id ev,
          ev_vendor_id = strip (ev_vendor_id ev),
          ev_schema_version = ev_schema_version ev,
          ev_source = ev_source ev,
          ev_confidence = clamp_confidence (ev_confidence ev),
          in_external_id = strip (in_external_id ev),
          in_event_type = in_event_type ev,
          in_timestamp = ts,
          in_amount = amount,
          in_due_at = due,
          in_linked_references = clean_ref_dict (in_linked_references ev),
          in_raw_kind = strip_or_none (in_raw_kind ev)\<rparr>)))"

definition normalize_unclassified :: "unclassified_event \<Rightarrow> unclassified_event result" where
  "normalize_unclassified ev =
     new_unclassified
       \<lparr>ev_event_id = ev_event_id ev,
        ev_vendor_id = strip (ev_vendor_id ev),
        ev_schema_version = ev_schema_version ev,
        ev_source = ev_source ev,
        ev_confidence = clamp_confidence (ev_confidence ev),
        un_summary = strip_or_none (un_summary ev),
        un_reason = strip_or_none (un_reason ev)\<rparr>"

fun normalize :: "CanonicalEvent \<Rightarrow> CanonicalEvent result" where
  "normalize (Shipment e) = bindE (normalize_shipment e) (\<lambda>e'. Inr (Shipment e'))"
| "normalize (Invoice e) = bindE (normalize_invoice e) (\<lambda>e'. Inr (Invoice e'))"
| "normalize (Unclassified e) = bindE (normalize_unclassified e) (\<lambda>e'. Inr (Unclassified e'))"

section \<open>Fixed points of the helpers\<close>

lemma to_utc_utc: "to_utc d = Inr d' \<Longrightarrow> is_utc d'"
  by (auto simp: to_utc_def replace_utc_def is_utc_def dest: astimezone_utc_instant split: if_splits)

lemma to_utc_instant: "to_utc d = Inr d' \<Longrightarrow> dt_instant d' = dt_instant d"
  by (auto simp: to_utc_def replace_utc_def dt_instant_def dest: astimezone_utc_instant split: if_splits)

lemma to_utc_valid: "to_utc d = Inr d' \<Longrightarrow> dt_valid d \<Longrightarrow> dt_valid d'"
  by (auto simp: to_utc_def replace_utc_def dt_valid_def
      dest!: astimezone_utc_instant split: if_splits)

lemma to_utc_idem: "to_utc d = Inr d' \<Longrightarrow> dt_valid d \<Longrightarrow> to_utc d' = Inr d'"
  using to_utc_utc [of d d'] to_utc_valid [of d d'] astimezone_utc_fixed [of d']
  by (simp add: to_utc_def is_utc_def)

lemma to_utc_error: "to_utc d = Inl e \<Longrightarrow> e = OverflowError"
  by (auto simp: to_utc_def astimezone_utc_def Let_def split: if_splits)

definition utc_representable :: "datetime \<Rightarrow> bool" where
  "utc_representable d \<longleftrightarrow> 0 \<le> dt_instant d \<and> dt_instant d < max_wall"

lemma to_utc_ok_iff: "dt_aware d \<Longrightarrow> is_ok (to_utc d) \<longleftrightarrow> utc_representable d"
  by (auto simp: to_utc_def astimezone_utc_def Let_def dt_aware_def utc_representable_def)

lemma clamp_range: "0 \<le> clamp_confidence v \<and> clamp_confidence v \<le> 1"
  by (simp add: clamp_confidence_def)

lemma clamp_id: "0 \<le> v \<Longrightarrow> v \<le> 1 \<Longrightarrow> clamp_confidence v = v"
  by (simp add: clamp_confidence_def)

lemma clamp_idem [simp]: "clamp_confidence (clamp_confidence v) = clamp_confidence v"
  using clamp_range [of v] by (simp add: clamp_id)

lemma strip_or_none_idem [simp]: "strip_or_none (strip_or_none v) = strip_or_none v"
  by (simp add: strip_or_none_def Let_def split: option.splits)

lemma strip_or_none_Some: "strip_or_none v = Some s \<Longrightarrow> s \<noteq> [] \<and> strip s = s"
  by (auto simp: strip_or_none_def Let_def split: option.splits if_splits)

lemma normalize_location_idem [simp]:
  "normalize_location (normalize_location l) = normalize_location l"
  by (simp add: normalize_location_def Let_def split: option.splits)

lemma clean_ref_dict_idem [simp]: "clean_ref_dict (clean_ref_dict refs) = clean_ref_dict refs"
  by (induction refs rule: clean_ref_dict.induct) (auto split: json.splits)

text \<open>What remains in a cleaned dictionary: no \<open>None\<close>, no blank string, every string stripped.\<close>

definition clean_value :: "json \<Rightarrow> bool" where
  "clean_value v = (case v of JNull \<Rightarrow> False | JStr s \<Rightarrow> s \<noteq> [] \<and> strip s = s | _ \<Rightarrow> True)"

lemma clean_ref_dict_clean: "(k, v) \<in> set (clean_ref_dict refs) \<Longrightarrow> clean_value v"
  by (induction refs rule: clean_ref_dict.induct)
    (auto simp: clean_value_def split: json.splits if_splits)

lemma clean_ref_dict_keys: "k \<in> fst ` set (clean_ref_dict refs) \<Longrightarrow> k \<in> fst ` set refs"
  by (induction refs rule: clean_ref_dict.induct) (auto split: json.splits if_splits)

lemma jget_absent: "k \<notin> fst ` set kvs \<Longrightarrow> jget kvs k = JNull"
  by (auto simp: jget_def map_of_eq_None_iff [THEN iffD2] split: option.splits dest: map_of_SomeD)

lemma clean_ref_dict_get:
  assumes "distinct (map fst refs)"
  shows "jget (clean_ref_dict refs) k = (case jget refs k of
      JStr s \<Rightarrow> if strip s \<noteq> [] then JStr (strip s) else JNull | v \<Rightarrow> v)"
  using assms
proof (induction refs)
  case (Cons p refs)
  obtain k' v where p: "p = (k', v)" by (cases p)
  then have k': "k' \<notin> fst ` set refs" using Cons.prems by simp
  then have "k' \<notin> fst ` set (clean_ref_dict refs)" using clean_ref_dict_keys by blast
  then have absent: "jget (clean_ref_dict refs) k' = JNull" by (rule jget_absent)
  have IH: "jget (clean_ref_dict refs) k = (case jget refs k of
      JStr s \<Rightarrow> if strip s \<noteq> [] then JStr (strip s) else JNull | v \<Rightarrow> v)"
    using Cons by simp
  show ?case
  proof (cases "k = k'")
    case True
    then show ?thesis using absent p by (cases v) simp_all
  next
    case False
    then show ?thesis using IH p by (cases v) simp_all
  qed
qed simp

lemma normalize_money_valid:
  assumes "case m of None \<Rightarrow> True | Some x \<Rightarrow> money_valid x"
  shows "normalize_money m = Inr m"
proof (cases m)
  case (Some x)
  with assms have "money_valid x" by simp
  then have "upper (m_currency x) = m_currency x" "max 0 (m_amount_minor x) = m_amount_minor x"
    by (auto simp: money_valid_def list_all_iff intro: upper_id)
  with \<open>money_valid x\<close> Some show ?thesis
    by (cases x) (simp add: normalize_money_def new_money_def Let_def)
qed (simp add: normalize_money_def)

lemma normalize_money_result:
  "normalize_money m = Inr m' \<Longrightarrow> (case m' of None \<Rightarrow> True | Some x \<Rightarrow> money_valid x)"
  by (auto simp: normalize_money_def new_money_def Let_def bindE_eq_Inr split: option.splits if_splits)

lemma opt_to_utc_idem:
  assumes "opt_to_utc d = Inr d'" "\<forall>x. d = Some x \<longrightarrow> dt_valid x"
  shows "opt_to_utc d' = Inr d'"
  using assms by (auto simp: opt_to_utc_def bindE_eq_Inr to_utc_idem split: option.splits)

section \<open>The guarantees\<close>

text \<open>A Python datetime always lies in the years 1 to 9999.\<close>

fun event_dates_valid :: "CanonicalEvent \<Rightarrow> bool" where
  "event_dates_valid (Shipment e) = dt_valid (sh_timestamp e)"
| "event_dates_valid (Invoice e) =
     (dt_valid (in_timestamp e) \<and> (case in_due_at e of None \<Rightarrow> True | Some d \<Rightarrow> dt_valid d))"
| "event_dates_valid (Unclassified e) = True"

fun event_utc_representable :: "CanonicalEvent \<Rightarrow> bool" where
  "event_utc_representable (Shipment e) = utc_representable (sh_timestamp e)"
| "event_utc_representable (Invoice e) =
     (utc_representable (in_timestamp e) \<and>
      (case in_due_at e of None \<Rightarrow> True | Some d \<Rightarrow> dt_aware d \<longrightarrow> utc_representable d))"
| "event_utc_representable (Unclassified e) = True"

definition stripped_or_none :: "string option \<Rightarrow> bool" where
  "stripped_or_none v \<longleftrightarrow> (case v of None \<Rightarrow> True | Some s \<Rightarrow> s \<noteq> [] \<and> strip s = s)"

definition location_clean :: "Location option \<Rightarrow> bool" where
  "location_clean l \<longleftrightarrow> (case l of None \<Rightarrow> True
     | Some l \<Rightarrow> stripped_or_none (l_code l) \<and> stripped_or_none (l_name l) \<and>
                 (l_code l \<noteq> None \<or> l_name l \<noteq> None))"

definition refs_clean :: "jobject \<Rightarrow> bool" where
  "refs_clean refs \<longleftrightarrow> list_all (\<lambda>(k, v). clean_value v) refs"

fun normalized :: "CanonicalEvent \<Rightarrow> bool" where
  "normalized (Shipment e) =
     (is_utc (sh_timestamp e) \<and> strip (ev_vendor_id e) = ev_vendor_id e \<and>
      strip (sh_external_id e) = sh_external_id e \<and> refs_clean (sh_reference_ids e) \<and>
      location_clean (sh_location e) \<and> stripped_or_none (sh_raw_milestone e))"
| "normalized (Invoice e) =
     (is_utc (in_timestamp e) \<and> strip (ev_vendor_id e) = ev_vendor_id e \<and>
      strip (in_external_id e) = in_external_id e \<and> refs_clean (in_linked_references e) \<and>
      (case in_due_at e of None \<Rightarrow> True | Some d \<Rightarrow> is_utc d) \<and>
      stripped_or_none (in_raw_kind e))"
| "normalized (Unclassified e) =
     (strip (ev_vendor_id e) = ev_vendor_id e \<and>
      stripped_or_none (un_summary e) \<and> stripped_or_none (un_reason e))"

lemma stripped_strip_or_none [simp]: "stripped_or_none (strip_or_none v)"
  by (auto simp: stripped_or_none_def dest: strip_or_none_Some split: option.splits)

lemma location_clean_normalize [simp]: "location_clean (normalize_location l)"
  by (auto simp: location_clean_def normalize_location_def Let_def split: option.splits)

lemma refs_clean_clean [simp]: "refs_clean (clean_ref_dict refs)"
  by (auto simp: refs_clean_def list_all_iff dest: clean_ref_dict_clean)

lemma opt_to_utc_utc:
  "opt_to_utc d = Inr d' \<Longrightarrow> (case d' of None \<Rightarrow> True | Some x \<Rightarrow> is_utc x)"
  by (auto simp: opt_to_utc_def bindE_eq_Inr to_utc_utc split: option.splits)

lemmas normalize_kind_defs =
  normalize_shipment_def normalize_invoice_def normalize_unclassified_def

lemma normalize_shipment_ok:
  assumes "shipment_valid e"
  shows "is_ok (normalize_shipment e) \<longleftrightarrow> utc_representable (sh_timestamp e)"
    and "normalize_shipment e = Inl x \<Longrightarrow> x = OverflowError"
proof -
  have valid: "shipment_valid (e\<lparr>ev_vendor_id := strip (ev_vendor_id e),
      ev_confidence := clamp_confidence (ev_confidence e), sh_external_id := i, sh_timestamp := ts,
      sh_reference_ids := r, sh_location := l, sh_raw_milestone := m\<rparr>)"
    if "is_utc ts" for ts i r l m
    using assms that clamp_range
    by (auto simp: shipment_valid_def base_valid_def non_empty_def dt_aware_def is_utc_def)
  show "is_ok (normalize_shipment e) \<longleftrightarrow> utc_representable (sh_timestamp e)"
    using assms valid to_utc_ok_iff [of "sh_timestamp e"]
    by (cases "to_utc (sh_timestamp e)"; cases e)
      (auto simp: normalize_shipment_def new_shipment_def shipment_valid_def dest: to_utc_utc)
  show "x = OverflowError" if "normalize_shipment e = Inl x"
    using that assms valid
    by (cases e) (auto simp: normalize_shipment_def new_shipment_def bindE_eq_Inl
        dest: to_utc_error to_utc_utc split: if_splits)
qed

lemma opt_to_utc_ok:
  "is_ok (opt_to_utc d) \<longleftrightarrow>
     (case d of None \<Rightarrow> True | Some d \<Rightarrow> dt_aware d \<longrightarrow> utc_representable d)"
  by (auto simp: opt_to_utc_def is_ok_iff bindE_eq_Inr to_utc_def astimezone_utc_def Let_def
      dt_aware_def utc_representable_def split: option.splits)

lemma opt_to_utc_error: "opt_to_utc d = Inl e \<Longrightarrow> e = OverflowError"
  by (auto simp: opt_to_utc_def bindE_eq_Inl dest: to_utc_error split: option.splits)

lemma normalize_invoice_ok:
  assumes "invoice_valid e"
  shows "is_ok (normalize_invoice e) \<longleftrightarrow>
      utc_representable (in_timestamp e) \<and>
      (case in_due_at e of None \<Rightarrow> True | Some d \<Rightarrow> dt_aware d \<longrightarrow> utc_representable d)"
    and "normalize_invoice e = Inl x \<Longrightarrow> x = OverflowError"
proof -
  have money: "normalize_money (in_amount e) = Inr (in_amount e)"
    using assms by (intro normalize_money_valid) (simp add: invoice_valid_def)
  have valid: "invoice_valid (e\<lparr>ev_vendor_id := strip (ev_vendor_id e),
      ev_confidence := clamp_confidence (ev_confidence e), in_external_id := i, in_timestamp := ts,
      in_due_at := d, in_linked_references := r, in_raw_kind := k\<rparr>)"
    if "is_utc ts" for ts i d r k
    using assms that clamp_range
    by (auto simp: invoice_valid_def base_valid_def non_empty_def dt_aware_def is_utc_def)
  have result: "normalize_invoice e =
      bindE (to_utc (in_timestamp e)) (\<lambda>ts. bindE (opt_to_utc (in_due_at e)) (\<lambda>d.
        Inr (e\<lparr>ev_vendor_id := strip (ev_vendor_id e),
          ev_confidence := clamp_confidence (ev_confidence e),
          in_external_id := strip (in_external_id e), in_timestamp := ts, in_due_at := d,
          in_linked_references := clean_ref_dict (in_linked_references e),
          in_raw_kind := strip_or_none (in_raw_kind e)\<rparr>)))"
    using valid money
    by (cases e) (auto simp: normalize_invoice_def new_invoice_def dest: to_utc_utc
        intro!: bindE_cong)
  have aware: "dt_aware (in_timestamp e)" using assms by (simp add: invoice_valid_def)
  show "is_ok (normalize_invoice e) \<longleftrightarrow>
      utc_representable (in_timestamp e) \<and>
      (case in_due_at e of None \<Rightarrow> True | Some d \<Rightarrow> dt_aware d \<longrightarrow> utc_representable d)"
    unfolding to_utc_ok_iff [OF aware, symmetric] opt_to_utc_ok [symmetric] result
    by (auto simp: is_ok_iff bindE_eq_Inr)
  show "x = OverflowError" if "normalize_invoice e = Inl x"
    using that unfolding result by (auto simp: bindE_eq_Inl dest: to_utc_error opt_to_utc_error)
qed

lemma normalize_unclassified_ok: "base_valid e \<Longrightarrow> is_ok (normalize_unclassified e)"
  using clamp_range
  by (auto simp: normalize_unclassified_def new_unclassified_def base_valid_def non_empty_def)

section \<open>Properties\<close>

text \<open>A shipment event as an adapter may hand it over: local time, blanks, an empty reference.\<close>

definition sample_shipment :: shipment_event where
  "sample_shipment =
     \<lparr>ev_event_id = ''e1'', ev_vendor_id = '' maersk'', ev_schema_version = ''v1'',
      ev_source = LLM, ev_confidence = 9/10,
      sh_external_id = ''MAEU1 '', sh_event_type = ev_IN_TRANSIT,
      sh_timestamp = \<lparr>dt_wall = 63912000000000000, dt_off = Some 28800000000\<rparr>,
      sh_reference_ids = [(''mbl'', JStr '' M1 ''), (''none'', JNull), (''empty'', JStr [])],
      sh_location = Some \<lparr>l_code = Some '' SGSIN'', l_name = Some '' '',
                          l_latitude = None, l_longitude = None\<rparr>,
      sh_raw_milestone = Some []\<rparr>"

definition sample_normalized :: shipment_event where
  "sample_normalized =
     \<lparr>ev_event_id = ''e1'', ev_vendor_id = ''maersk'', ev_schema_version = ''v1'',
      ev_source = LLM, ev_confidence = 9/10,
      sh_external_id = ''MAEU1'', sh_event_type = ev_IN_TRANSIT,
      sh_timestamp = \<lparr>dt_wall = 63911971200000000, dt_off = Some 0\<rparr>,
      sh_reference_ids = [(''mbl'', JStr ''M1'')],
      sh_location = Some \<lparr>l_code = Some ''SGSIN'', l_name = None,
                          l_latitude = None, l_longitude = None\<rparr>,
      sh_raw_milestone = None\<rparr>"

lemma normalize_sample: "normalize (Shipment sample_shipment) = Inr (Shipment sample_normalized)"
  by code_simp

fun external_id :: "CanonicalEvent \<Rightarrow> string option" where
  "external_id (Shipment e) = Some (sh_external_id e)"
| "external_id (Invoice e) = Some (in_external_id e)"
| "external_id (Unclassified e) = None"

text \<open>C18: whatever \<open>normalize\<close> returns satisfies the invariants the state machine relies on:
  timestamps are in UTC, the vendor id is stripped and not empty, optional texts are absent or stripped and
  not empty, reference dictionaries hold no null and no blank entry, and the pydantic validators
  (confidence in [0, 1], ISO currency, non-negative amount, non-empty event and vendor id) accept it.  The
  external id of the entity is the stripped one, which is empty when the given one was blank.\<close>

theorem normalize_guarantees:
  assumes "normalize e = Inr e'"
  shows "normalized e' \<and> event_valid e' \<and> external_id e' = map_option strip (external_id e)"
  using assms
  by (cases e)
    (auto simp: normalize_kind_defs new_event_defs bindE_eq_Inr to_utc_utc opt_to_utc_utc
          split: if_splits)

text \<open>The module promises that all strings are stripped and non-empty or \<open>None\<close>; a blank external id is
  neither refused nor \<open>None\<close>, and the events of a vendor that have one all move the entity with the empty id.\<close>

lemma blank_external_id_becomes_empty:
  "map_option external_id (case normalize (Shipment (sample_shipment\<lparr>sh_external_id := ''  ''\<rparr>)) of
     Inr e \<Rightarrow> Some e | Inl _ \<Rightarrow> None) = Some (Some [])"
  by code_simp

lemma normalize_guarantees_witness:
  "normalized (Shipment sample_normalized) \<and> event_valid (Shipment sample_normalized) \<and>
   external_id (Shipment sample_normalized) = Some (strip (sh_external_id sample_shipment))"
  using normalize_guarantees [OF normalize_sample] by simp

text \<open>C19: normalising an event that is already normalised changes nothing.\<close>

theorem normalize_idempotent:
  assumes "event_dates_valid e" and "normalize e = Inr e'"
  shows "normalize e' = Inr e'"
proof (cases e)
  case (Shipment s)
  with assms show ?thesis
    by (auto simp: normalize_shipment_def new_shipment_def bindE_eq_Inr to_utc_idem
        split: if_splits)
next
  case (Invoice i)
  with assms show ?thesis
    by (auto simp: normalize_invoice_def new_invoice_def bindE_eq_Inr to_utc_idem invoice_valid_def
        normalize_money_valid opt_to_utc_idem split: if_splits option.splits)
next
  case (Unclassified u)
  with assms show ?thesis
    by (auto simp: normalize_unclassified_def new_unclassified_def bindE_eq_Inr split: if_splits)
qed

lemma normalize_idempotent_witness:
  "normalize (Shipment sample_normalized) = Inr (Shipment sample_normalized)"
proof (rule normalize_idempotent [OF _ normalize_sample])
  show "event_dates_valid (Shipment sample_shipment)" by code_simp
qed

text \<open>A valid event is normalised exactly when its timestamps lie in the years 1 to 9999 in
  UTC; the only failure is the \<open>OverflowError\<close> of \<open>astimezone\<close>, never the
  \<open>NormalizationError\<close> the worker handles.\<close>

lemma normalize_fails_only_on_overflow:
  assumes "event_valid e"
  shows "case normalize e of
      Inr e' \<Rightarrow> event_utc_representable e
    | Inl x \<Rightarrow> x = OverflowError \<and> \<not> event_utc_representable e"
proof (cases e)
  case (Shipment s)
  with assms normalize_shipment_ok [of s] show ?thesis
    by (cases "normalize_shipment s") auto
next
  case (Invoice i)
  with assms normalize_invoice_ok [of i] show ?thesis
    by (cases "normalize_invoice i") auto
next
  case (Unclassified u)
  with assms normalize_unclassified_ok [of u] show ?thesis
    by (cases "normalize_unclassified u") auto
qed

lemma normalize_fails_only_on_overflow_witness:
  "event_utc_representable (Shipment sample_shipment)"
proof -
  have "event_valid (Shipment sample_shipment)" by code_simp
  from normalize_fails_only_on_overflow [OF this, unfolded normalize_sample]
  show ?thesis by simp
qed

fun event_instant :: "CanonicalEvent \<Rightarrow> int" where
  "event_instant (Shipment e) = dt_instant (sh_timestamp e)"
| "event_instant (Invoice e) = dt_instant (in_timestamp e)"
| "event_instant (Unclassified e) = 0"

fun event_target :: "CanonicalEvent \<Rightarrow> (ShipmentState + InvoiceState) option" where
  "event_target (Shipment e) = Some (Inl (SHIPMENT_EVENT_TO_STATE (sh_event_type e)))"
| "event_target (Invoice e) = Some (Inr (INVOICE_EVENT_TO_STATE (in_event_type e)))"
| "event_target (Unclassified e) = None"

text \<open>Normalising keeps what identifies the event and decides its projection: the kind, the
  event id, the target state and the instant of the event.\<close>

lemma normalize_preserves_meaning:
  assumes "normalize e = Inr e'"
  shows "classification e' = classification e \<and> event_id e' = event_id e \<and>
    event_target e' = event_target e \<and> event_instant e' = event_instant e"
  using assms
  by (cases e) (auto simp: normalize_kind_defs new_event_defs bindE_eq_Inr to_utc_instant
      split: if_splits)

lemma normalize_preserves_meaning_witness:
  "event_instant (Shipment sample_normalized) = event_instant (Shipment sample_shipment)"
  using normalize_preserves_meaning [OF normalize_sample] by simp

end
