(* ===== verification/Storage.thy ===== *)
theory Storage
  imports Normalizer
begin

text \<open>
  The Postgres schema of \<open>app/storage/migrations\<close> as a record of tables, with the constraints
  the code relies on.  A table is keyed by its primary key, or by its unique key where the code
  addresses rows by it (\<open>entities\<close> by (vendor, type, external id), \<open>vendor_schemas\<close> by
  (vendor, fingerprint, version)).  A \<open>timestamptz\<close> is an instant in microseconds.  \<open>clock\<close> is
  the time the database and the worker read; the environment moves it.
\<close>

section \<open>Rows\<close>

datatype processing_status = Queued | PendingLlm | Processed | Review | Failed

record raw_row =
  rw_vendor_id :: "string option"
  rw_received_at :: int
  rw_headers :: jobject
  rw_payload :: json
  rw_signature_verified :: bool
  rw_status :: processing_status
  rw_error :: "string option"
  rw_processed_at :: "int option"

record shipment_row =
  sp_vendor_id :: string
  sp_external_id :: string
  sp_state :: ShipmentState
  sp_last_event_id :: string
  sp_last_ts :: int
  sp_version :: int
  sp_reference_ids :: jobject
  sp_location :: "Location option"
  sp_updated_at :: int

record invoice_row =
  iv_vendor_id :: string
  iv_external_id :: string
  iv_state :: InvoiceState
  iv_last_event_id :: string
  iv_last_ts :: int
  iv_version :: int
  iv_currency :: "string option"
  iv_amount_minor :: "int option"
  iv_due_at :: "int option"
  iv_linked_references :: jobject
  iv_updated_at :: int

record applied_row =
  ap_applied_at :: int
  ap_target_state :: string

text \<open>The \<open>detail\<close> of a stale event; the code stores the two times as ISO text.\<close>

record stale_detail =
  sd_current_state :: string
  sd_current_last_ts :: int
  sd_event_timestamp :: datetime

record stale_row =
  st_entity_id :: int
  st_event_id :: string
  st_reason :: string
  st_detail :: "stale_detail option"
  st_observed_at :: int

record canonical_row =
  cn_event :: CanonicalEvent
  cn_normalized_at :: int

record review_row =
  hr_reason :: string
  hr_detail :: jobject
  hr_captured_at :: int

record cache_row =
  lc_output :: json
  lc_model :: string
  lc_prompt_version :: string
  lc_schema_version :: string
  lc_tokens_in :: int
  lc_tokens_out :: int
  lc_latency_ms :: int
  lc_cost_estimate :: rat

record audit_row =
  la_event_id :: string
  la_source :: string
  la_model :: string
  la_prompt_version :: string
  la_schema_version :: string
  la_tokens_in :: int
  la_tokens_out :: int
  la_latency_ms :: int
  la_cost_estimate :: rat
  la_decision :: string
  la_created_at :: int

datatype schema_status = Provisional | Active | Deprecated

record vendor_schema_row =
  vs_id :: int
  vs_schema_doc :: jobject
  vs_status :: schema_status
  vs_created_by :: string
  vs_source_event_id :: string
  vs_success_count :: int
  vs_failure_count :: int

record type_map_row =
  tm_canonical_state :: string
  tm_classification :: string
  tm_confidence :: rat
  tm_source :: string
  tm_reviewed_by_human :: bool

section \<open>The database\<close>

record db =
  clock :: int
  raw_events :: "(string, raw_row) table"
  entities :: "(string \<times> string \<times> string, int) table"
  next_entity_id :: int
  shipments :: "(int, shipment_row) table"
  invoices :: "(int, invoice_row) table"
  applied_events :: "(int \<times> string, applied_row) table"
  stale_event_log :: "stale_row list"
  canonical_events :: "(string, canonical_row) table"
  requires_human_review :: "(string, review_row) table"
  llm_cache :: "(string, cache_row) table"
  llm_audit :: "audit_row list"
  vendor_schemas :: "(string \<times> string \<times> int, vendor_schema_row) table"
  next_schema_id :: int
  vendor_event_type_map :: "(string \<times> string, type_map_row) table"

definition empty_db :: db where
  "empty_db =
     \<lparr>clock = 0, raw_events = [], entities = [], next_entity_id = 1, shipments = [],
      invoices = [], applied_events = [], stale_event_log = [], canonical_events = [],
      requires_human_review = [], llm_cache = [], llm_audit = [], vendor_schemas = [],
      next_schema_id = 1, vendor_event_type_map = []\<rparr>"

section \<open>Column types and foreign keys\<close>

definition int4_max :: int where
  "int4_max = 2147483647"

definition int8_max :: int where
  "int8_max = 9223372036854775807"

text \<open>\<open>version + 1\<close> on an \<open>INTEGER\<close> column.\<close>

definition int4_succ :: "int \<Rightarrow> int result" where
  "int4_succ v = (if v + 1 \<le> int4_max then Inr (v + 1) else Inl DataError)"

text \<open>A Python integer bound to a \<open>BIGINT\<close> parameter.\<close>

definition int8_param :: "int option \<Rightarrow> int option result" where
  "int8_param v = (case v of
       None \<Rightarrow> Inr None
     | Some n \<Rightarrow> if - int8_max - 1 \<le> n \<and> n \<le> int8_max then Inr (Some n) else Inl DataError)"

text \<open>The CHECK on \<open>invoices.amount_minor\<close> of migration 004.  Those on states, statuses, types and versions hold
  by the types of the model and the invariants of the tables.\<close>

definition amount_check :: "int option \<Rightarrow> bool" where
  "amount_check v = (case v of None \<Rightarrow> True | Some n \<Rightarrow> 0 \<le> n)"

definition event_exists :: "db \<Rightarrow> string \<Rightarrow> bool" where
  "event_exists d e \<longleftrightarrow> tbl_get (raw_events d) e \<noteq> None"

definition entity_exists :: "db \<Rightarrow> int \<Rightarrow> bool" where
  "entity_exists d i \<longleftrightarrow> i \<in> set (map snd (entities d))"

text \<open>\<open>a || b\<close> on \<open>jsonb\<close> objects: the right operand wins, key by key.\<close>

definition jsonb_concat :: "jobject \<Rightarrow> jobject \<Rightarrow> jobject" where
  "jsonb_concat a b = fold (\<lambda>(k, v). AList.update k v) b a"

definition coalesce :: "'a option \<Rightarrow> 'a option \<Rightarrow> 'a option" where
  "coalesce a b = (case a of None \<Rightarrow> b | Some x \<Rightarrow> Some x)"

lemma map_of_jsonb_concat: "map_of (jsonb_concat a b) = map_of a ++ map_of (rev b)"
proof (induction b arbitrary: a)
  case (Cons p b)
  obtain k v where "p = (k, v)" by (cases p)
  then show ?case
    using Cons.IH [of "AList.update k v a"]
    by (simp add: jsonb_concat_def update_conv' fun_eq_iff map_add_def split: option.splits)
qed (simp add: jsonb_concat_def)

lemma int4_succ_Inr: "int4_succ v = Inr w \<longleftrightarrow> v < int4_max \<and> w = v + 1"
  by (auto simp: int4_succ_def)

lemma int8_param_Inr: "int8_param v = Inr w \<Longrightarrow> w = v"
  by (auto simp: int8_param_def split: option.splits if_splits)

end
