(* ===== verification/LLMSchema.thy ===== *)
theory LLMSchema
  imports Storage
begin

text \<open>
  The text and schema side of \<open>app/llm/fallback.py\<close>: how an answer of the model is cut out of its
  markdown fences, and what \<open>app/llm/schemas/v1_target_schema.json\<close> demands of it.  The validator
  (\<open>jsonschema.validate\<close>) is library code and a parameter of the orchestrator;
  \<open>target_schema_ok\<close> is the documented meaning of the keywords the schema file uses.
\<close>

section \<open>Markdown fences\<close>

definition is_line_break :: "char \<Rightarrow> bool" where
  "is_line_break c \<longleftrightarrow> (let n = of_char c :: nat in (10 \<le> n \<and> n \<le> 13) \<or> (28 \<le> n \<and> n \<le> 30))"

text \<open>\<open>s.splitlines()\<close>; the first argument is the line read so far, reversed.\<close>

fun splitlines_at :: "string \<Rightarrow> string \<Rightarrow> string list" where
  "splitlines_at acc [] = (if acc = [] then [] else [rev acc])"
| "splitlines_at acc (c # cs) =
     (if c = CHR 0x0D then
        (case cs of [] \<Rightarrow> [rev acc]
         | d # ds \<Rightarrow> rev acc # splitlines_at [] (if d = CHR 0x0A then ds else d # ds))
      else if is_line_break c then rev acc # splitlines_at [] cs
      else splitlines_at (c # acc) cs)"

definition splitlines :: "string \<Rightarrow> string list" where
  "splitlines s = splitlines_at [] s"

definition fence :: string where
  "fence = replicate 3 (CHR 0x60)"

definition strip_fences :: "string \<Rightarrow> string" where
  "strip_fences txt =
     (let cleaned = strip txt in
      if startswith cleaned fence then
        let ls = splitlines cleaned;
            ls1 = (if ls \<noteq> [] \<and> startswith (lstrip (hd ls)) fence then tl ls else ls);
            ls2 = (if ls1 \<noteq> [] \<and> startswith (strip (last ls1)) fence then butlast ls1 else ls1)
        in strip (join [CHR 0x0A] ls2)
      else cleaned)"

section \<open>The target schema\<close>

definition null_or_string :: "json \<Rightarrow> bool" where
  "null_or_string v \<longleftrightarrow> (case v of JNull \<Rightarrow> True | JStr _ \<Rightarrow> True | _ \<Rightarrow> False)"

definition null_or_object :: "json \<Rightarrow> bool" where
  "null_or_object v \<longleftrightarrow> (case v of JNull \<Rightarrow> True | JObj _ \<Rightarrow> True | _ \<Rightarrow> False)"

definition json_number :: "json \<Rightarrow> rat option" where
  "json_number v = (case v of JInt i \<Rightarrow> Some (of_int i) | JFloat r \<Rightarrow> Some r | _ \<Rightarrow> None)"

definition null_or_number :: "json \<Rightarrow> bool" where
  "null_or_number v \<longleftrightarrow> v = JNull \<or> json_number v \<noteq> None"

text \<open>An optional property that is missing reads as null, which its schema accepts.\<close>

definition required :: "jobject \<Rightarrow> string list \<Rightarrow> bool" where
  "required kvs ks \<longleftrightarrow> list_all (\<lambda>k. map_of kvs k \<noteq> None) ks"

definition only_keys :: "jobject \<Rightarrow> string list \<Rightarrow> bool" where
  "only_keys kvs ks \<longleftrightarrow> list_all (\<lambda>k. k \<in> set ks) (map fst kvs)"

definition target_event_types :: "string list" where
  "target_event_types =
     [''shipment.picked_up'', ''shipment.in_transit'', ''shipment.out_for_delivery'',
      ''shipment.delivered'', ''shipment.exception'', ''shipment.cancelled'',
      ''invoice.issued'', ''invoice.paid'', ''invoice.voided'', ''invoice.refunded'']"

definition classification_ok :: "json \<Rightarrow> bool" where
  "classification_ok v \<longleftrightarrow> (case v of
       JStr s \<Rightarrow> s \<in> set [''shipment'', ''invoice'', ''unclassified''] | _ \<Rightarrow> False)"

definition vendor_id_ok :: "json \<Rightarrow> bool" where
  "vendor_id_ok v \<longleftrightarrow> (case v of JStr s \<Rightarrow> s \<noteq> [] | _ \<Rightarrow> False)"

definition confidence_ok :: "json \<Rightarrow> bool" where
  "confidence_ok v \<longleftrightarrow> (case json_number v of Some r \<Rightarrow> 0 \<le> r \<and> r \<le> 1 | None \<Rightarrow> False)"

definition event_type_ok :: "json \<Rightarrow> bool" where
  "event_type_ok v \<longleftrightarrow> (case v of
       JNull \<Rightarrow> True | JStr s \<Rightarrow> s \<in> set target_event_types | _ \<Rightarrow> False)"

text \<open>\<open>"type": "integer"\<close> also admits a float without a fractional part.\<close>

definition minor_ok :: "json \<Rightarrow> bool" where
  "minor_ok v \<longleftrightarrow> (case v of
       JInt i \<Rightarrow> 0 \<le> i | JFloat r \<Rightarrow> r = of_int (floor r) \<and> 0 \<le> r | _ \<Rightarrow> False)"

text \<open>
  Three capital letters.  (\<open>$\<close> also matches before a final newline, but the length is then four.)
\<close>

definition currency_ok :: "json \<Rightarrow> bool" where
  "currency_ok v \<longleftrightarrow> (case v of JStr s \<Rightarrow> length s = 3 \<and> list_all is_upper s | _ \<Rightarrow> False)"

definition amount_ok :: "json \<Rightarrow> bool" where
  "amount_ok v \<longleftrightarrow> (case v of
       JNull \<Rightarrow> True
     | JObj a \<Rightarrow> only_keys a [''currency'', ''amount_minor''] \<and>
                 required a [''currency'', ''amount_minor''] \<and>
                 currency_ok (jget a ''currency'') \<and> minor_ok (jget a ''amount_minor'')
     | _ \<Rightarrow> False)"

definition location_ok :: "json \<Rightarrow> bool" where
  "location_ok v \<longleftrightarrow> (case v of
       JNull \<Rightarrow> True
     | JObj l \<Rightarrow> only_keys l [''code'', ''name'', ''latitude'', ''longitude''] \<and>
                 null_or_string (jget l ''code'') \<and> null_or_string (jget l ''name'') \<and>
                 null_or_number (jget l ''latitude'') \<and> null_or_number (jget l ''longitude'')
     | _ \<Rightarrow> False)"

definition target_keys :: "string list" where
  "target_keys =
     [''classification'', ''vendor_id'', ''confidence'', ''entity_external_id'', ''event_type'',
      ''event_timestamp'', ''amount'', ''due_at'', ''reference_ids'', ''linked_references'',
      ''location'', ''raw_milestone'', ''raw_kind'', ''summary'', ''reason'']"

definition target_schema_ok :: "json \<Rightarrow> bool" where
  "target_schema_ok v \<longleftrightarrow> (case v of
       JObj kvs \<Rightarrow>
         only_keys kvs target_keys \<and>
         required kvs [''classification'', ''vendor_id'', ''confidence''] \<and>
         classification_ok (jget kvs ''classification'') \<and>
         vendor_id_ok (jget kvs ''vendor_id'') \<and>
         confidence_ok (jget kvs ''confidence'') \<and>
         event_type_ok (jget kvs ''event_type'') \<and>
         amount_ok (jget kvs ''amount'') \<and>
         location_ok (jget kvs ''location'') \<and>
         list_all (\<lambda>k. null_or_object (jget kvs k)) [''reference_ids'', ''linked_references''] \<and>
         list_all (\<lambda>k. null_or_string (jget kvs k))
           [''entity_external_id'', ''event_timestamp'', ''due_at'', ''raw_milestone'',
            ''raw_kind'', ''summary'', ''reason'']
     | _ \<Rightarrow> False)"

section \<open>Fences do not change a bare answer\<close>

lemma strip_fences_bare: "\<not> startswith (strip s) fence \<Longrightarrow> strip_fences s = strip s"
  by (simp add: strip_fences_def Let_def)

lemma splitlines_plain:
  "list_all (\<lambda>c. \<not> is_line_break c) s \<Longrightarrow>
   splitlines_at acc (s @ CHR 0x0A # t) = (rev acc @ s) # splitlines_at [] t"
proof (induction s arbitrary: acc)
  case (Cons c s)
  moreover have "c \<noteq> CHR 0x0D" using Cons.prems by (auto simp: is_line_break_def)
  ultimately show ?case by simp
qed (simp add: is_line_break_def)

lemma splitlines_last:
  "list_all (\<lambda>c. \<not> is_line_break c) s \<Longrightarrow>
   splitlines_at acc s = (if acc = [] \<and> s = [] then [] else [rev acc @ s])"
proof (induction s arbitrary: acc)
  case (Cons c s)
  moreover have "c \<noteq> CHR 0x0D" using Cons.prems by (auto simp: is_line_break_def)
  ultimately show ?case by simp
qed simp

text \<open>A one-line answer between fences, with or without a language tag, is read as if it were bare.\<close>

lemma fence_line: "list_all (\<lambda>c. \<not> is_line_break c) fence"
  by code_simp

lemma strip_fences_block:
  assumes "list_all (\<lambda>c. \<not> is_line_break c) tag" "list_all (\<lambda>c. \<not> is_line_break c) s"
  shows "strip_fences (fence @ tag @ [CHR 0x0A] @ s @ [CHR 0x0A] @ fence) = strip s"
proof -
  let ?t = "fence @ tag @ [CHR 0x0A] @ s @ [CHR 0x0A] @ fence"
  have sp: "\<not> is_space (CHR 0x60)" by (simp add: is_space_def)
  have ends: "hd ?t = CHR 0x60" "last ?t = CHR 0x60" by (simp_all add: fence_def numeral_eq_Suc)
  have strip: "strip ?t = ?t"
    unfolding strip_def by (rule strip_if_fixed) (use sp ends in auto)
  have starts: "startswith (fence @ u) fence" for u by (simp add: startswith_def)
  have lines: "splitlines ?t = [fence @ tag, s, fence]"
    using splitlines_plain [of "fence @ tag" "[]" "s @ [CHR 0x0A] @ fence"]
      splitlines_plain [of s "[]" fence] splitlines_last [of fence "[]"] assms fence_line
    by (simp add: splitlines_def fence_def numeral_eq_Suc)
  have l: "lstrip (fence @ tag) = fence @ tag" "strip fence = fence"
    using sp by (simp_all add: lstrip_def fence_def strip_def strip_if_def numeral_eq_Suc)
  have "strip_fences ?t = strip (join [CHR 0x0A] [s])"
    unfolding strip_fences_def Let_def strip lines using starts [of tag] starts [of "[]"] starts l
    by (simp add: starts)
  then show ?thesis by simp
qed

section \<open>An answer\<close>

definition sample_answer :: jobject where
  "sample_answer =
     [(''classification'', JStr ''shipment''), (''vendor_id'', JStr ''maersk''), (''confidence'', JFloat (9/10)),
      (''entity_external_id'', JStr ''M1:42''), (''event_type'', JStr ''shipment.in_transit''),
      (''event_timestamp'', JStr ''42''), (''raw_milestone'', JStr ''GTOT''),
      (''reference_ids'', JObj [(''mbl'', JStr ''M1''), (''other'', JStr ''not there'')])]"

lemma sample_answer_ok: "target_schema_ok (JObj sample_answer)"
  by code_simp

end
