(* ===== verification/Hashing.thy ===== *)
theory Hashing
  imports Values "HOL-Library.Multiset" "HOL-Library.List_Lexorder" "HOL-Library.Char_ord" "HOL-Library.Countable"
begin

text \<open>
  \<open>app/hashing.py\<close>: the content address of a webhook and the key of the LLM cache.  The digest and
  the JSON encoder are parameters; \<open>orjson_laws\<close> says what is used of the encoder with sorted
  keys: it tells documents apart up to the order of object keys, and escapes control characters.
\<close>

section \<open>The code\<close>

definition record_sep :: char where
  "record_sep = CHR 0x1F"

definition canonical_json :: "externals \<Rightarrow> json \<Rightarrow> string" where
  "canonical_json X v = x_dumps X v"

text \<open>The bytes the digest is fed with, one \<open>update\<close> after the other.\<close>

fun hash_updates :: "nat \<Rightarrow> string list \<Rightarrow> string" where
  "hash_updates i [] = []"
| "hash_updates i (p # ps) = (if i \<noteq> 0 then [record_sep] else []) @ p @ hash_updates (i + 1) ps"

definition sha256_hex :: "externals \<Rightarrow> string list \<Rightarrow> string" where
  "sha256_hex X parts = x_sha256 X (hash_updates 0 parts)"

text \<open>\<open>if part: parts.append(part)\<close> for an optional string.\<close>

definition opt_part :: "string option \<Rightarrow> string list" where
  "opt_part p = (case p of None \<Rightarrow> [] | Some s \<Rightarrow> if s = [] then [] else [s])"

definition compute_event_id :: "externals \<Rightarrow> json \<Rightarrow> string option \<Rightarrow> string" where
  "compute_event_id X payload vendor_event_id =
     sha256_hex X ([canonical_json X payload] @ opt_part vendor_event_id)"

definition llm_cache_key ::
  "externals \<Rightarrow> string \<Rightarrow> json \<Rightarrow> string \<Rightarrow> string option \<Rightarrow> string" where
  "llm_cache_key X prompt_version payload target_schema_version vendor_scope =
     sha256_hex X ([prompt_version, canonical_json X payload, target_schema_version]
                   @ opt_part vendor_scope)"

section \<open>Documents up to the order of keys\<close>

fun sort_keys :: "json \<Rightarrow> json" where
  "sort_keys (JArr xs) = JArr (map sort_keys xs)"
| "sort_keys (JObj kvs) = JObj (sort_key fst (map (\<lambda>(k, v). (k, sort_keys v)) kvs))"
| "sort_keys v = v"

definition orjson_laws :: "externals \<Rightarrow> bool" where
  "orjson_laws X \<longleftrightarrow>
     (\<forall>v w. x_dumps X v = x_dumps X w \<longleftrightarrow> sort_keys v = sort_keys w) \<and>
     (\<forall>v. record_sep \<notin> set (x_dumps X v))"

lemma sort_key_unique:
  assumes "distinct (map fst a)" "mset a = mset b"
  shows "sort_key fst a = sort_key fst b"
proof (rule properties_for_sort_key)
  show "mset (sort_key fst b) = mset a" using assms(2) by simp
  show "sorted (map fst (sort_key fst b))" by simp
  have "distinct (map fst b)" using assms by (metis mset_map mset_eq_imp_distinct_iff)
  then have one: "filter (\<lambda>x. fst k = fst x) c = [k]"
    if "k \<in> set c" "distinct (map fst c)" for k and c :: "('a \<times> 'b) list"
    using that
  proof (induction c)
    case (Cons x c)
    then have "x \<noteq> k \<Longrightarrow> fst k \<noteq> fst x" by (auto simp: image_iff)
    moreover have "x = k \<Longrightarrow> filter (\<lambda>x. fst k = fst x) c = []"
      using Cons.prems by (auto simp: filter_empty_conv image_iff)
    ultimately show ?case using Cons by (cases "x = k") auto
  qed simp
  fix k
  assume k: "k \<in> set (sort_key fst b)"
  then have "k \<in> set a" "k \<in> set b" using assms(2) by (auto dest: mset_eq_setD)
  then show "filter (\<lambda>x. fst k = fst x) (sort_key fst b) = filter (\<lambda>x. fst k = fst x) a"
    using one [of k a] one [of k b] assms(1) \<open>distinct (map fst b)\<close>
    by (simp add: eq_commute [of "fst k"] sort_key_stable)
qed

section \<open>What the digest is computed from\<close>

lemma hash_updates_later: "i \<noteq> 0 \<Longrightarrow> hash_updates i ps = concat (map (\<lambda>p. record_sep # p) ps)"
  by (induction ps arbitrary: i) auto

lemma hash_updates_first: "hash_updates 0 (p # ps) = p @ concat (map (\<lambda>p. record_sep # p) ps)"
  by (simp add: hash_updates_later)

text \<open>A part without the separator can be read back off the front.\<close>

lemma sep_front:
  assumes "a @ s = b @ t" "c \<notin> set a" "c \<notin> set b"
    and "s = [] \<or> hd s = c" "t = [] \<or> hd t = c"
  shows "a = b \<and> s = t"
proof -
  have tw: "takeWhile (\<lambda>x. x \<noteq> c) (u @ v) = u"
    if "c \<notin> set u" "v = [] \<or> hd v = c" for u v :: "'a list"
  proof -
    have "takeWhile (\<lambda>x. x \<noteq> c) u = u" using that(1) by (auto simp: takeWhile_eq_all_conv)
    moreover have "takeWhile (\<lambda>x. x \<noteq> c) v = []" using that(2) by (cases v) auto
    ultimately show ?thesis using that(1) by (simp add: takeWhile_append)
  qed
  have "a = b" using tw [OF assms(2,4)] tw [OF assms(3,5)] assms(1) by simp
  with assms(1) show ?thesis by simp
qed

lemma opt_tail: "concat (map (\<lambda>p. c # p) (opt_part v)) = [] \<or> hd (concat (map (\<lambda>p. c # p) (opt_part v))) = c"
  by (auto simp: opt_part_def split: option.splits)

lemma opt_tail_inj:
  "concat (map (\<lambda>p. c # p) (opt_part v)) = concat (map (\<lambda>p. c # p) (opt_part w)) \<longleftrightarrow>
     opt_part v = opt_part w"
  by (auto simp: opt_part_def split: option.splits)

definition event_message :: "externals \<Rightarrow> json \<Rightarrow> string option \<Rightarrow> string" where
  "event_message X p v = hash_updates 0 ([canonical_json X p] @ opt_part v)"

definition cache_message :: "externals \<Rightarrow> string \<Rightarrow> json \<Rightarrow> string \<Rightarrow> string option \<Rightarrow> string" where
  "cache_message X pv p sv v = hash_updates 0 ([pv, canonical_json X p, sv] @ opt_part v)"

lemma event_message_eq:
  assumes "orjson_laws X"
  shows "event_message X p v = event_message X q w \<longleftrightarrow>
     sort_keys p = sort_keys q \<and> opt_part v = opt_part w"
proof
  assume "event_message X p v = event_message X q w"
  then have "canonical_json X p @ concat (map (\<lambda>p. record_sep # p) (opt_part v)) =
      canonical_json X q @ concat (map (\<lambda>p. record_sep # p) (opt_part w))"
    by (simp add: event_message_def hash_updates_first del: hash_updates.simps)
  from sep_front [OF this _ _ opt_tail opt_tail] assms
  show "sort_keys p = sort_keys q \<and> opt_part v = opt_part w"
    by (simp add: orjson_laws_def canonical_json_def opt_tail_inj)
qed (use assms in \<open>simp add: event_message_def canonical_json_def orjson_laws_def\<close>)

lemma cache_message_eq:
  assumes "orjson_laws X" "record_sep \<notin> set pv" "record_sep \<notin> set qv"
    "record_sep \<notin> set sv" "record_sep \<notin> set tv"
  shows "cache_message X pv p sv v = cache_message X qv q tv w \<longleftrightarrow>
     pv = qv \<and> sort_keys p = sort_keys q \<and> sv = tv \<and> opt_part v = opt_part w"
proof
  let ?t = "\<lambda>v. concat (map (\<lambda>p. record_sep # p) (opt_part v))"
  assume "cache_message X pv p sv v = cache_message X qv q tv w"
  then have eq: "pv @ record_sep # canonical_json X p @ record_sep # sv @ ?t v =
      qv @ record_sep # canonical_json X q @ record_sep # tv @ ?t w"
    by (simp add: cache_message_def hash_updates_first del: hash_updates.simps)
  from sep_front [OF this assms(2,3)] have one: "pv = qv"
      "canonical_json X p @ record_sep # sv @ ?t v = canonical_json X q @ record_sep # tv @ ?t w"
    by simp_all
  from sep_front [OF one(2)] assms(1) have two: "canonical_json X p = canonical_json X q"
      "sv @ ?t v = tv @ ?t w"
    by (simp_all add: orjson_laws_def canonical_json_def)
  from sep_front [OF two(2) assms(4,5) opt_tail opt_tail] one(1) two(1) assms(1)
  show "pv = qv \<and> sort_keys p = sort_keys q \<and> sv = tv \<and> opt_part v = opt_part w"
    by (simp add: orjson_laws_def canonical_json_def opt_tail_inj)
qed (use assms in \<open>simp add: cache_message_def canonical_json_def orjson_laws_def\<close>)

section \<open>The same document in another key order\<close>

inductive reordered :: "json \<Rightarrow> json \<Rightarrow> bool" where
  same: "reordered v v"
| arr: "list_all2 reordered xs ys \<Longrightarrow> reordered (JArr xs) (JArr ys)"
| obj: "distinct (map fst a) \<Longrightarrow> list_all2 (\<lambda>p q. fst p = fst q \<and> reordered (snd p) (snd q)) a c \<Longrightarrow>
    mset c = mset b \<Longrightarrow> reordered (JObj a) (JObj b)"

lemma reordered_sort_keys: "reordered v w \<Longrightarrow> sort_keys v = sort_keys w"
proof (induction rule: reordered.induct)
  case (arr xs ys)
  then show ?case by (induction rule: list_all2_induct) auto
next
  case (obj a c b)
  let ?s = "map (\<lambda>(k, v). (k, sort_keys v))"
  have "?s a = ?s c" using obj.IH by (induction rule: list_all2_induct) auto
  moreover have "sort_key fst (?s c) = sort_key fst (?s b)"
  proof (rule sort_key_unique)
    have "map fst c = map fst a" using obj.IH by (induction rule: list_all2_induct) auto
    then show "distinct (map fst (?s c))" using obj.hyps(1) by (simp add: comp_def case_prod_beta)
    show "mset (?s c) = mset (?s b)" using obj.hyps(2) by (simp only: mset_map)
  qed
  ultimately show ?case by simp
qed simp

end
