(* ===== verification/Sample_Externals.thy ===== *)
theory Sample_Externals
  imports Hashing
begin

text \<open>
  A concrete instance of the parameters, used by the witnesses only: a prefix code for JSON in
  place of orjson, which satisfies \<open>orjson_laws\<close>, the identity in place of the digest, and a
  timestamp parser that reads a count of seconds.
\<close>

definition enc_str :: "string \<Rightarrow> string" where
  "enc_str s = concat (map (\<lambda>c. nat_str (of_char c) @ '','') s) @ '';''"

definition enc_int :: "int \<Rightarrow> string" where
  "enc_int i = (if i < 0 then ''-'' else ''+'') @ nat_str (nat (abs i)) @ '';''"

fun enc :: "json \<Rightarrow> string" where
  "enc JNull = ''n''"
| "enc (JBool b) = (if b then ''t'' else ''f'')"
| "enc (JInt i) = ''i'' @ enc_int i"
| "enc (JFloat r) = (case quotient_of r of (a, b) \<Rightarrow> ''d'' @ enc_int a @ enc_int b)"
| "enc (JStr s) = ''s'' @ enc_str s"
| "enc (JArr xs) = ''['' @ concat (map enc xs) @ '']''"
| "enc (JObj kvs) = ''{'' @ concat (map (\<lambda>(k, v). ''k'' @ enc_str k @ enc v) kvs) @ ''}''"

lemma nat_str_front:
  assumes "nat_str m @ c # r = nat_str n @ d # s" "\<not> is_digit c" "\<not> is_digit d"
  shows "m = n \<and> c = d \<and> r = s"
proof -
  have tw: "takeWhile is_digit (nat_str k @ e # t) = nat_str k" if "\<not> is_digit e" for k e t
    using that nat_str_digits [of k] by (simp add: list_all_iff takeWhile_append)
  have "nat_str m = nat_str n" using tw [OF assms(2)] tw [OF assms(3)] assms(1) by metis
  then have "m = n" by (metis digits_val_nat_str)
  with assms(1) show ?thesis by simp
qed

lemma nat_str_hd: "hd (nat_str n @ r) \<noteq> CHR '';''"
proof -
  have "is_digit (hd (nat_str n))"
    using nat_str_digits [of n] by (metis hd_in_set list_all_iff)
  then show ?thesis by (auto simp: is_digit_def)
qed

lemma nat_str_not_semicolon: "nat_str n @ x \<noteq> CHR '';'' # y"
  using nat_str_hd [of n x] by (metis list.sel(1))

lemma enc_str_front: "enc_str s @ r = enc_str t @ q \<Longrightarrow> s = t \<and> r = q"
proof (induction s arbitrary: t)
  case Nil
  then show ?case by (cases t) (auto simp: enc_str_def nat_str_not_semicolon [symmetric])
next
  case (Cons c s)
  show ?case
  proof (cases t)
    case Nil
    with Cons.prems show ?thesis by (simp add: enc_str_def nat_str_not_semicolon)
  next
    case (Cons d t')
    from Cons.prems Cons
    have eq: "nat_str (of_char c) @ CHR '','' # (enc_str s @ r) =
        nat_str (of_char d) @ CHR '','' # (enc_str t' @ q)" by (simp add: enc_str_def)
    from nat_str_front [OF this] have "(of_char c :: nat) = of_char d" "enc_str s @ r = enc_str t' @ q"
      by (simp_all add: is_digit_def)
    with Cons.IH Cons show ?thesis by (metis char_of_char)
  qed
qed

lemma enc_int_front: "enc_int i @ r = enc_int j @ q \<Longrightarrow> i = j \<and> r = q"
proof -
  assume eq: "enc_int i @ r = enc_int j @ q"
  then have "(i < 0) = (j < 0)" by (auto simp: enc_int_def split: if_splits)
  with eq have "nat_str (nat (abs i)) @ CHR '';'' # r = nat_str (nat (abs j)) @ CHR '';'' # q"
    by (auto simp: enc_int_def split: if_splits)
  from nat_str_front [OF this] \<open>(i < 0) = (j < 0)\<close> show ?thesis by (auto simp: is_digit_def)
qed

lemma enc_hd: "enc v \<noteq> []" "hd (enc v) \<noteq> CHR '']''"
  by (cases v; auto split: prod.splits)+

fun tag :: "json \<Rightarrow> char" where
  "tag JNull = CHR ''n''"
| "tag (JBool b) = (if b then CHR ''t'' else CHR ''f'')"
| "tag (JInt i) = CHR ''i''"
| "tag (JFloat r) = CHR ''d''"
| "tag (JStr s) = CHR ''s''"
| "tag (JArr xs) = CHR ''[''"
| "tag (JObj kvs) = CHR ''{''"

lemma enc_tag: "hd (enc v) = tag v"
  by (cases v) (auto split: prod.splits)

lemma enc_same_tag: "enc v @ r = enc w @ q \<Longrightarrow> tag v = tag w"
  using enc_hd(1) [of v] enc_hd(1) [of w] by (metis enc_tag hd_append2)

lemma enc_list_front:
  assumes "\<And>x y r q. x \<in> set xs \<Longrightarrow> enc x @ r = enc y @ q \<Longrightarrow> x = y \<and> r = q"
  shows "concat (map enc xs) @ CHR '']'' # r = concat (map enc ys) @ CHR '']'' # q \<Longrightarrow>
     xs = ys \<and> r = q"
  using assms
proof (induction xs arbitrary: ys)
  case Nil
  show ?case
  proof (cases ys)
    case (Cons y ys')
    with Nil.prems(1) have "hd (enc y @ (concat (map enc ys') @ CHR '']'' # q)) = CHR '']''"
      by (metis append.assoc append_Nil concat.simps(2) list.map(1) list.map(2) list.sel(1) concat.simps(1))
    with enc_hd [of y] show ?thesis by simp
  qed (use Nil in simp)
next
  case (Cons x xs)
  show ?case
  proof (cases ys)
    case Nil
    with Cons.prems(1) have "hd (enc x @ (concat (map enc xs) @ CHR '']'' # r)) = CHR '']''" by simp
    with enc_hd [of x] show ?thesis by simp
  next
    case (Cons y ys')
    with Cons.prems(1) have eq: "enc x @ (concat (map enc xs) @ CHR '']'' # r) =
        enc y @ (concat (map enc ys') @ CHR '']'' # q)" by simp
    have first: "x = y \<and> concat (map enc xs) @ CHR '']'' # r = concat (map enc ys') @ CHR '']'' # q"
      by (rule Cons.prems(2) [OF _ eq]) simp
    have "xs = ys' \<and> r = q"
      by (rule Cons.IH) (use first Cons.prems(2) in auto)
    with first Cons show ?thesis by simp
  qed
qed

lemma enc_items_front:
  assumes "\<And>k x y r q. (k, x) \<in> set a \<Longrightarrow> enc x @ r = enc y @ q \<Longrightarrow> x = y \<and> r = q"
  shows "concat (map (\<lambda>(k, v). ''k'' @ enc_str k @ enc v) a) @ CHR ''}'' # r =
     concat (map (\<lambda>(k, v). ''k'' @ enc_str k @ enc v) b) @ CHR ''}'' # q \<Longrightarrow> a = b \<and> r = q"
  using assms
proof (induction a arbitrary: b)
  case Nil
  then show ?case by (cases b) auto
next
  case (Cons x a)
  obtain k v where x: "x = (k, v)" by (cases x)
  show ?case
  proof (cases b)
    case Nil
    with Cons.prems(1) x show ?thesis by simp
  next
    case (Cons y b')
    obtain l u where y: "y = (l, u)" by (cases y)
    let ?c = "\<lambda>kvs. concat (map (\<lambda>(k, v). ''k'' @ enc_str k @ enc v) kvs)"
    from Cons Cons.prems(1) x y have "enc_str k @ (enc v @ ?c a @ CHR ''}'' # r) =
        enc_str l @ (enc u @ ?c b' @ CHR ''}'' # q)" by simp
    from enc_str_front [OF this] have kl: "k = l"
        "enc v @ (?c a @ CHR ''}'' # r) = enc u @ (?c b' @ CHR ''}'' # q)" by auto
    have first: "v = u \<and> ?c a @ CHR ''}'' # r = ?c b' @ CHR ''}'' # q"
      by (rule Cons.prems(2) [of k, OF _ kl(2)]) (simp add: x)
    have "a = b' \<and> r = q"
    proof (rule Cons.IH [OF conjunct2 [OF first]])
      show "x' = y' \<and> r' = q'" if "(k', x') \<in> set a" "enc x' @ r' = enc y' @ q'" for k' x' y' r' q'
        using Cons.prems(2) [of k' x', OF _ that(2)] that(1) by simp
    qed
    with first kl(1) Cons x y show ?thesis by simp
  qed
qed

lemma enc_front: "enc v @ r = enc w @ q \<Longrightarrow> v = w \<and> r = q"
proof (induction v arbitrary: w r q)
  case (JFloat x)
  obtain y where w: "w = JFloat y"
    using enc_same_tag [OF JFloat.prems] by (cases w) (auto split: if_splits)
  obtain a b where ab: "quotient_of x = (a, b)" by (cases "quotient_of x")
  obtain c d where cd: "quotient_of y = (c, d)" by (cases "quotient_of y")
  from JFloat w ab cd have eq: "enc_int a @ (enc_int b @ r) = enc_int c @ (enc_int d @ q)" by simp
  from enc_int_front [OF this] enc_int_front [of b r d q] have "a = c" "b = d" "r = q" by auto
  with ab cd have "x = y" by (metis quotient_of_inject)
  with w \<open>r = q\<close> show ?case by simp
next
  case (JArr xs)
  obtain ys where "w = JArr ys"
    using enc_same_tag [OF JArr.prems] by (cases w) (auto split: if_splits)
  with JArr enc_list_front [of xs r ys q] show ?case by simp
next
  case (JObj kvs)
  obtain lws where w: "w = JObj lws"
    using enc_same_tag [OF JObj.prems] by (cases w) (auto split: if_splits)
  have "kvs = lws \<and> r = q"
  proof (rule enc_items_front)
    show "concat (map (\<lambda>(k, v). ''k'' @ enc_str k @ enc v) kvs) @ CHR ''}'' # r =
        concat (map (\<lambda>(k, v). ''k'' @ enc_str k @ enc v) lws) @ CHR ''}'' # q"
      using JObj.prems w by simp
  next
    show "x = y \<and> r = q" if "(k, x) \<in> set kvs" "enc x @ r = enc y @ q" for k x y r q
      using JObj.IH [OF that(1) _ that(2)] by simp
  qed
  with w show ?case by simp
next
  case (JBool b)
  then show ?case using enc_same_tag [OF JBool.prems] by (cases w) (auto split: if_splits)
next
  case (JInt i)
  obtain j where "w = JInt j"
    using enc_same_tag [OF JInt.prems] by (cases w) (auto split: if_splits)
  with JInt show ?case by (auto dest: enc_int_front)
next
  case (JStr s)
  obtain t where "w = JStr t"
    using enc_same_tag [OF JStr.prems] by (cases w) (auto split: if_splits)
  with JStr show ?case by (auto dest: enc_str_front)
next
  case JNull
  then show ?case using enc_same_tag [OF JNull.prems] by (cases w) (auto split: if_splits)
qed

lemma enc_inj: "enc v = enc w \<longleftrightarrow> v = w"
  using enc_front [of v "[]" w "[]"] by auto

lemma sep_not_printed:
  "record_sep \<notin> set (nat_str n)" "record_sep \<notin> set (enc_str s)" "record_sep \<notin> set (enc_int i)"
proof -
  show nat: "record_sep \<notin> set (nat_str n)" for n
    using nat_str_digits [of n] by (auto simp: list_all_iff record_sep_def is_digit_def)
  then show "record_sep \<notin> set (enc_str s)" "record_sep \<notin> set (enc_int i)"
    by (auto simp: enc_str_def enc_int_def record_sep_def)
qed

lemma sep_not_in_enc: "record_sep \<notin> set (enc v)"
proof (induction v)
  case (JObj kvs)
  then show ?case using sep_not_printed by (fastforce simp: record_sep_def)
qed (use sep_not_printed in \<open>auto simp: record_sep_def split: prod.splits\<close>)

definition sample_X :: externals where
  "sample_X =
     \<lparr>x_float_repr = (\<lambda>r. case quotient_of r of (a, b) \<Rightarrow> int_str a @ ''/'' @ int_str b),
      x_float_of = (\<lambda>s. map_option of_int (py_int s)),
      x_dt_parse = (\<lambda>raw tzinfos dayfirst. case py_int raw of
         None \<Rightarrow> Inl ValueError
       | Some n \<Rightarrow> Inr \<lparr>dt_wall = 1000000 * n, dt_off = None\<rparr>),
      x_dumps = (\<lambda>v. enc (sort_keys v)),
      x_loads = (\<lambda>s. map_option JInt (py_int s)),
      x_sha256 = (\<lambda>s. s),
      x_hmac = (\<lambda>key msg. key @ msg),
      x_exn_text = (\<lambda>e. ''error'')\<rparr>"

lemma sample_X_orjson: "orjson_laws sample_X"
  by (simp add: orjson_laws_def sample_X_def enc_inj sep_not_in_enc)

section \<open>Content addresses\<close>

text \<open>C38: the id of a webhook is its content address.  With an encoder that satisfies
  \<open>orjson_laws\<close>, two deliveries get the same id exactly when their documents are equal up to the
  order of object keys and they carry the same vendor event id (an empty one counts as none),
  unless the digest collides on the two different byte strings.\<close>

theorem event_id_is_content_address:
  assumes "orjson_laws X"
  shows "compute_event_id X p v = compute_event_id X q w \<longleftrightarrow>
     sort_keys p = sort_keys q \<and> opt_part v = opt_part w \<or>
     event_message X p v \<noteq> event_message X q w \<and>
       x_sha256 X (event_message X p v) = x_sha256 X (event_message X q w)"
  using event_message_eq [OF assms, of p v q w]
  by (auto simp: compute_event_id_def sha256_hex_def event_message_def)

lemma event_id_is_content_address_witness:
  "compute_event_id sample_X (JObj [(''a'', JInt 1), (''b'', JNull)]) (Some []) =
   compute_event_id sample_X (JObj [(''b'', JNull), (''a'', JInt 1)]) None"
  unfolding event_id_is_content_address [OF sample_X_orjson]
  by (rule disjI1) code_simp

text \<open>Redelivery of the same document with its object keys in another order, at any depth, is
  the same event.\<close>

lemma event_id_ignores_key_order:
  assumes "orjson_laws X" "reordered p q"
  shows "compute_event_id X p v = compute_event_id X q v"
proof -
  have "x_dumps X p = x_dumps X q"
    using reordered_sort_keys [OF assms(2)] assms(1) unfolding orjson_laws_def by blast
  then show ?thesis by (simp add: compute_event_id_def canonical_json_def)
qed

lemma event_id_ignores_key_order_witness:
  "compute_event_id sample_X (JArr [JObj [(''a'', JInt 1), (''b'', JNull)]]) None =
   compute_event_id sample_X (JArr [JObj [(''b'', JNull), (''a'', JInt 1)]]) None"
  by (rule event_id_ignores_key_order [OF sample_X_orjson])
    (auto intro!: reordered.intros)

text \<open>The cache of the LLM never answers for another question.  Two cache keys are equal exactly
  when prompt version, document, schema version and scope all agree, unless the digest collides;
  it is enough that the two versions contain no separator byte.\<close>

lemma cache_key_separates_questions:
  assumes "orjson_laws X" "record_sep \<notin> set pv" "record_sep \<notin> set qv"
    "record_sep \<notin> set sv" "record_sep \<notin> set tv"
  shows "llm_cache_key X pv p sv v = llm_cache_key X qv q tv w \<longleftrightarrow>
     pv = qv \<and> sort_keys p = sort_keys q \<and> sv = tv \<and> opt_part v = opt_part w \<or>
     cache_message X pv p sv v \<noteq> cache_message X qv q tv w \<and>
       x_sha256 X (cache_message X pv p sv v) = x_sha256 X (cache_message X qv q tv w)"
  using cache_message_eq [OF assms, of p v q w]
  by (auto simp: llm_cache_key_def sha256_hex_def cache_message_def)

lemma cache_key_separates_questions_witness:
  "llm_cache_key sample_X ''v1'' JNull ''v1'' (Some ''maersk'') \<noteq>
   llm_cache_key sample_X ''v1'' JNull ''v1'' None"
proof -
  have "cache_message sample_X ''v1'' JNull ''v1'' (Some ''maersk'') \<noteq>
      cache_message sample_X ''v1'' JNull ''v1'' None" by code_simp
  then show ?thesis
    by (subst cache_key_separates_questions [OF sample_X_orjson])
      (simp_all add: record_sep_def opt_part_def sample_X_def)
qed

end
