(* ===== verification/Parsers.thy ===== *)
theory Parsers
  imports Canonical Sample_Externals
begin

text \<open>
  \<open>app/adapters/parsers.py\<close>: timestamps through dateutil (a parameter) and money strings.  The
  regular expressions and slices of \<open>parse_money\<close> are written out; a word character is an ASCII
  letter, digit or underscore.
\<close>

section \<open>Timestamps\<close>

definition TZ_ALIASES :: "(string \<times> int) list" where
  "TZ_ALIASES =
     [(''WIB'', 7 * 3600), (''WITA'', 8 * 3600), (''WIT'', 9 * 3600), (''JST'', 9 * 3600),
      (''KST'', 9 * 3600), (''HKT'', 8 * 3600), (''SGT'', 8 * 3600), (''IST'', 5 * 3600 + 1800),
      (''CET'', 1 * 3600), (''CEST'', 2 * 3600), (''EST'', - 5 * 3600), (''EDT'', - 4 * 3600),
      (''PST'', - 8 * 3600), (''PDT'', - 7 * 3600)]"

definition parse_timestamp :: "externals \<Rightarrow> json \<Rightarrow> datetime result" where
  "parse_timestamp X value = (case value of
       JStr s \<Rightarrow>
         if strip s = [] then Inl ValueError
         else
           let raw = strip s;
               first = x_dt_parse X raw TZ_ALIASES False in
           bindE (case first of
                    Inr dt \<Rightarrow> Inr dt
                  | Inl e \<Rightarrow> if is_value_error e \<or> e = OverflowError
                            then x_dt_parse X raw TZ_ALIASES True else Inl e)
             (\<lambda>dt. astimezone_utc (if dt_off dt = None then replace_utc dt else dt))
     | _ \<Rightarrow> Inl ValueError)"

section \<open>Money\<close>

definition is_word :: "char \<Rightarrow> bool" where
  "is_word c \<longleftrightarrow> is_digit c \<or> c = CHR ''_'' \<or>
     (let n = of_char c :: nat in 65 \<le> n \<and> n \<le> 90 \<or> 97 \<le> n \<and> n \<le> 122)"

text \<open>
  The first match of \<open>\b([A-Z]{3})\b\<close> in what is left of the text, \<open>prev\<close> telling whether the
  character before it is a word character.
\<close>

fun find_code :: "bool \<Rightarrow> string \<Rightarrow> string option" where
  "find_code prev (a # b # c # s) =
     (if \<not> prev \<and> is_upper a \<and> is_upper b \<and> is_upper c \<and> (s = [] \<or> \<not> is_word (hd s))
      then Some [a, b, c]
      else find_code (is_word a) (b # c # s))"
| "find_code prev s = None"

text \<open>\<open>s.rfind(c)\<close>.\<close>

fun rfind :: "char \<Rightarrow> string \<Rightarrow> int" where
  "rfind c [] = - 1"
| "rfind c (x # xs) =
     (let i = rfind c xs in if i \<ge> 0 then i + 1 else if x = c then 0 else - 1)"

definition money_char :: "char \<Rightarrow> bool" where
  "money_char c \<longleftrightarrow> is_digit c \<or> c = CHR ''.'' \<or> c = CHR '','' \<or> c = CHR ''-''"

definition without :: "char \<Rightarrow> string \<Rightarrow> string" where
  "without c s = filter (\<lambda>x. x \<noteq> c) s"

text \<open>\<open>int(s)\<close>, which since Python 3.11 refuses texts of more than 4300 digits, and
  \<open>s.ljust(2, "0")[:2]\<close>.\<close>

definition max_str_digits :: nat where
  "max_str_digits = 4300"

definition digit_count :: "string \<Rightarrow> nat" where
  "digit_count s = length (filter is_digit s)"

definition int_of :: "string \<Rightarrow> int result" where
  "int_of s = (if max_str_digits < digit_count s then Inl ValueError
     else case py_int s of None \<Rightarrow> Inl ValueError | Some n \<Rightarrow> Inr n)"

definition two_digits :: "string \<Rightarrow> string" where
  "two_digits s = take 2 (s @ replicate (2 - length s) CHR ''0'')"

definition money_currency :: "string \<Rightarrow> string \<times> string" where
  "money_currency s = (case find_code False s of
       Some code \<Rightarrow> (code, replace_all code [] s)
     | None \<Rightarrow>
         if startswith s ''$'' then (''USD'', s)
         else if startswith s [CHR 0xE2, CHR 0x82, CHR 0xAC] then (''EUR'', s)
         else if startswith s [CHR 0xC2, CHR 0xA3] then (''GBP'', s)
         else (''USD'', s))"

text \<open>The amount when the last separator is at a known place: a fraction of one or two digits is
  decimal, any other makes the separator a thousands separator.\<close>

definition money_split :: "string \<Rightarrow> char \<Rightarrow> string \<Rightarrow> string \<Rightarrow> int result" where
  "money_split digits decimal_sep integer_part fractional =
     (if length fractional \<notin> {1, 2} then
        let joined = without (CHR ''.'') (without (CHR '','') digits) in
        if joined \<noteq> [] \<and> list_all is_digit joined
        then bindE (int_of joined) (\<lambda>n. Inr (n * 100))
        else Inl ValueError
      else
        let other = (if decimal_sep = CHR ''.'' then CHR '','' else CHR ''.'');
            whole = without decimal_sep (without other integer_part) in
        bindE (if whole \<noteq> [] then int_of whole else Inr 0) (\<lambda>major.
        bindE (int_of (two_digits fractional)) (\<lambda>minor.
        Inr (major * 100 + minor))))"

definition money_minor :: "string \<Rightarrow> int result" where
  "money_minor digits =
     (let decimal_pos = max (rfind (CHR ''.'') digits) (rfind (CHR '','') digits) in
      if decimal_pos = - 1
      then bindE (int_of digits) (\<lambda>major. Inr (major * 100))
      else money_split digits (digits ! nat decimal_pos) (take (nat decimal_pos) digits)
             (drop (nat decimal_pos + 1) digits))"

definition parse_money :: "json \<Rightarrow> (string \<times> int) result" where
  "parse_money value = (case value of
       JStr v \<Rightarrow>
         if strip v = [] then Inl ValueError
         else
           let (currency, s) = money_currency (strip v);
               digits = filter money_char s in
           if digits = [] then Inl ValueError
           else bindE (money_minor digits) (\<lambda>amount. Inr (currency, amount))
     | _ \<Rightarrow> Inl ValueError)"

section \<open>Timestamps are in UTC\<close>

lemma parse_timestamp_utc: "parse_timestamp X v = Inr t \<Longrightarrow> is_utc t \<and> dt_valid t"
  by (auto simp: parse_timestamp_def Let_def bindE_eq_Inr dest!: astimezone_utc_instant
      split: json.splits if_splits)

text \<open>Every timestamp \<open>parse_timestamp\<close> returns is in UTC and within the years 1 to 9999; it
  denotes the instant dateutil read, taken as UTC when the text named no zone, from the month-first
  reading, or from the day-first reading when the month-first one failed.\<close>

lemma parse_timestamp_in_utc:
  assumes "parse_timestamp X (JStr s) = Inr t"
  shows "is_utc t \<and> dt_valid t \<and>
     (\<exists>raw. dt_instant t = dt_instant raw \<and>
        (x_dt_parse X (strip s) TZ_ALIASES False = Inr raw \<or>
         (\<exists>e. x_dt_parse X (strip s) TZ_ALIASES False = Inl e) \<and>
         x_dt_parse X (strip s) TZ_ALIASES True = Inr raw))"
proof -
  have shift: "dt_instant (if dt_off d = None then replace_utc d else d) = dt_instant d" for d
    by (simp add: dt_instant_def replace_utc_def)
  let ?m = "x_dt_parse X (strip s) TZ_ALIASES"
  from assms obtain raw where "?m False = Inr raw \<or> (\<exists>e. ?m False = Inl e) \<and> ?m True = Inr raw"
      "astimezone_utc (if dt_off raw = None then replace_utc raw else raw) = Inr t"
    by (auto simp: parse_timestamp_def Let_def bindE_eq_Inr split: if_splits sum.splits)
  with astimezone_utc_instant [OF this(2)] shift [of raw] show ?thesis by auto
qed

lemma parse_timestamp_in_utc_witness:
  "is_utc \<lparr>dt_wall = 42000000, dt_off = Some 0\<rparr>"
proof -
  have "parse_timestamp sample_X (JStr '' 42 '') = Inr \<lparr>dt_wall = 42000000, dt_off = Some 0\<rparr>"
    by code_simp
  from parse_timestamp_in_utc [OF this] show ?thesis by simp
qed

section \<open>Money strings\<close>

text \<open>\<open>parse_money\<close> fails with \<open>ValueError\<close> only, on every input; the pipeline's handlers rely on
  it.\<close>

lemma parse_money_raises_only_value_error:
  assumes "parse_money v = Inl e"
  shows "e = ValueError"
proof -
  have int_of: "int_of s = Inl e \<Longrightarrow> e = ValueError" for s
    by (simp add: int_of_def split: option.splits if_splits)
  have split: "money_split d c i f = Inl e \<Longrightarrow> e = ValueError" for d c i f
    unfolding money_split_def Let_def
    by (auto simp: bindE_eq_Inl split: if_splits dest: int_of)
  have "money_minor d = Inl e \<Longrightarrow> e = ValueError" for d
    unfolding money_minor_def Let_def
    by (auto simp: bindE_eq_Inl split: if_splits dest: int_of split)
  with assms show ?thesis
    by (auto simp: parse_money_def Let_def bindE_eq_Inl split: json.splits if_splits prod.splits)
qed

lemma parse_money_raises_only_value_error_witness:
  "is_value_error (case parse_money (JStr ''EUR'') of Inl e \<Rightarrow> e | Inr _ \<Rightarrow> KeyError)"
proof -
  have "\<not> is_ok (parse_money (JStr ''EUR''))" by code_simp
  then obtain e where e: "parse_money (JStr ''EUR'') = Inl e" by (auto simp: is_ok_def split: sum.splits)
  with parse_money_raises_only_value_error [OF e] show ?thesis by simp
qed

section \<open>Formatted amounts\<close>

text \<open>An amount in minor units written with a currency code, groups of three digits and two
  decimals, in the US or the European convention.\<close>

fun grouped :: "char \<Rightarrow> nat \<Rightarrow> string" where
  "grouped sep n =
     (if n < 1000 then nat_str n
      else grouped sep (n div 1000) @ [sep, digit_char (n div 100 mod 10),
             digit_char (n div 10 mod 10), digit_char (n mod 10)])"

declare grouped.simps [simp del]

definition cents :: "nat \<Rightarrow> string" where
  "cents n = [digit_char (n div 10 mod 10), digit_char (n mod 10)]"

definition format_money :: "char \<Rightarrow> char \<Rightarrow> string \<Rightarrow> nat \<Rightarrow> string" where
  "format_money sep dec cur n = cur @ '' '' @ grouped sep (n div 100) @ [dec] @ cents n"

lemma digits_val_append_digit:
  "d < 10 \<Longrightarrow> digits_val (s @ [digit_char d]) = 10 * digits_val s + d"
  by (simp add: digits_val_snoc)

lemma without_plain: "list_all is_digit s \<Longrightarrow> \<not> is_digit c \<Longrightarrow> without c s = s"
  by (auto simp: without_def list_all_iff intro!: filter_True)

lemma without_append: "without c (s @ t) = without c s @ without c t"
  by (simp add: without_def)

lemma digit_char_list: "list_all is_digit (map digit_char ds)" if "\<forall>d \<in> set ds. d < 10"
  using that by (simp add: list_all_iff)

lemma grouped_without:
  assumes "\<not> is_digit sep"
  shows "list_all is_digit (without sep (grouped sep n)) \<and> without sep (grouped sep n) \<noteq> [] \<and>
     digits_val (without sep (grouped sep n)) = n"
proof (induction n rule: less_induct)
  case (less n)
  show ?case
  proof (cases "n < 1000")
    case True
    then show ?thesis
      using nat_str_digits [of n] without_plain [OF _ assms] by (subst (1 2 3) grouped.simps) simp
  next
    case False
    let ?w = "without sep (grouped sep (n div 1000))"
    let ?t = "[digit_char (n div 100 mod 10), digit_char (n div 10 mod 10), digit_char (n mod 10)]"
    have "without sep (grouped sep n) = ?w @ without sep ?t"
      using False by (subst grouped.simps) (simp add: without_append without_def)
    also have "without sep ?t = ?t"
      by (rule without_plain [OF _ assms]) simp
    finally have g: "without sep (grouped sep n) = ?w @ ?t" .
    have "digits_val (?w @ ?t) = n"
    proof -
      have "digits_val (?w @ ?t) =
          10 * (10 * (10 * digits_val ?w + n div 100 mod 10) + n div 10 mod 10) + n mod 10"
        using digits_val_append_digit [of "n mod 10" "?w @ [digit_char (n div 100 mod 10), digit_char (n div 10 mod 10)]"]
          digits_val_append_digit [of "n div 10 mod 10" "?w @ [digit_char (n div 100 mod 10)]"]
          digits_val_append_digit [of "n div 100 mod 10" ?w]
        by simp
      also have "digits_val ?w = n div 1000" using less False by simp
      moreover have "10 * (n div 1000) + n div 100 mod 10 = n div 100"
        using mult_div_mod_eq [of 10 "n div 100"] by (simp add: div_mult2_eq [symmetric])
      moreover have "10 * (n div 100) + n div 10 mod 10 = n div 10"
        using mult_div_mod_eq [of 10 "n div 10"] by (simp add: div_mult2_eq [symmetric])
      ultimately show ?thesis by (simp only: mult_div_mod_eq)
    qed
    with g less False show ?thesis by simp
  qed
qed

lemma grouped_chars: "set (grouped sep n) \<subseteq> {c. is_digit c} \<union> {sep}"
proof (induction n rule: less_induct)
  case (less n)
  show ?case
  proof (cases "n < 1000")
    case True
    then show ?thesis using nat_str_digits [of n] by (subst grouped.simps) (auto simp: list_all_iff)
  next
    case False
    with less [of "n div 1000"] show ?thesis by (subst grouped.simps) auto
  qed
qed

lemma cents_props:
  "length (cents n) = 2" "list_all is_digit (cents n)" "digits_val (cents n) = n mod 100"
  "two_digits (cents n) = cents n"
proof -
  have "digits_val (cents n) = 10 * (n div 10 mod 10) + n mod 10"
    using digits_val_append_digit [of "n mod 10" "[digit_char (n div 10 mod 10)]"]
      digits_val_append_digit [of "n div 10 mod 10" "[]"] by (simp add: cents_def)
  also have "\<dots> = n mod 100" using mod_mult2_eq [of n 10 10] by simp
  finally show "digits_val (cents n) = n mod 100" .
qed (simp_all add: cents_def two_digits_def)

lemma replace_all_absent: "hd old \<notin> set s \<Longrightarrow> replace_all old new s = s"
  by (induction old new s rule: replace_all.induct)
    (auto simp: startswith_def split: list.splits, (metis list.sel(1) take_Cons')+)

lemma rfind_bounds: "- 1 \<le> rfind c s" "rfind c s < int (length s)"
  by (induction s) (auto simp: Let_def)

lemma rfind_absent: "c \<notin> set s \<Longrightarrow> rfind c s = - 1"
  by (induction s) (auto simp: Let_def)

lemma rfind_append: "rfind c (s @ t) =
    (if rfind c t \<ge> 0 then int (length s) + rfind c t else rfind c s)"
  by (induction s) (use rfind_bounds(1) [of c t] in \<open>auto simp: Let_def\<close>)

lemma int_of_digits:
  "list_all is_digit s \<Longrightarrow> s \<noteq> [] \<Longrightarrow> digit_count s \<le> max_str_digits \<Longrightarrow> int_of s = Inr (int (digits_val s))"
  by (simp add: int_of_def py_int_digits)

lemma int_of_cents: "int_of (cents n) = Inr (int (n mod 100))"
proof -
  have "digit_count (cents n) \<le> 2"
    using length_filter_le [of is_digit "cents n"] cents_props(1) [of n] by (simp add: digit_count_def)
  then have "digit_count (cents n) \<le> max_str_digits" by (simp add: max_str_digits_def)
  with int_of_digits [OF cents_props(2), of n] cents_props(3) [of n] show ?thesis by (simp add: cents_def)
qed

lemma without_digit_count: "\<not> is_digit sep \<Longrightarrow> digit_count (without sep s) = digit_count s"
  unfolding digit_count_def without_def filter_filter by (rule arg_cong [where f = length], rule filter_cong) auto

lemma not_digit_chars: "\<not> is_digit (CHR ''.'')" "\<not> is_digit (CHR '','')" "\<not> is_digit (CHR '' '')"
    "\<not> is_digit (CHR ''-'')"
  by (simp_all add: is_digit_def)

lemma upper_props: "is_upper c \<Longrightarrow> \<not> is_digit c \<and> \<not> is_space c \<and> c \<noteq> CHR ''.'' \<and> c \<noteq> CHR '',''"
  by (auto simp: is_upper_def is_digit_def is_space_def Let_def)

lemma money_minor_at:
  assumes "max (rfind (CHR ''.'') (i @ [c] @ f)) (rfind (CHR '','') (i @ [c] @ f)) = int (length i)"
  shows "money_minor (i @ [c] @ f) = money_split (i @ [c] @ f) c i f"
  unfolding money_minor_def assms Let_def by simp

lemma money_minor_grouped:
  assumes "(sep, dec) \<in> {(CHR '','', CHR ''.''), (CHR ''.'', CHR '','')}"
    and "digit_count (grouped sep (n div 100)) \<le> max_str_digits"
  shows "money_minor (grouped sep (n div 100) @ [dec] @ cents n) = Inr (int n)"
proof -
  let ?g = "grouped sep (n div 100)"
  let ?d = "?g @ [dec] @ cents n"
  have nd: "\<not> is_digit sep" "\<not> is_digit dec" "sep \<noteq> dec" using assms(1) not_digit_chars by auto
  have absent: "rfind c (cents n) = - 1" if "\<not> is_digit c" for c
    using cents_props(2) [of n] that by (intro rfind_absent) (auto simp: list_all_iff)
  have rd: "rfind dec ?d = int (length ?g)"
    using absent [OF nd(2)] by (simp only: rfind_append) simp
  have rs: "rfind sep ?d < int (length ?g)"
    using absent [OF nd(1)] nd(3) rfind_bounds(2) [of sep ?g] by (simp only: rfind_append) simp
  have pos: "max (rfind (CHR ''.'') ?d) (rfind (CHR '','') ?d) = int (length ?g)"
    using rd rs assms(1) by auto
  have w: "without dec (without sep ?g) = without sep ?g"
    by (rule without_plain) (use grouped_without [OF nd(1)] nd(2) in auto)
  have other: "(if dec = CHR ''.'' then CHR '','' else CHR ''.'') = sep" using assms(1) by auto
  have "int_of (without sep ?g) = Inr (int (n div 100))"
    using grouped_without [OF nd(1), of "n div 100"] assms(2)
    by (simp add: int_of_digits without_digit_count [OF nd(1)])
  moreover note int_of_cents [of n]
  moreover have "int (n div 100) * 100 + int (n mod 100) = int n"
    by (metis of_nat_add of_nat_mult of_nat_numeral div_mult_mod_eq)
  ultimately have "money_split ?d dec ?g (cents n) = Inr (int n)"
    using grouped_without [OF nd(1), of "n div 100"]
    by (simp add: money_split_def cents_props Let_def other w)
  then show ?thesis unfolding money_minor_at [OF pos] .
qed

text \<open>C40: amounts survive printing and parsing.  For every currency code and every amount in minor
  units whose integer part has at most 4300 digits, the text with a code, groups of three digits and two decimals parses back to exactly that
  code and amount, in the US convention (1,234.56) and in the European one (1.234,56); the last
  separator decides, with no hint about the convention.\<close>

theorem parse_money_reads_formatted_amounts:
  assumes "(sep, dec) \<in> {(CHR '','', CHR ''.''), (CHR ''.'', CHR '','')}"
    and "is_upper a" "is_upper b" "is_upper c" "digit_count (grouped sep (n div 100)) \<le> max_str_digits"
  shows "parse_money (JStr (format_money sep dec [a, b, c] n)) = Inr ([a, b, c], int n)"
proof -
  let ?body = "grouped sep (n div 100) @ [dec] @ cents n"
  let ?s = "[a, b, c] @ '' '' @ ?body"
  have nd: "\<not> is_digit sep" "\<not> is_digit dec" using assms(1) not_digit_chars by auto
  have body: "set ?body \<subseteq> {x. is_digit x} \<union> {CHR ''.'', CHR '',''}"
    using grouped_chars [of sep "n div 100"] cents_props(2) [of n] assms(1)
    by (auto simp: list_all_iff)
  have "last ?s = digit_char (n mod 10)" by (simp add: cents_def)
  then have "\<not> is_space (last ?s)" using digit_not_space by simp
  then have strip: "strip ?s = ?s"
    unfolding strip_def by (intro strip_if_fixed) (use upper_props [OF assms(2)] in simp)
  have "find_code False ?s = Some [a, b, c]"
    using assms(2-4) by (simp add: is_word_def is_digit_def)
  moreover have "replace_all [a, b, c] [] ?s = CHR '' '' # ?body"
  proof -
    have "replace_all [a, b, c] [] (CHR '' '' # ?body) = CHR '' '' # ?body"
      by (rule replace_all_absent) (use body upper_props [OF assms(2)] in \<open>auto simp: is_space_def\<close>)
    then show ?thesis by (simp add: startswith_def)
  qed
  ultimately have code: "money_currency ?s = ([a, b, c], CHR '' '' # ?body)"
    by (simp add: money_currency_def)
  have "filter money_char ?body = ?body"
    by (rule filter_True) (use body in \<open>auto simp: money_char_def\<close>)
  then have digits: "filter money_char (CHR '' '' # ?body) = ?body"
    by (simp add: money_char_def is_digit_def)
  have ne: "?s \<noteq> []" "?body \<noteq> []" by simp_all
  show ?thesis
    unfolding parse_money_def format_money_def json.case strip code Let_def prod.case digits
      money_minor_grouped [OF assms(1,5)]
    by (simp only: ne if_False bindE_Inr)
qed

lemma digit_chars:
  "digit_char 0 = CHR ''0''" "digit_char 2 = CHR ''2''" "digit_char 3 = CHR ''3''"
  "digit_char 4 = CHR ''4''" "digit_char 5 = CHR ''5''" "digit_char 7 = CHR ''7''"
  by code_simp+

lemma parse_money_reads_formatted_amounts_witness:
  "parse_money (JStr ''EUR 24.350,75'') = Inr (''EUR'', 2435075)"
proof -
  have "format_money (CHR ''.'') (CHR '','') ''EUR'' 2435075 = ''EUR 24.350,75''"
    by (simp add: format_money_def grouped.simps nat_str.simps cents_def digit_chars)
  moreover have "grouped (CHR ''.'') (2435075 div 100) = ''24.350''"
    by (simp add: grouped.simps nat_str.simps digit_chars)
  then have "digit_count (grouped (CHR ''.'') (2435075 div 100)) \<le> max_str_digits"
    by (simp add: digit_count_def max_str_digits_def is_digit_def)
  ultimately show ?thesis
    using parse_money_reads_formatted_amounts
    [of "CHR ''.''" "CHR '',''" "CHR ''E''" "CHR ''U''" "CHR ''R''" 2435075]
    by (simp add: is_upper_def)
qed

section \<open>Negative amounts\<close>

lemma strip_if_nonspace:
  "s \<noteq> [] \<Longrightarrow> \<not> is_space (hd s) \<Longrightarrow> \<not> is_space (last s) \<Longrightarrow> strip s = s"
  by (simp add: strip_def strip_if_fixed)

lemma under_digits_nat_str: "under_digits (nat_str n) = Some (nat_str n)"
  using nat_str_digits [of n] by (simp add: under_digits_plain)

lemma int_of_negative:
  assumes "digit_count (nat_str n) \<le> max_str_digits"
  shows "int_of (CHR ''-'' # nat_str n) = Inr (- int n)"
proof -
  have "is_digit (last (nat_str n))"
    using nat_str_digits [of n] last_in_set by (force simp: list_all_iff)
  then have "strip (CHR ''-'' # nat_str n) = CHR ''-'' # nat_str n"
    by (intro strip_if_nonspace) (auto simp: is_space_def dest: digit_not_space)
  moreover have "digit_count (CHR ''-'' # nat_str n) = digit_count (nat_str n)"
    by (simp add: digit_count_def is_digit_def)
  ultimately show ?thesis using assms by (simp add: int_of_def py_int_def under_digits_nat_str)
qed

text \<open>The sign of a negative amount covers the units only.  A text of a minus sign, units, a dot
  and two decimals parses to minus the units plus the cents, so -5.50 is read as -450 and -0.50 as
  a charge of 50.\<close>

lemma negative_cents_are_added:
  assumes "digit_count (nat_str m) \<le> max_str_digits"
  shows "parse_money (JStr (''-'' @ nat_str m @ ''.'' @ cents n)) =
     Inr (''USD'', - int m * 100 + int (n mod 100))"
proof -
  let ?i = "CHR ''-'' # nat_str m"
  let ?d = "?i @ [CHR ''.''] @ cents n"
  have no_dot: "rfind c (cents n) = - 1" if "\<not> is_digit c" for c
    using cents_props(2) [of n] that by (intro rfind_absent) (auto simp: list_all_iff)
  have digits: "list_all is_digit (nat_str m)" "nat_str m \<noteq> []" using nat_str_digits by auto
  have "rfind (CHR ''.'') ?d = int (length ?i)"
    using no_dot [OF not_digit_chars(1)] by (simp only: rfind_append) simp
  moreover have "rfind (CHR '','') ?d = - 1"
    by (rule rfind_absent) (use digits cents_props(2) [of n] not_digit_chars in \<open>auto simp: list_all_iff\<close>)
  ultimately have pos: "max (rfind (CHR ''.'') ?d) (rfind (CHR '','') ?d) = int (length ?i)" by simp
  have w: "without (CHR ''.'') (without (CHR '','') ?i) = ?i"
    using without_plain [OF digits(1) not_digit_chars(1)] without_plain [OF digits(1) not_digit_chars(2)]
    by (simp add: without_def)
  have "money_split ?d (CHR ''.'') ?i (cents n) = Inr (- int m * 100 + int (n mod 100))"
    unfolding money_split_def Let_def if_True simp_thms w
    by (simp add: cents_props int_of_negative [OF assms] int_of_cents)
  then have minor: "money_minor ?d = Inr (- int m * 100 + int (n mod 100))"
    unfolding money_minor_at [OF pos] .
  have set_d: "set ?d \<subseteq> {x. is_digit x} \<union> {CHR ''-'', CHR ''.''}"
    using digits(1) cents_props(2) [of n] by (auto simp: list_all_iff)
  have "last ?d = digit_char (n mod 10)" by (simp add: cents_def)
  then have "\<not> is_space (last ?d)" using digit_not_space by simp
  then have strip: "strip ?d = ?d"
    by (intro strip_if_nonspace) (simp_all add: is_space_def)
  have none: "find_code b s = None" if "set s \<subseteq> {x. is_digit x} \<union> {CHR ''-'', CHR ''.''}" for b s
    using that by (induction b s rule: find_code.induct)
      (auto dest: upper_props simp: is_upper_def [of "CHR ''-''"] is_upper_def [of "CHR ''.''"])
  have code: "money_currency ?d = (''USD'', ?d)"
    using none [OF set_d] by (simp add: money_currency_def startswith_def)
  have keep: "filter money_char ?d = ?d"
    by (rule filter_True) (use set_d in \<open>auto simp: money_char_def\<close>)
  have ne: "?d \<noteq> []" by simp
  have "parse_money (JStr ?d) = Inr (''USD'', - int m * 100 + int (n mod 100))"
    unfolding parse_money_def json.case strip code Let_def prod.case keep minor
    by (simp only: ne if_False bindE_Inr)
  then show ?thesis by simp
qed

end
