(* ===== verification/SchemaPaths.thy ===== *)
theory SchemaPaths
  imports Parsers
begin

text \<open>
  The field resolution of \<open>app/adapters/schema_driven.py\<close>: the paths and templates of a schema
  document evaluated against a payload.  A spec is a JSON value, as it comes from the database;
  \<open>JNull\<close> is \<open>None\<close>.
\<close>

section \<open>Splitting a path\<close>

text \<open>The loop of \<open>_parse_path\<close> on the rest of the path; \<open>index("]")\<close> raises \<open>ValueError\<close>.\<close>

function path_loop :: "string \<Rightarrow> string list \<Rightarrow> string \<Rightarrow> string list result" where
  "path_loop current segments [] =
     Inr (if current \<noteq> [] then segments @ [current] else segments)"
| "path_loop current segments (ch # rest) =
     (if ch = CHR ''.'' then
        (if current \<noteq> [] then path_loop [] (segments @ [current]) rest
         else path_loop current segments rest)
      else if ch = CHR ''['' then
        (if CHR '']'' \<notin> set rest then Inl ValueError
         else
           let inside = takeWhile (\<lambda>c. c \<noteq> CHR '']'') rest in
           path_loop (current @ ''['' @ inside @ '']'') segments (drop (length inside + 1) rest))
      else path_loop (current @ [ch]) segments rest)"
  by pat_completeness auto

termination by (relation "measure (\<lambda>(current, segments, rest). length rest)") auto

definition parse_path :: "string \<Rightarrow> string list result" where
  "parse_path path =
     path_loop [] []
       (if startswith path ''$.'' then drop 2 path
        else if startswith path ''$'' then drop 1 path else path)"

section \<open>Walking a path\<close>

text \<open>\<open>xs[i]\<close>, where a negative index counts from the end; \<open>None\<close> is the \<open>IndexError\<close>.\<close>

definition py_index :: "'a list \<Rightarrow> int \<Rightarrow> 'a option" where
  "py_index xs i =
     (let n = int (length xs); j = (if i < 0 then i + n else i) in
      if 0 \<le> j \<and> j < n then Some (xs ! nat j) else None)"

text \<open>\<open>s.index("[")\<close>.\<close>

definition bracket_at :: "string \<Rightarrow> nat result" where
  "bracket_at s = (if CHR ''['' \<in> set s then Inr (length (takeWhile (\<lambda>c. c \<noteq> CHR ''['') s))
                   else Inl ValueError)"

text \<open>The key in front of the brackets: \<open>None\<close> is the early \<open>return None\<close>.\<close>

definition enter_key :: "string \<Rightarrow> json \<Rightarrow> json option" where
  "enter_key key current =
     (if key = [] then Some current
      else (case current of JObj kvs \<Rightarrow> Some (jget kvs key) | _ \<Rightarrow> None))"

definition path_step :: "string \<Rightarrow> json \<Rightarrow> json option result" where
  "path_step part current =
     (if part = ''$'' then Inr (Some current)
      else if endswith part ''[]'' then
        Inr (case enter_key (take (length part - 2) part) current of
               None \<Rightarrow> None
             | Some (JArr (x # xs)) \<Rightarrow> Some x
             | Some (JArr []) \<Rightarrow> None
             | Some v \<Rightarrow> Some v)
      else if endswith part '']'' then
        bindE (bracket_at part) (\<lambda>bracket.
          let key = take bracket part;
              idx_str = drop (bracket + 1) (take (length part - 1) part) in
          Inr (case enter_key key current of
                 Some (JArr xs) \<Rightarrow>
                   (case py_int idx_str of None \<Rightarrow> None | Some i \<Rightarrow> py_index xs i)
               | _ \<Rightarrow> None))
      else Inr (case current of JObj kvs \<Rightarrow> Some (jget kvs part) | _ \<Rightarrow> None))"

fun walk_parts :: "string list \<Rightarrow> json \<Rightarrow> json result" where
  "walk_parts [] current = Inr current"
| "walk_parts (part # parts) current =
     (if current = JNull then Inr JNull
      else bindE (path_step part current) (\<lambda>next.
        case next of None \<Rightarrow> Inr JNull | Some v \<Rightarrow> walk_parts parts v))"

definition resolve_path :: "json \<Rightarrow> json \<Rightarrow> json result" where
  "resolve_path payload path =
     (if \<not> truthy path then Inr JNull
      else (case path of
          JStr p \<Rightarrow> bindE (parse_path p) (\<lambda>parts. walk_parts parts payload)
        | _ \<Rightarrow> Inl AttributeError))"

section \<open>Templates\<close>

text \<open>\<open>re.split(r"(\{[^}]+\})", s)\<close>: literal and placeholder pieces in turn.  \<open>lit\<close> is the literal
  read so far.\<close>

function split_template :: "string \<Rightarrow> string \<Rightarrow> string list" where
  "split_template lit [] = [lit]"
| "split_template lit (c # s) =
     (let inside = takeWhile (\<lambda>x. x \<noteq> CHR ''}'') s in
      if c = CHR ''{'' \<and> inside \<noteq> [] \<and> CHR ''}'' \<in> set s
      then lit # (''{'' @ inside @ ''}'') # split_template [] (drop (length inside + 1) s)
      else split_template (lit @ [c]) s)"
  by pat_completeness auto

termination by (relation "measure (\<lambda>(lit, s). length s)") auto

definition is_placeholder :: "string \<Rightarrow> bool" where
  "is_placeholder part \<longleftrightarrow> startswith part ''{'' \<and> endswith part ''}''"

text \<open>The texts of the pieces, and whether some placeholder had a value.\<close>

fun fill_parts :: "externals \<Rightarrow> json \<Rightarrow> string list \<Rightarrow> (string list \<times> bool) result" where
  "fill_parts X payload [] = Inr ([], False)"
| "fill_parts X payload (part # parts) =
     bindE (if is_placeholder part
            then bindE (resolve_path payload (JStr (''$.'' @ drop 1 (take (length part - 1) part))))
                   (\<lambda>val. Inr (if truthy val then (pstr X val, True) else ([], False)))
            else Inr (part, False)) (\<lambda>(text, has).
     bindE (fill_parts X payload parts) (\<lambda>(texts, has_more). Inr (text # texts, has \<or> has_more)))"

definition resolve_template :: "externals \<Rightarrow> json \<Rightarrow> json \<Rightarrow> string option result" where
  "resolve_template X payload template = (case template of
       JStr t \<Rightarrow> bindE (fill_parts X payload (split_template [] t)) (\<lambda>(texts, has_value).
         if \<not> has_value then Inr None
         else let r = strip_char (CHR ''-'') (strip_char (CHR '':'') (concat texts)) in
              Inr (if r = [] then None else Some r))
     | _ \<Rightarrow> Inl TypeError)"

section \<open>Field specs\<close>

fun first_path :: "json \<Rightarrow> json list \<Rightarrow> json result" where
  "first_path payload [] = Inr JNull"
| "first_path payload (p # ps) = bindE (resolve_path payload p) (\<lambda>val.
     if val \<noteq> JNull then Inr val else first_path payload ps)"

definition json_of_opt :: "string option \<Rightarrow> json" where
  "json_of_opt s = (case s of None \<Rightarrow> JNull | Some s \<Rightarrow> JStr s)"

definition resolve_field :: "externals \<Rightarrow> json \<Rightarrow> json \<Rightarrow> json result" where
  "resolve_field X payload spec = (case spec of
       JArr ps \<Rightarrow> first_path payload ps
     | JObj kvs \<Rightarrow>
         (let template = jget kvs ''template'' in
          if truthy template
          then bindE (resolve_template X payload template) (\<lambda>r. Inr (json_of_opt r))
          else Inr JNull)
     | JStr p \<Rightarrow> resolve_path payload (JStr p)
     | _ \<Rightarrow> Inr JNull)"

definition resolve_entity_id :: "externals \<Rightarrow> json \<Rightarrow> jobject \<Rightarrow> string option result" where
  "resolve_entity_id X payload flds = (case jget flds ''entity_external_id'' of
       JObj kvs \<Rightarrow>
         (let template = jget kvs ''template'' in
          if truthy template then resolve_template X payload template else Inr None)
     | JStr p \<Rightarrow> bindE (resolve_path payload (JStr p)) (\<lambda>val.
         Inr (if truthy val then Some (pstr X val) else None))
     | _ \<Rightarrow> Inr None)"

section \<open>Paths as steps\<close>

text \<open>A position in a document, and the way the discoverer and the documents write it.\<close>

datatype pstep = Key string | Idx nat

fun get_steps :: "json \<Rightarrow> pstep list \<Rightarrow> json option" where
  "get_steps v [] = Some v"
| "get_steps (JObj kvs) (Key k # s) = (case map_of kvs k of None \<Rightarrow> None | Some w \<Rightarrow> get_steps w s)"
| "get_steps (JArr xs) (Idx i # s) = (if i < length xs then get_steps (xs ! i) s else None)"
| "get_steps v s = None"

definition idx_text :: "nat \<Rightarrow> string" where
  "idx_text i = ''['' @ nat_str i @ '']''"

fun render :: "pstep list \<Rightarrow> string" where
  "render [] = []"
| "render (Key k # s) = ''.'' @ k @ render s"
| "render (Idx i # s) = idx_text i @ render s"

definition plain_key :: "string \<Rightarrow> bool" where
  "plain_key k \<longleftrightarrow> k \<noteq> [] \<and> k \<noteq> ''$'' \<and> CHR ''.'' \<notin> set k \<and> CHR ''['' \<notin> set k \<and> CHR '']'' \<notin> set k"

text \<open>Positions a path can express: plain keys, and never an index right after an index.\<close>

fun starts_idx :: "pstep list \<Rightarrow> bool" where
  "starts_idx (Idx i # s) = True"
| "starts_idx s = False"

fun ok_steps :: "pstep list \<Rightarrow> bool" where
  "ok_steps [] = True"
| "ok_steps (Key k # s) = (plain_key k \<and> ok_steps s)"
| "ok_steps (Idx i # s) = (\<not> starts_idx s \<and> ok_steps s)"

fun segments :: "pstep list \<Rightarrow> string list" where
  "segments [] = []"
| "segments (Key k # Idx i # s) = (k @ idx_text i) # segments s"
| "segments [Key k] = [k]"
| "segments (Key k # Key l # s) = k # segments (Key l # s)"
| "segments (Idx i # s) = idx_text i # segments s"

lemma path_loop_key:
  "CHR ''.'' \<notin> set k \<Longrightarrow> CHR ''['' \<notin> set k \<Longrightarrow>
     path_loop cur segs (k @ rest) = path_loop (cur @ k) segs rest"
  by (induction k arbitrary: cur) auto

lemma path_loop_end: "cur \<noteq> [] \<Longrightarrow> path_loop cur segs [] = Inr (segs @ [cur])"
  by simp

lemma path_loop_dot:
  "cur \<noteq> [] \<Longrightarrow> path_loop cur segs (CHR ''.'' # rest) = path_loop [] (segs @ [cur]) rest"
  by simp

lemma nat_str_no_bracket: "CHR '']'' \<notin> set (nat_str i)" "CHR ''['' \<notin> set (nat_str i)"
  using nat_str_digits [of i] by (auto simp: list_all_iff is_digit_def)

lemma path_loop_idx: "path_loop cur segs (idx_text i @ rest) = path_loop (cur @ idx_text i) segs rest"
proof -
  have "takeWhile (\<lambda>c. c \<noteq> CHR '']'') (nat_str i @ CHR '']'' # rest) = nat_str i"
    using nat_str_no_bracket(1) [of i] by (subst takeWhile_append2) auto
  then show ?thesis by (simp add: idx_text_def Let_def)
qed

declare path_loop.simps [simp del]

lemma idx_text_nonempty [simp]: "idx_text i \<noteq> []"
  by (simp add: idx_text_def)

lemmas path_loop_simps = path_loop_end path_loop_dot path_loop_key path_loop_idx

lemma path_loop_steps:
  "ok_steps s \<Longrightarrow> \<not> starts_idx s \<Longrightarrow> cur \<noteq> [] \<Longrightarrow>
     path_loop cur segs (render s) = Inr (segs @ cur # segments s)"
proof (induction s arbitrary: cur segs rule: segments.induct)
  case (3 k)
  then show ?case
    using path_loop_key [of k "[]" "segs @ [cur]" "[]"] by (simp add: plain_key_def path_loop_simps)
next
  case (4 k l s)
  have "path_loop cur segs (render (Key k # Key l # s)) = path_loop k (segs @ [cur]) (render (Key l # s))"
    using "4.prems" by (simp add: plain_key_def path_loop_simps)
  with "4.IH" [of k "segs @ [cur]"] "4.prems" show ?case by (simp add: plain_key_def)
qed (auto simp: plain_key_def path_loop_simps)

lemma parse_path_render:
  assumes "ok_steps s"
  shows "parse_path (''$'' @ render s) = Inr (segments s)"
proof (cases s rule: segments.cases)
  case 1
  then show ?thesis by (simp add: parse_path_def startswith_def path_loop.simps)
next
  case (2 k i s')
  with assms have "parse_path (''$'' @ render s) = path_loop (k @ idx_text i) [] (render s')"
    by (simp add: parse_path_def startswith_def plain_key_def path_loop_simps)
  with assms 2 path_loop_steps [of s' "k @ idx_text i" "[]"] show ?thesis by simp
next
  case (3 k)
  with assms path_loop_key [of k "[]" "[]" "[]"] show ?thesis
    by (simp add: parse_path_def startswith_def plain_key_def path_loop_simps)
next
  case (4 k l s')
  with assms have "parse_path (''$'' @ render s) = path_loop k [] (render (Key l # s'))"
    by (simp add: parse_path_def startswith_def plain_key_def path_loop_simps)
  with assms 4 path_loop_steps [of "Key l # s'" k "[]"] show ?thesis by (simp add: plain_key_def)
next
  case (5 i s')
  have "parse_path (''$'' @ render s) = path_loop (idx_text i) [] (render s')"
    using path_loop_idx [of "[]" "[]" i "render s'"]
    by (simp add: 5 parse_path_def startswith_def) (simp add: idx_text_def)
  with assms 5 path_loop_steps [of s' "idx_text i" "[]"] show ?thesis by simp
qed

section \<open>A path reads the value at its position\<close>

lemma plain_key_end: "plain_key k \<Longrightarrow> \<not> endswith k '']'' \<and> \<not> endswith k ''[]''"
proof -
  assume k: "plain_key k"
  have "CHR '']'' \<in> set k" if "drop m k = x @ '']''" for m x
    using that in_set_dropD [of "CHR '']''" m k] by simp
  from this [of _ "[]"] this [of _ "''[''"] k show ?thesis
    by (auto simp: endswith_def plain_key_def)
qed

lemma endswith_mem: "endswith s p \<Longrightarrow> set p \<subseteq> set s"
  by (metis endswith_def set_drop_subset)

lemma endswith_append: "endswith (a @ b) b"
  by (simp add: endswith_def)

lemma idx_part_end: "\<not> endswith (k @ idx_text i) ''[]''"
proof
  assume "endswith (k @ idx_text i) ''[]''"
  then obtain x where "k @ idx_text i = x @ ''[]''"
    unfolding endswith_def by (metis append_take_drop_id)
  then have "k @ ''['' @ nat_str i = x @ ''[''" by (simp add: idx_text_def)
  then have "last (nat_str i) = CHR ''[''" by (metis last_appendR last_ConsL list.distinct(1) nat_str_nonempty append_is_Nil_conv)
  then show False using nat_str_no_bracket(2) [of i] last_in_set [of "nat_str i"] by simp
qed

lemma path_step_key:
  "plain_key k \<Longrightarrow> path_step k v = Inr (case v of JObj kvs \<Rightarrow> Some (jget kvs k) | _ \<Rightarrow> None)"
  using plain_key_end [of k] by (simp add: path_step_def plain_key_def)

lemma py_index_nat: "py_index xs (int i) = (if i < length xs then Some (xs ! i) else None)"
  by (simp add: py_index_def)

lemma path_step_idx:
  assumes "CHR ''['' \<notin> set k"
  shows "path_step (k @ idx_text i) v = Inr (case enter_key k v of
     Some (JArr xs) \<Rightarrow> (if i < length xs then Some (xs ! i) else None) | _ \<Rightarrow> None)"
proof -
  have "takeWhile (\<lambda>c. c \<noteq> CHR ''['') (k @ idx_text i) = k"
    using assms by (subst takeWhile_append2) (auto simp: idx_text_def)
  then have pos: "bracket_at (k @ idx_text i) = Inr (length k)"
    by (simp add: bracket_at_def idx_text_def)
  have idx: "drop (length k + 1) (take (length (k @ idx_text i) - 1) (k @ idx_text i)) = nat_str i"
    by (simp add: idx_text_def)
  have ends: "endswith (k @ idx_text i) '']''"
    using endswith_append [of "k @ ''['' @ nat_str i" "'']''"] by (simp add: idx_text_def)
  have dollar: "k @ idx_text i \<noteq> ''$''"
  proof
    assume "k @ idx_text i = ''$''"
    then have "length (k @ idx_text i) = 1" by simp
    then show False by (simp add: idx_text_def)
  qed
  have key: "take (length k) (k @ idx_text i) = k" by simp
  show ?thesis
    unfolding path_step_def pos Let_def bindE_Inr idx key py_int_nat_str
    by (simp only: dollar idx_part_end ends if_False if_True option.case py_index_nat)
qed

lemma walk_segments:
  "ok_steps s \<Longrightarrow>
     walk_parts (segments s) v = Inr (case get_steps v s of None \<Rightarrow> JNull | Some w \<Rightarrow> w)"
proof (induction s arbitrary: v rule: segments.induct)
  case (2 k i s)
  then have k: "plain_key k" "CHR ''['' \<notin> set k" "k \<noteq> []" by (auto simp: plain_key_def)
  show ?case
  proof (cases v)
    case (JObj kvs)
    show ?thesis
    proof (cases "map_of kvs k")
      case (Some w)
      then show ?thesis
        using 2 k by (cases w) (auto simp: JObj path_step_idx enter_key_def jget_def)
    qed (use 2 k in \<open>auto simp: JObj path_step_idx enter_key_def jget_def\<close>)
  qed (use k in \<open>auto simp: path_step_idx enter_key_def\<close>)
next
  case (3 k)
  then show ?case by (cases v) (auto simp: path_step_key jget_def split: option.splits)
next
  case (4 k l s)
  show ?case
  proof (cases v)
    case (JObj kvs)
    have null: "get_steps JNull (Key l # s) = None" by simp
    show ?thesis
      using 4 by (cases "map_of kvs k") (auto simp: JObj path_step_key jget_def)
  qed (use 4 in \<open>auto simp: path_step_key\<close>)
next
  case (5 i s)
  then show ?case
    using path_step_idx [of "[]" i]
    by (cases v) (auto simp: enter_key_def)
qed simp

text \<open>A path means the position it writes.  For every position whose keys are plain (non-empty,
  without dots and brackets, and not \<open>$\<close>) and in which no index follows an index, resolving its
  text against any payload gives exactly the value there, and \<open>None\<close> when some key is missing, some
  index is out of range or something on the way is not a container; it never raises.\<close>

lemma resolve_path_reads_position:
  assumes "ok_steps s"
  shows "resolve_path payload (JStr (''$'' @ render s)) =
     Inr (case get_steps payload s of None \<Rightarrow> JNull | Some v \<Rightarrow> v)"
  using parse_path_render [OF assms] walk_segments [OF assms, of payload]
  by (simp add: resolve_path_def)

lemma resolve_path_reads_position_witness:
  "resolve_path (JObj [(''events'', JArr [JNull, JObj [(''code'', JStr ''GT'')]])])
     (JStr ''$.events[1].code'') = Inr (JStr ''GT'')"
proof -
  let ?s = "[Key ''events'', Idx 1, Key ''code'']"
  have "ok_steps ?s" by (simp add: plain_key_def)
  moreover have "''$'' @ render ?s = ''$.events[1].code''"
    by (simp add: idx_text_def nat_str.simps digit_char_def) code_simp
  ultimately show ?thesis
    using resolve_path_reads_position [of ?s] by simp
qed

section \<open>Errors\<close>

lemma parse_path_error: "path_loop cur segs p = Inl e \<Longrightarrow> e = ValueError"
  by (induction cur segs p rule: path_loop.induct)
    (auto simp: path_loop.simps Let_def split: if_splits)

lemma path_loop_plain:
  "CHR ''['' \<notin> set p \<Longrightarrow> \<exists>ps. path_loop cur segs p = Inr ps \<and>
     (\<forall>part \<in> set ps. part \<in> set segs \<or> set part \<subseteq> set cur \<union> set p)"
proof (induction p arbitrary: cur segs)
  case (Cons ch rest)
  show ?case
  proof (cases "ch = CHR ''.''")
    case True
    have "path_loop cur segs (ch # rest) =
        path_loop [] (if cur = [] then segs else segs @ [cur]) rest"
      using True by (simp add: path_loop.simps)
    moreover obtain ps where "path_loop [] (if cur = [] then segs else segs @ [cur]) rest = Inr ps"
        "\<forall>part \<in> set ps. part \<in> set (if cur = [] then segs else segs @ [cur]) \<or> set part \<subseteq> set rest"
      using Cons.IH [of "[]" "if cur = [] then segs else segs @ [cur]"] Cons.prems by auto
    ultimately show ?thesis by (auto split: if_splits)
  next
    case False
    then have "path_loop cur segs (ch # rest) = path_loop (cur @ [ch]) segs rest"
      using Cons.prems by (auto simp: path_loop.simps)
    moreover obtain ps where "path_loop (cur @ [ch]) segs rest = Inr ps"
        "\<forall>part \<in> set ps. part \<in> set segs \<or> set part \<subseteq> set (cur @ [ch]) \<union> set rest"
      using Cons.IH [of "cur @ [ch]" segs] Cons.prems by auto
    ultimately show ?thesis by auto
  qed
qed (auto simp: path_loop.simps)

lemma walk_parts_error: "walk_parts ps v = Inl e \<Longrightarrow> e = ValueError"
  by (induction ps v rule: walk_parts.induct)
    (auto simp: bindE_eq_Inl path_step_def bracket_at_def Let_def split: if_splits option.splits)

text \<open>Resolving a path raises \<open>ValueError\<close> at most, and only on a path text that contains a
  bracket; every other text, a path of the payload or not, resolves to a value or to \<open>None\<close>.\<close>

lemma resolve_path_errors:
  assumes "resolve_path payload (JStr p) = Inl e"
  shows "e = ValueError \<and> (CHR ''['' \<in> set p \<or> CHR '']'' \<in> set p)"
proof
  let ?q = "if startswith p ''$.'' then drop 2 p else if startswith p ''$'' then drop 1 p else p"
  show "e = ValueError"
    using assms parse_path_error walk_parts_error
    by (auto simp: resolve_path_def parse_path_def bindE_eq_Inl split: if_splits)
  have walk: "\<forall>part \<in> set ps. CHR '']'' \<notin> set part \<Longrightarrow> is_ok (walk_parts ps v)" for ps v
  proof (induction ps v rule: walk_parts.induct)
    case (2 part parts current)
    have "\<not> endswith part '']''" "\<not> endswith part ''[]''"
      using 2 endswith_mem [of part "'']''"] endswith_mem [of part "''[]''"] by auto
    then show ?case using 2 by (auto simp: path_step_def is_ok_iff split: option.splits json.splits)
  qed simp
  show "CHR ''['' \<in> set p \<or> CHR '']'' \<in> set p"
  proof (rule ccontr)
    assume no: "\<not> (CHR ''['' \<in> set p \<or> CHR '']'' \<in> set p)"
    have sub: "set ?q \<subseteq> set p" by (auto dest: in_set_dropD)
    with no path_loop_plain [of ?q "[]" "[]"] obtain ps where ps: "path_loop [] [] ?q = Inr ps"
        "\<forall>part \<in> set ps. set part \<subseteq> set ?q" by auto
    with no sub have "\<forall>part \<in> set ps. CHR '']'' \<notin> set part" by blast
    with walk [of ps payload] ps assms show False
      by (auto simp: resolve_path_def parse_path_def is_ok_iff split: if_splits)
  qed
qed

lemma resolve_path_errors_witness:
  "resolve_path (JObj []) (JStr ''$.a[0'') = Inl ValueError"
proof -
  have "\<not> is_ok (resolve_path (JObj []) (JStr ''$.a[0''))" by code_simp
  then obtain e where e: "resolve_path (JObj []) (JStr ''$.a[0'') = Inl e"
    by (auto simp: is_ok_def split: sum.splits)
  with resolve_path_errors [OF e] show ?thesis by simp
qed

end
