(* ===== verification/SchemaDriven.thy ===== *)
theory SchemaDriven
  imports SchemaPaths
begin

text \<open>
  \<open>SchemaDrivenAdapter\<close> of \<open>app/adapters/schema_driven.py\<close>: a schema document executed against a
  payload.  An extraction that fails is a value (\<open>ex_success = False\<close>); an exception that the code
  does not catch is \<open>Inl\<close>.
\<close>

record ExtractionResult =
  ex_success :: bool
  ex_canonical_event :: "CanonicalEvent option"
  ex_raw_event_type :: "string option"
  ex_error :: "string option"
  ex_missing_fields :: "string list option"

definition extraction_failure ::
  "string option \<Rightarrow> string \<Rightarrow> string list option \<Rightarrow> ExtractionResult" where
  "extraction_failure raw err missing =
     \<lparr>ex_success = False, ex_canonical_event = None, ex_raw_event_type = raw,
      ex_error = Some err, ex_missing_fields = missing\<rparr>"

definition extraction_success :: "CanonicalEvent \<Rightarrow> string option \<Rightarrow> ExtractionResult" where
  "extraction_success ev raw =
     \<lparr>ex_success = True, ex_canonical_event = Some ev, ex_raw_event_type = raw,
      ex_error = None, ex_missing_fields = None\<rparr>"

text \<open>\<open>str(v) if v else None\<close>.\<close>

definition str_or_none :: "externals \<Rightarrow> json \<Rightarrow> string option" where
  "str_or_none X v = (if truthy v then Some (pstr X v) else None)"

definition catch_parse :: "'a result \<Rightarrow> (exn \<Rightarrow> 'b result) \<Rightarrow> ('a \<Rightarrow> 'b result) \<Rightarrow> 'b result" where
  "catch_parse m h f = (case m of
       Inr x \<Rightarrow> f x
     | Inl e \<Rightarrow> if is_value_error e \<or> e = TypeError then h e else Inl e)"

section \<open>Optional fields\<close>

definition extract_location :: "externals \<Rightarrow> json \<Rightarrow> json \<Rightarrow> Location option result" where
  "extract_location X payload loc_spec = (case loc_spec of
       JObj (kv # kvs) \<Rightarrow>
         (let spec = jget (kv # kvs) in
          bindE (resolve_path payload (spec ''code'')) (\<lambda>code.
          bindE (resolve_path payload (spec ''name'')) (\<lambda>name.
          bindE (resolve_path payload (spec ''latitude'')) (\<lambda>lat.
          bindE (resolve_path payload (spec ''longitude'')) (\<lambda>lon.
          if \<not> truthy code \<and> \<not> truthy name then Inr None
          else
            bindE (if lat = JNull then Inr None else bindE (py_float X lat) (\<lambda>r. Inr (Some r))) (\<lambda>latitude.
            bindE (if lon = JNull then Inr None else bindE (py_float X lon) (\<lambda>r. Inr (Some r))) (\<lambda>longitude.
            Inr (Some \<lparr>l_code = str_or_none X code, l_name = str_or_none X name,
                        l_latitude = latitude, l_longitude = longitude\<rparr>))))))))
     | _ \<Rightarrow> Inr None)"

definition extract_amount :: "externals \<Rightarrow> json \<Rightarrow> json \<Rightarrow> Money option result" where
  "extract_amount X payload spec =
     bindE (resolve_field X payload spec) (\<lambda>amount_raw.
     if \<not> truthy amount_raw then Inr None
     else
       (case bindE (parse_money (JStr (pstr X amount_raw))) (\<lambda>(currency, amount_minor).
               new_money currency amount_minor) of
          Inr m \<Rightarrow> Inr (Some m)
        | Inl e \<Rightarrow> if is_value_error e then Inr None else Inl e))"

fun extract_items :: "json \<Rightarrow> jobject \<Rightarrow> jobject result" where
  "extract_items payload [] = Inr []"
| "extract_items payload ((key, path) # items) =
     bindE (resolve_path payload path) (\<lambda>val.
     bindE (extract_items payload items) (\<lambda>rest.
     Inr (if val \<noteq> JNull then (key, val) # rest else rest)))"

definition extract_map :: "json \<Rightarrow> json \<Rightarrow> jobject result" where
  "extract_map payload map_spec = (case map_spec of
       JObj items \<Rightarrow> extract_items payload items
     | _ \<Rightarrow> Inr [])"

section \<open>The three extractors\<close>

text \<open>The required fields of shipments and invoices: the id and the raw timestamp, or the names of
  the missing ones.\<close>

definition required_fields ::
  "externals \<Rightarrow> json \<Rightarrow> jobject \<Rightarrow> (string list + (string \<times> json)) result" where
  "required_fields X payload flds =
     bindE (resolve_entity_id X payload flds) (\<lambda>ext_id.
     bindE (resolve_field X payload (jget flds ''event_timestamp'')) (\<lambda>ts_raw.
     let no_id = (ext_id = None \<or> ext_id = Some []);
         missing = (if no_id then [''entity_external_id''] else []) @
                   (if \<not> truthy ts_raw then [''event_timestamp''] else []) in
     Inr (case ext_id of
            Some i \<Rightarrow> if missing = [] then Inr (i, ts_raw) else Inl missing
          | None \<Rightarrow> Inl missing)))"

definition missing_error :: "externals \<Rightarrow> string list \<Rightarrow> string" where
  "missing_error X missing =
     ''missing required fields: '' @ py_repr (x_float_repr X) (JArr (map JStr missing))"

definition extract_shipment ::
  "externals \<Rightarrow> json \<Rightarrow> string \<Rightarrow> string \<Rightarrow> jobject \<Rightarrow> string \<Rightarrow> json \<Rightarrow> ExtractionResult result" where
  "extract_shipment X payload eid vid flds canonical_state raw_event_type =
     (let raw = str_or_none X raw_event_type in
      bindE (required_fields X payload flds) (\<lambda>req.
      case req of
        Inl missing \<Rightarrow> Inr (extraction_failure raw (missing_error X missing) (Some missing))
      | Inr (ext_id, ts_raw) \<Rightarrow>
          catch_parse (parse_timestamp X (JStr (pstr X ts_raw)))
            (\<lambda>e. Inr (extraction_failure raw (''timestamp parse failed: '' @ x_exn_text X e) None)) (\<lambda>event_ts.
          case shipment_event_of canonical_state of
            Inl _ \<Rightarrow> Inr (extraction_failure raw (''invalid shipment state: '' @ canonical_state) None)
          | Inr event_type \<Rightarrow>
              bindE (extract_location X payload (jget flds ''location'')) (\<lambda>location.
              bindE (extract_map payload (jget flds ''reference_ids'')) (\<lambda>reference_ids.
              bindE (resolve_field X payload (jget flds ''raw_milestone'')) (\<lambda>raw_milestone.
              bindE (new_shipment
                \<lparr>ev_event_id = eid, ev_vendor_id = vid, ev_schema_version = ''v1'',
                 ev_source = DETERMINISTIC, ev_confidence = 92/100,
                 sh_external_id = ext_id, sh_event_type = event_type, sh_timestamp = event_ts,
                 sh_reference_ids = reference_ids, sh_location = location,
                 sh_raw_milestone = str_or_none X raw_milestone\<rparr>) (\<lambda>ev.
              Inr (extraction_success (Shipment ev) raw))))))))"

definition extract_invoice ::
  "externals \<Rightarrow> json \<Rightarrow> string \<Rightarrow> string \<Rightarrow> jobject \<Rightarrow> string \<Rightarrow> json \<Rightarrow> ExtractionResult result" where
  "extract_invoice X payload eid vid flds canonical_state raw_event_type =
     (let raw = str_or_none X raw_event_type in
      bindE (required_fields X payload flds) (\<lambda>req.
      case req of
        Inl missing \<Rightarrow> Inr (extraction_failure raw (missing_error X missing) (Some missing))
      | Inr (ext_id, ts_raw) \<Rightarrow>
          catch_parse (parse_timestamp X (JStr (pstr X ts_raw)))
            (\<lambda>e. Inr (extraction_failure raw (''timestamp parse failed: '' @ x_exn_text X e) None)) (\<lambda>event_ts.
          case invoice_event_of canonical_state of
            Inl _ \<Rightarrow> Inr (extraction_failure raw (''invalid invoice state: '' @ canonical_state) None)
          | Inr event_type \<Rightarrow>
              bindE (extract_amount X payload (jget flds ''amount'')) (\<lambda>amount.
              bindE (resolve_field X payload (jget flds ''due_at'')) (\<lambda>due_raw.
              bindE (if truthy due_raw
                     then catch_parse (parse_timestamp X (JStr (pstr X due_raw)))
                            (\<lambda>e. Inr None) (\<lambda>t. Inr (Some t))
                     else Inr None) (\<lambda>due_at.
              bindE (extract_map payload (jget flds ''linked_references'')) (\<lambda>linked_refs.
              bindE (resolve_field X payload (jget flds ''raw_kind'')) (\<lambda>raw_kind.
              bindE (new_invoice
                \<lparr>ev_event_id = eid, ev_vendor_id = vid, ev_schema_version = ''v1'',
                 ev_source = DETERMINISTIC, ev_confidence = 92/100,
                 in_external_id = ext_id, in_event_type = event_type, in_timestamp = event_ts,
                 in_amount = amount, in_due_at = due_at, in_linked_references = linked_refs,
                 in_raw_kind = str_or_none X raw_kind\<rparr>) (\<lambda>ev.
              Inr (extraction_success (Invoice ev) raw))))))))))"

definition extract_unclassified ::
  "externals \<Rightarrow> json \<Rightarrow> string \<Rightarrow> string \<Rightarrow> jobject \<Rightarrow> json \<Rightarrow> ExtractionResult result" where
  "extract_unclassified X payload eid vid flds raw_event_type =
     bindE (resolve_field X payload (jget flds ''summary'')) (\<lambda>summary_raw.
     bindE (resolve_field X payload (jget flds ''reason'')) (\<lambda>reason_raw.
     bindE (new_unclassified
       \<lparr>ev_event_id = eid, ev_vendor_id = vid, ev_schema_version = ''v1'',
        ev_source = DETERMINISTIC, ev_confidence = 90/100,
        un_summary = map_option (take 500) (str_or_none X summary_raw),
        un_reason = Some (if truthy reason_raw then pstr X reason_raw
                          else ''schema_driven_unclassified'')\<rparr>) (\<lambda>ev.
     Inr (extraction_success (Unclassified ev) (str_or_none X raw_event_type)))))"

section \<open>The entry point\<close>

text \<open>\<open>schema_doc.get("fields", {})\<close>, used as a dictionary right away.\<close>

definition schema_fields :: "jobject \<Rightarrow> jobject result" where
  "schema_fields doc = (case map_of doc ''fields'' of
       None \<Rightarrow> Inr []
     | Some (JObj flds) \<Rightarrow> Inr flds
     | Some _ \<Rightarrow> Inl AttributeError)"

text \<open>\<open>classification or schema_doc.get("classification")\<close>.\<close>

definition effective_class :: "jobject \<Rightarrow> string option \<Rightarrow> json" where
  "effective_class schema_doc override = (case override of
       Some c \<Rightarrow> if c \<noteq> [] then JStr c else jget schema_doc ''classification''
     | None \<Rightarrow> jget schema_doc ''classification'')"

definition extract_as ::
  "externals \<Rightarrow> json \<Rightarrow> string \<Rightarrow> string \<Rightarrow> jobject \<Rightarrow> string option \<Rightarrow> json \<Rightarrow>
     ExtractionResult result" where
  "extract_as X payload eid vid schema_doc canonical_state cls =
     (if \<not> truthy cls then Inr (extraction_failure None ''no classification in schema_doc'' None)
      else
        bindE (schema_fields schema_doc) (\<lambda>flds.
        bindE (resolve_field X payload (jget flds ''event_type'')) (\<lambda>raw_event_type.
        if cls = JStr ''unclassified'' then extract_unclassified X payload eid vid flds raw_event_type
        else (case canonical_state of
            None \<Rightarrow> Inr (extraction_failure (str_or_none X raw_event_type) ''canonical_state not resolved'' None)
          | Some state \<Rightarrow>
              if cls = JStr ''shipment'' then extract_shipment X payload eid vid flds state raw_event_type
              else if cls = JStr ''invoice'' then extract_invoice X payload eid vid flds state raw_event_type
              else Inr (extraction_failure None (''unknown classification: '' @ pstr X cls) None)))))"

definition extract_event ::
  "externals \<Rightarrow> json \<Rightarrow> string \<Rightarrow> string \<Rightarrow> jobject \<Rightarrow> string option \<Rightarrow> string option \<Rightarrow>
     ExtractionResult result" where
  "extract_event X payload eid vid schema_doc canonical_state override =
     extract_as X payload eid vid schema_doc canonical_state (effective_class schema_doc override)"

section \<open>What an extraction returns\<close>

lemma catch_parse_Inr: "catch_parse m h f = Inr y \<longleftrightarrow>
    (\<exists>x. m = Inr x \<and> f x = Inr y) \<or>
    (\<exists>e. m = Inl e \<and> (is_value_error e \<or> e = TypeError) \<and> h e = Inr y)"
  by (auto simp: catch_parse_def split: sum.splits)

lemma extraction_result_simps [simp]:
  "\<not> ex_success (extraction_failure raw err missing)"
  "ex_canonical_event (extraction_failure raw err missing) = None"
  "ex_raw_event_type (extraction_failure raw err missing) = raw"
  "ex_error (extraction_failure raw err missing) = Some err"
  "ex_success (extraction_success ev raw)"
  "ex_canonical_event (extraction_success ev raw) = Some ev"
  "ex_raw_event_type (extraction_success ev raw) = raw"
  "ex_error (extraction_success ev raw) = None"
  by (simp_all add: extraction_failure_def extraction_success_def)

lemma required_fields_Inr:
  "required_fields X payload flds = Inr (Inr (i, ts)) \<longleftrightarrow>
     resolve_entity_id X payload flds = Inr (Some i) \<and> i \<noteq> [] \<and>
     resolve_field X payload (jget flds ''event_timestamp'') = Inr ts \<and> truthy ts"
  by (auto simp: required_fields_def bindE_eq_Inr Let_def split: option.splits if_splits)

lemma extract_shipment_success:
  assumes "extract_shipment X payload eid vid flds state raw = Inr r" "ex_success r"
  obtains s ts where "ex_canonical_event r = Some (Shipment s)" "shipment_valid s"
    "ev_event_id s = eid" "ev_vendor_id s = vid" "ev_source s = DETERMINISTIC"
    "ev_confidence s = 92/100" "state = shipment_event_value (sh_event_type s)"
    "resolve_entity_id X payload flds = Inr (Some (sh_external_id s))" "sh_external_id s \<noteq> []"
    "resolve_field X payload (jget flds ''event_timestamp'') = Inr ts"
    "parse_timestamp X (JStr (pstr X ts)) = Inr (sh_timestamp s)"
    "extract_map payload (jget flds ''reference_ids'') = Inr (sh_reference_ids s)"
    "ex_raw_event_type r = str_or_none X raw"
proof -
  obtain req where req: "required_fields X payload flds = Inr req"
    using assms(1) by (auto simp: extract_shipment_def Let_def bindE_eq_Inr)
  show ?thesis
  proof (cases req)
    case (Inl missing)
    with assms req show ?thesis by (auto simp: extract_shipment_def Let_def)
  next
    case (Inr p)
    obtain i ts where p: "p = (i, ts)" by (cases p)
    note need = req [unfolded Inr p required_fields_Inr]
    obtain t where t: "parse_timestamp X (JStr (pstr X ts)) = Inr t"
        and rest: "(case shipment_event_of state of
            Inl _ \<Rightarrow> Inr (extraction_failure (str_or_none X raw) (''invalid shipment state: '' @ state) None)
          | Inr event_type \<Rightarrow>
              bindE (extract_location X payload (jget flds ''location'')) (\<lambda>location.
              bindE (extract_map payload (jget flds ''reference_ids'')) (\<lambda>reference_ids.
              bindE (resolve_field X payload (jget flds ''raw_milestone'')) (\<lambda>raw_milestone.
              bindE (new_shipment
                \<lparr>ev_event_id = eid, ev_vendor_id = vid, ev_schema_version = ''v1'',
                 ev_source = DETERMINISTIC, ev_confidence = 92/100,
                 sh_external_id = i, sh_event_type = event_type, sh_timestamp = t,
                 sh_reference_ids = reference_ids, sh_location = location,
                 sh_raw_milestone = str_or_none X raw_milestone\<rparr>) (\<lambda>ev.
              Inr (extraction_success (Shipment ev) (str_or_none X raw))))))) = Inr r"
      using assms req Inr p
      by (auto simp: extract_shipment_def Let_def catch_parse_Inr)
    from rest assms(2) obtain k where "shipment_event_of state = Inr k"
      by (cases "shipment_event_of state") auto
    then have k: "state = shipment_event_value k" by (simp add: shipment_event_of_Inr)
    from rest k obtain l m rm e where tail: "extract_map payload (jget flds ''reference_ids'') = Inr m"
        "new_shipment
                \<lparr>ev_event_id = eid, ev_vendor_id = vid, ev_schema_version = ''v1'',
                 ev_source = DETERMINISTIC, ev_confidence = 92/100,
                 sh_external_id = i, sh_event_type = k, sh_timestamp = t,
                 sh_reference_ids = m, sh_location = l, sh_raw_milestone = rm\<rparr> = Inr e"
        "r = extraction_success (Shipment e) (str_or_none X raw)"
      by (auto simp: bindE_eq_Inr)
    from event_valid_new(1) [OF tail(2), unfolded event_valid.simps] have valid: "shipment_valid e" and
      e: "e = \<lparr>ev_event_id = eid, ev_vendor_id = vid, ev_schema_version = ''v1'',
                 ev_source = DETERMINISTIC, ev_confidence = 92/100,
                 sh_external_id = i, sh_event_type = k, sh_timestamp = t,
                 sh_reference_ids = m, sh_location = l, sh_raw_milestone = rm\<rparr>"
      by (rule conjunct1, rule conjunct2)
    show ?thesis
      by (rule that [of e ts, OF _ valid]) (use tail(1,3) k need t in \<open>simp_all add: e\<close>)
  qed
qed

lemma extract_amount_valid:
  assumes "extract_amount X payload spec = Inr (Some m)"
  shows "money_valid m"
proof -
  obtain raw where "bindE (parse_money (JStr (pstr X raw))) (\<lambda>(currency, amount_minor).
      new_money currency amount_minor) = Inr m"
    using assms
    by (auto simp: extract_amount_def bindE_eq_Inr case_result_eq split: if_split_asm)
  then show ?thesis by (auto simp: bindE_eq_Inr new_money_def Let_def split: if_split_asm)
qed

lemma extract_invoice_success:
  assumes "extract_invoice X payload eid vid flds state raw = Inr r" "ex_success r"
  obtains s ts where "ex_canonical_event r = Some (Invoice s)" "invoice_valid s"
    "ev_event_id s = eid" "ev_vendor_id s = vid" "ev_source s = DETERMINISTIC"
    "ev_confidence s = 92/100" "state = invoice_event_value (in_event_type s)"
    "resolve_entity_id X payload flds = Inr (Some (in_external_id s))" "in_external_id s \<noteq> []"
    "resolve_field X payload (jget flds ''event_timestamp'') = Inr ts"
    "parse_timestamp X (JStr (pstr X ts)) = Inr (in_timestamp s)"
    "case in_due_at s of None \<Rightarrow> True | Some d \<Rightarrow> is_utc d \<and> dt_valid d"
    "ex_raw_event_type r = str_or_none X raw"
proof -
  have due: "case d of None \<Rightarrow> True | Some d \<Rightarrow> is_utc d \<and> dt_valid d"
    if "(if truthy v then catch_parse (parse_timestamp X (JStr (pstr X v))) (\<lambda>e. Inr None)
          (\<lambda>t. Inr (Some t)) else Inr None) = Inr d" for v d
    using that by (auto simp: catch_parse_Inr dest: parse_timestamp_utc split: if_splits)
  obtain req where req: "required_fields X payload flds = Inr req"
    using assms(1) by (auto simp: extract_invoice_def Let_def bindE_eq_Inr)
  show ?thesis
  proof (cases req)
    case (Inl missing)
    with assms req show ?thesis by (auto simp: extract_invoice_def Let_def)
  next
    case (Inr p)
    obtain i ts where p: "p = (i, ts)" by (cases p)
    note need = req [unfolded Inr p required_fields_Inr]
    obtain t where t: "parse_timestamp X (JStr (pstr X ts)) = Inr t"
        and rest: "(case invoice_event_of state of
            Inl _ \<Rightarrow> Inr (extraction_failure (str_or_none X raw) (''invalid invoice state: '' @ state) None)
          | Inr event_type \<Rightarrow>
              bindE (extract_amount X payload (jget flds ''amount'')) (\<lambda>amount.
              bindE (resolve_field X payload (jget flds ''due_at'')) (\<lambda>due_raw.
              bindE (if truthy due_raw
                     then catch_parse (parse_timestamp X (JStr (pstr X due_raw)))
                            (\<lambda>e. Inr None) (\<lambda>t. Inr (Some t))
                     else Inr None) (\<lambda>due_at.
              bindE (extract_map payload (jget flds ''linked_references'')) (\<lambda>linked_refs.
              bindE (resolve_field X payload (jget flds ''raw_kind'')) (\<lambda>raw_kind.
              bindE (new_invoice
                \<lparr>ev_event_id = eid, ev_vendor_id = vid, ev_schema_version = ''v1'',
                 ev_source = DETERMINISTIC, ev_confidence = 92/100,
                 in_external_id = i, in_event_type = event_type, in_timestamp = t,
                 in_amount = amount, in_due_at = due_at, in_linked_references = linked_refs,
                 in_raw_kind = str_or_none X raw_kind\<rparr>) (\<lambda>ev.
              Inr (extraction_success (Invoice ev) (str_or_none X raw))))))))) = Inr r"
      using assms req Inr p
      by (auto simp: extract_invoice_def Let_def catch_parse_Inr)
    from rest assms(2) obtain k where "invoice_event_of state = Inr k"
      by (cases "invoice_event_of state") auto
    then have k: "state = invoice_event_value k" by (simp add: invoice_event_of_Inr)
    from rest k obtain a d e ds ls rk where tail: "extract_amount X payload (jget flds ''amount'') = Inr a"
        "(if truthy d then catch_parse (parse_timestamp X (JStr (pstr X d))) (\<lambda>e. Inr None)
          (\<lambda>t. Inr (Some t)) else Inr None) = Inr ds"
        "new_invoice
                \<lparr>ev_event_id = eid, ev_vendor_id = vid, ev_schema_version = ''v1'',
                 ev_source = DETERMINISTIC, ev_confidence = 92/100,
                 in_external_id = i, in_event_type = k, in_timestamp = t,
                 in_amount = a, in_due_at = ds, in_linked_references = ls,
                 in_raw_kind = rk\<rparr> = Inr e" "r = extraction_success (Invoice e) (str_or_none X raw)"
      by (auto simp: bindE_eq_Inr)
    from event_valid_new(2) [OF tail(3), unfolded event_valid.simps] have valid: "invoice_valid e" and
      e: "e = \<lparr>ev_event_id = eid, ev_vendor_id = vid, ev_schema_version = ''v1'',
                 ev_source = DETERMINISTIC, ev_confidence = 92/100,
                 in_external_id = i, in_event_type = k, in_timestamp = t,
                 in_amount = a, in_due_at = ds, in_linked_references = ls,
                 in_raw_kind = rk\<rparr>"
      by (rule conjunct1, rule conjunct2)
    show ?thesis
      by (rule that [of e ts, OF _ valid])
        (use due [OF tail(2)] tail(4) k need t in \<open>simp_all add: e\<close>)
  qed
qed

lemma extract_unclassified_success:
  assumes "extract_unclassified X payload eid vid flds raw = Inr r"
  obtains u where "ex_success r" "ex_canonical_event r = Some (Unclassified u)" "base_valid u"
    "ev_event_id u = eid" "ev_vendor_id u = vid" "ev_source u = DETERMINISTIC"
    "ev_confidence u = 90/100" "un_reason u \<noteq> None" "ex_raw_event_type r = str_or_none X raw"
  using assms
  by (auto simp: extract_unclassified_def bindE_eq_Inr new_unclassified_def split: if_splits)

text \<open>A successful extraction, whatever the schema document says.\<close>

lemma extract_event_cases:
  assumes "extract_event X payload eid vid doc state override = Inr r" "ex_success r"
  obtains (shipment) flds raw st where "state = Some st"
      "extract_shipment X payload eid vid flds st raw = Inr r" "schema_fields doc = Inr flds"
      "resolve_field X payload (jget flds ''event_type'') = Inr raw"
  | (invoice) flds raw st where "state = Some st"
      "extract_invoice X payload eid vid flds st raw = Inr r" "schema_fields doc = Inr flds"
      "resolve_field X payload (jget flds ''event_type'') = Inr raw"
  | (unclassified) flds raw where "extract_unclassified X payload eid vid flds raw = Inr r"
      "schema_fields doc = Inr flds" "resolve_field X payload (jget flds ''event_type'') = Inr raw"
  using assms
  by (auto simp: extract_event_def extract_as_def bindE_eq_Inr split: if_split_asm option.split_asm)

definition deterministic_event :: "string \<Rightarrow> string \<Rightarrow> CanonicalEvent \<Rightarrow> bool" where
  "deterministic_event eid vid ev \<longleftrightarrow>
     event_valid ev \<and> event_id ev = eid \<and> vendor_id ev = vid \<and>
     (case ev of
        Shipment s \<Rightarrow> ev_source s = DETERMINISTIC \<and> sh_external_id s \<noteq> [] \<and>
          is_utc (sh_timestamp s) \<and> dt_valid (sh_timestamp s)
      | Invoice i \<Rightarrow> ev_source i = DETERMINISTIC \<and> in_external_id i \<noteq> [] \<and>
          is_utc (in_timestamp i) \<and> dt_valid (in_timestamp i) \<and>
          (case in_due_at i of None \<Rightarrow> True | Some d \<Rightarrow> is_utc d \<and> dt_valid d)
      | Unclassified u \<Rightarrow> ev_source u = DETERMINISTIC \<and> un_reason u \<noteq> None)"

lemma extract_event_success:
  assumes "extract_event X payload eid vid doc state override = Inr r" "ex_success r"
  shows "\<exists>ev. ex_canonical_event r = Some ev \<and> deterministic_event eid vid ev"
  using assms
proof (cases rule: extract_event_cases)
  case (shipment flds raw st)
  from extract_shipment_success [OF shipment(2) assms(2)] obtain s ts
    where "ex_canonical_event r = Some (Shipment s)" "shipment_valid s" "ev_event_id s = eid"
      "ev_vendor_id s = vid" "ev_source s = DETERMINISTIC" "sh_external_id s \<noteq> []"
      "parse_timestamp X (JStr (pstr X ts)) = Inr (sh_timestamp s)" by metis
  then show ?thesis by (auto simp: deterministic_event_def dest: parse_timestamp_utc)
next
  case (invoice flds raw st)
  from extract_invoice_success [OF invoice(2) assms(2)] obtain s ts
    where "ex_canonical_event r = Some (Invoice s)" "invoice_valid s" "ev_event_id s = eid"
      "ev_vendor_id s = vid" "ev_source s = DETERMINISTIC" "in_external_id s \<noteq> []"
      "parse_timestamp X (JStr (pstr X ts)) = Inr (in_timestamp s)"
      "case in_due_at s of None \<Rightarrow> True | Some d \<Rightarrow> is_utc d \<and> dt_valid d" by metis
  then show ?thesis by (auto simp: deterministic_event_def dest: parse_timestamp_utc)
next
  case (unclassified flds raw)
  from extract_unclassified_success [OF unclassified(1)] obtain u
    where "ex_canonical_event r = Some (Unclassified u)" "base_valid u" "ev_event_id u = eid"
      "ev_vendor_id u = vid" "ev_source u = DETERMINISTIC" "un_reason u \<noteq> None" by metis
  then show ?thesis by (auto simp: deterministic_event_def)
qed

lemma extract_shipment_failure:
  assumes "extract_shipment X payload eid vid flds st raw = Inr r" "\<not> ex_success r"
  shows "ex_canonical_event r = None \<and> ex_error r \<noteq> None"
proof -
  obtain req where req: "required_fields X payload flds = Inr req"
    using assms(1) by (auto simp: extract_shipment_def Let_def bindE_eq_Inr)
  with assms show ?thesis
    by (cases req; cases "shipment_event_of st")
      (auto simp: extract_shipment_def Let_def bindE_eq_Inr catch_parse_Inr)
qed

lemma extract_invoice_failure:
  assumes "extract_invoice X payload eid vid flds st raw = Inr r" "\<not> ex_success r"
  shows "ex_canonical_event r = None \<and> ex_error r \<noteq> None"
proof -
  obtain req where req: "required_fields X payload flds = Inr req"
    using assms(1) by (auto simp: extract_invoice_def Let_def bindE_eq_Inr)
  with assms show ?thesis
    by (cases req; cases "invoice_event_of st")
      (auto simp: extract_invoice_def Let_def bindE_eq_Inr
        catch_parse_Inr [of "parse_timestamp X v" "\<lambda>e. Inr (h e)" for v h])
qed

lemma extract_event_failure:
  assumes "extract_event X payload eid vid doc state override = Inr r" "\<not> ex_success r"
  shows "ex_canonical_event r = None \<and> ex_error r \<noteq> None"
proof -
  have unc: "ex_success r" if "extract_unclassified X payload eid vid flds raw = Inr r" for flds raw
    using that by (rule extract_unclassified_success)
  show ?thesis
    using assms
    by (auto simp: extract_event_def extract_as_def bindE_eq_Inr
        dest: extract_shipment_failure extract_invoice_failure unc
        split: if_split_asm option.split_asm)
qed

section \<open>Properties\<close>

text \<open>A payload and a schema document for it.\<close>

definition sample_payload :: json where
  "sample_payload = JObj
     [(''transport_doc'', JObj [(''number'', JStr ''M1''), (''parts'', JArr [JInt 3])]),
      (''milestone'', JStr ''GTOT''), (''at'', JStr ''42'')]"

definition sample_schema :: jobject where
  "sample_schema =
     [(''classification'', JStr ''shipment''),
      (''fields'', JObj
        [(''entity_external_id'', JObj [(''template'', JStr ''{transport_doc.number}:{at}'')]),
         (''event_type'', JStr ''$.milestone''),
         (''event_timestamp'', JArr [JStr ''$.settled_at'', JStr ''$.at'']),
         (''reference_ids'', JObj [(''mbl'', JStr ''$.transport_doc.number''),
                                  (''part'', JStr ''$.transport_doc.parts[0]''),
                                  (''none'', JStr ''$.nothing'')])])]"

definition sample_extraction :: ExtractionResult where
  "sample_extraction = extraction_success (Shipment
     \<lparr>ev_event_id = ''e1'', ev_vendor_id = ''maersk'', ev_schema_version = ''v1'',
      ev_source = DETERMINISTIC, ev_confidence = 92/100, sh_external_id = ''M1:42'',
      sh_event_type = ev_IN_TRANSIT, sh_timestamp = \<lparr>dt_wall = 42000000, dt_off = Some 0\<rparr>,
      sh_reference_ids = [(''mbl'', JStr ''M1''), (''part'', JInt 3)], sh_location = None,
      sh_raw_milestone = None\<rparr>) (Some ''GTOT'')"

lemma sample_extraction_run:
  "extract_event sample_X sample_payload ''e1'' ''maersk'' sample_schema
     (Some ''shipment.in_transit'') None = Inr sample_extraction"
  by code_simp

text \<open>C35: an extraction either produces a usable event or says why not.  Whatever the schema document
  contains, when \<open>extract\<close> returns successfully there is an event, pydantic's validators accept it,
  it carries the given event and vendor id, a non-empty entity id, times in UTC and the source
  \<open>deterministic\<close>; when it returns without success there is no event and there is an error text.\<close>

theorem extraction_is_valid_or_explained:
  assumes "extract_event X payload eid vid doc state override = Inr r"
  shows "if ex_success r
         then \<exists>ev. ex_canonical_event r = Some ev \<and> deterministic_event eid vid ev
         else ex_canonical_event r = None \<and> ex_error r \<noteq> None"
  using extract_event_success [OF assms] extract_event_failure [OF assms] by simp

lemma extraction_is_valid_or_explained_witness:
  "\<exists>ev. ex_canonical_event sample_extraction = Some ev \<and> deterministic_event ''e1'' ''maersk'' ev"
  using extraction_is_valid_or_explained [OF sample_extraction_run]
  by (simp add: sample_extraction_def)

text \<open>An extracted shipment is what the payload says at the declared places.  Its entity id is
  the resolved id spec, its type is the canonical state passed in, its time is the parsed text at
  the timestamp spec (the first path of a fallback list that has a value), and its reference ids
  are exactly the declared labels whose paths have a value, with that value.\<close>

lemma extracted_shipment_comes_from_payload:
  assumes "extract_shipment X payload eid vid flds state raw = Inr r" "ex_success r"
    "jget flds ''reference_ids'' = JObj items"
  shows "\<exists>s ts. ex_canonical_event r = Some (Shipment s) \<and>
     resolve_entity_id X payload flds = Inr (Some (sh_external_id s)) \<and>
     shipment_event_value (sh_event_type s) = state \<and>
     resolve_field X payload (jget flds ''event_timestamp'') = Inr ts \<and>
     parse_timestamp X (JStr (pstr X ts)) = Inr (sh_timestamp s) \<and>
     (\<forall>k v. (k, v) \<in> set (sh_reference_ids s) \<longleftrightarrow>
        v \<noteq> JNull \<and> (\<exists>path. (k, path) \<in> set items \<and> resolve_path payload path = Inr v))"
proof -
  have items: "(k, v) \<in> set refs \<longleftrightarrow>
      v \<noteq> JNull \<and> (\<exists>path. (k, path) \<in> set its \<and> resolve_path payload path = Inr v)"
    if "extract_items payload its = Inr refs" for its refs k v
    using that
  proof (induction its arbitrary: refs)
    case (Cons x its)
    obtain k' path where x: "x = (k', path)" by (cases x)
    with Cons.prems obtain val rest where "resolve_path payload path = Inr val"
        "extract_items payload its = Inr rest" "refs = (if val \<noteq> JNull then (k', val) # rest else rest)"
      by (auto simp: bindE_eq_Inr)
    with Cons.IH [of rest] x show ?case by auto
  qed simp
  from extract_shipment_success [OF assms(1,2)] obtain s ts where s:
    "ex_canonical_event r = Some (Shipment s)" "state = shipment_event_value (sh_event_type s)"
    "resolve_entity_id X payload flds = Inr (Some (sh_external_id s))"
    "resolve_field X payload (jget flds ''event_timestamp'') = Inr ts"
    "parse_timestamp X (JStr (pstr X ts)) = Inr (sh_timestamp s)"
    "extract_map payload (jget flds ''reference_ids'') = Inr (sh_reference_ids s)" by metis
  then have "extract_items payload items = Inr (sh_reference_ids s)"
    using assms(3) by (simp add: extract_map_def)
  from items [OF this] s show ?thesis by auto
qed

lemma extracted_shipment_comes_from_payload_witness:
  "resolve_entity_id sample_X sample_payload
     [(''entity_external_id'', JStr ''$.transport_doc.number''), (''event_timestamp'', JStr ''$.at''),
      (''reference_ids'', JObj [(''mbl'', JStr ''$.transport_doc.number'')])] = Inr (Some ''M1'')"
proof -
  let ?flds = "[(''entity_external_id'', JStr ''$.transport_doc.number''), (''event_timestamp'', JStr ''$.at''),
      (''reference_ids'', JObj [(''mbl'', JStr ''$.transport_doc.number'')])]"
  let ?r = "extract_shipment sample_X sample_payload ''e1'' ''maersk'' ?flds ''shipment.delivered'' JNull"
  have ext: "map_option (\<lambda>ev. case ev of Shipment s \<Rightarrow> sh_external_id s | _ \<Rightarrow> [])
      (ex_canonical_event (projr ?r)) = Some ''M1''" by code_simp
  have "is_ok ?r" "ex_success (projr ?r)" by code_simp+
  then have "?r = Inr (projr ?r)" by (auto simp: is_ok_iff)
  from extracted_shipment_comes_from_payload [OF this \<open>ex_success (projr ?r)\<close>,
      of "[(''mbl'', JStr ''$.transport_doc.number'')]"]
  obtain s where "ex_canonical_event (projr ?r) = Some (Shipment s)"
      "resolve_entity_id sample_X sample_payload ?flds = Inr (Some (sh_external_id s))" by auto
  with ext show ?thesis by simp
qed

end
