(* ===== verification/Lifecycle.thy ===== *)
theory Lifecycle
  imports Prelude
begin

text \<open>
  The abstract contract of the two projections of \<open>app/domain/state_machine.py\<close>: an entity is a
  set of seen event ids and, after its first event, a state with the time of the last applied
  event and a version.  \<open>life_apply\<close> is one event, \<open>life_run\<close> a sequence.  The locale \<open>lifecycle\<close>
  proves the consequences once for any transition table, \<open>ranked_lifecycle\<close> those of a table
  without cycles.
\<close>

datatype ApplyOutcome =
    Applied
  | AppliedInitial
  | AlreadyApplied
  | StaleSkipped
  | TransitionRejected
  | UnclassifiedRecorded

record 'st proj =
  p_state :: 'st
  p_ts :: int
  p_version :: int

text \<open>
  A new event with target state \<open>target\<close> and time \<open>ts\<close> on a projection.  \<open>same\<close> tells whether an
  event whose target is the current state counts as applied.
\<close>

definition life_step ::
  "('st option \<Rightarrow> 'st set) \<Rightarrow> bool \<Rightarrow> 'st \<Rightarrow> int \<Rightarrow> 'st proj option \<Rightarrow> ApplyOutcome \<times> 'st proj option"
where
  "life_step moves same target ts p = (case p of
       None \<Rightarrow> (AppliedInitial, Some \<lparr>p_state = target, p_ts = ts, p_version = 1\<rparr>)
     | Some r \<Rightarrow>
         if ts < p_ts r then (StaleSkipped, Some r)
         else if target \<in> moves (Some (p_state r)) \<or> same \<and> target = p_state r
         then (Applied, Some \<lparr>p_state = target, p_ts = ts, p_version = p_version r + 1\<rparr>)
         else (TransitionRejected, Some r))"

type_synonym 'st life = "string set \<times> 'st proj option"

type_synonym 'st life_event = "string \<times> 'st \<times> int"

fun life_apply ::
  "('st option \<Rightarrow> 'st set) \<Rightarrow> bool \<Rightarrow> 'st life_event \<Rightarrow> 'st life \<Rightarrow> ApplyOutcome \<times> 'st life"
where
  "life_apply moves same (e, target, ts) (seen, p) =
     (if e \<in> seen then (AlreadyApplied, (seen, p))
      else (case life_step moves same target ts p of (out, p') \<Rightarrow> (out, (insert e seen, p'))))"

fun life_run ::
  "('st option \<Rightarrow> 'st set) \<Rightarrow> bool \<Rightarrow> 'st life_event list \<Rightarrow> 'st life \<Rightarrow> 'st life"
where
  "life_run moves same [] l = l"
| "life_run moves same (ev # evs) l = life_run moves same evs (snd (life_apply moves same ev l))"

lemma life_run_append:
  "life_run moves same (xs @ ys) l = life_run moves same ys (life_run moves same xs l)"
  by (induction xs arbitrary: l) simp_all

section \<open>Any transition table\<close>

locale lifecycle =
  fixes moves :: "'st option \<Rightarrow> 'st set"
    and same :: bool
  assumes no_self: "s \<notin> moves (Some s)"
begin

lemma step_outcome_proj:
  assumes "life_step moves same target ts p = (out, p')"
  shows "p' \<noteq> None"
    and "out \<in> {StaleSkipped, TransitionRejected} \<Longrightarrow> p' = p"
    and "out \<noteq> AlreadyApplied" "out \<noteq> UnclassifiedRecorded"
  using assms by (auto simp: life_step_def split: option.splits if_splits)

lemma step_version:
  assumes "life_step moves same target ts (Some r) = (out, Some r')"
  shows "p_version r' = p_version r + (if out = Applied then 1 else 0)"
  using assms by (auto simp: life_step_def split: if_splits)

lemma step_time_monotone:
  assumes "life_step moves same target ts (Some r) = (out, Some r')"
  shows "p_ts r \<le> p_ts r'" and "out = Applied \<Longrightarrow> p_ts r' = ts"
  using assms by (auto simp: life_step_def split: if_splits)

lemma step_transition:
  assumes "life_step moves same target ts (Some r) = (out, Some r')"
  shows "p_state r' = p_state r \<or> p_state r' = target \<and> target \<in> moves (Some (p_state r))"
  using assms by (auto simp: life_step_def split: if_splits)

lemma step_terminal:
  assumes "moves (Some (p_state r)) = {}"
    and "life_step moves same target ts (Some r) = (out, Some r')"
  shows "p_state r' = p_state r"
  using step_transition [OF assms(2)] assms(1) by auto

lemma repeat_rejected:
  assumes "\<not> same" "p_ts r \<le> ts"
  shows "life_step moves same (p_state r) ts (Some r) = (TransitionRejected, Some r)"
  using assms no_self by (simp add: life_step_def)

text \<open>What every event sequence keeps of a projection once it exists.\<close>

definition steps_to :: "'st proj \<Rightarrow> 'st proj \<Rightarrow> bool" where
  "steps_to r r' \<longleftrightarrow>
     (p_state r, p_state r') \<in> {(a, b). b \<in> moves (Some a)}\<^sup>* \<and>
     p_ts r \<le> p_ts r' \<and> p_version r \<le> p_version r' \<and>
     (p_version r' = p_version r \<longrightarrow> r' = r)"

lemma steps_to_refl: "steps_to r r"
  by (simp add: steps_to_def)

lemma steps_to_trans: "steps_to a b \<Longrightarrow> steps_to b c \<Longrightarrow> steps_to a c"
  by (auto simp: steps_to_def)

lemma apply_steps_to:
  assumes "life_apply moves same ev (seen, Some r) = (out, (seen', p'))"
  shows "\<exists>r'. p' = Some r' \<and> steps_to r r'"
  using assms
  by (cases ev) (auto simp: life_step_def steps_to_def split: if_splits)

lemma run_steps_to:
  "life_run moves same evs (seen, Some r) = (seen', p') \<Longrightarrow> \<exists>r'. p' = Some r' \<and> steps_to r r'"
proof (induction evs arbitrary: seen r)
  case Nil
  then show ?case using steps_to_refl by auto
next
  case (Cons ev evs)
  obtain out seen1 p1 where step: "life_apply moves same ev (seen, Some r) = (out, (seen1, p1))"
    by (metis prod_cases3)
  then obtain r1 where "p1 = Some r1" "steps_to r r1" using apply_steps_to by blast
  with Cons step show ?case by (force intro: steps_to_trans)
qed

lemma run_terminal:
  assumes "moves (Some (p_state r)) = {}"
    and "life_run moves same evs (seen, Some r) = (seen', Some r')"
  shows "p_state r' = p_state r"
proof -
  have "(p_state r, p_state r') \<in> {(a, b). b \<in> moves (Some a)}\<^sup>*"
    using run_steps_to [OF assms(2)] by (auto simp: steps_to_def)
  with assms(1) show ?thesis by (auto elim: converse_rtranclE)
qed

lemma run_seen: "fst (life_run moves same evs l) = fst l \<union> fst ` set evs"
proof (induction evs arbitrary: l)
  case (Cons ev evs)
  then show ?case
    by (cases ev; cases l) (auto simp: image_iff split: prod.splits)
qed simp

lemma run_all_seen: "fst ` set evs \<subseteq> fst l \<Longrightarrow> life_run moves same evs l = l"
proof (induction evs arbitrary: l)
  case (Cons ev evs)
  then show ?case by (cases ev; cases l) auto
qed simp

lemma run_twice: "life_run moves same (evs @ evs) l = life_run moves same evs l"
  by (simp add: life_run_append run_all_seen run_seen)

end

section \<open>Tables without cycles\<close>

locale ranked_lifecycle = lifecycle +
  fixes rank :: "'a \<Rightarrow> nat"
  assumes rank_decreases: "t \<in> moves (Some s) \<Longrightarrow> rank t < rank s"
begin

lemma steps_rank: "steps_to r r' \<Longrightarrow> rank (p_state r') \<le> rank (p_state r)"
proof -
  assume "steps_to r r'"
  then have "(p_state r, p_state r') \<in> {(a, b). b \<in> moves (Some a)}\<^sup>*"
    by (simp add: steps_to_def)
  then show ?thesis
    by (induction rule: rtrancl_induct) (auto dest: rank_decreases)
qed

text \<open>A state that was left is never entered again.\<close>

lemma never_reentered:
  assumes "steps_to a b" "steps_to b c" "p_state b \<noteq> p_state a"
  shows "p_state c \<noteq> p_state a"
proof -
  have "(p_state a, p_state b) \<in> {(a, b). b \<in> moves (Some a)}\<^sup>*"
    using assms(1) by (simp add: steps_to_def)
  with assms(3) obtain s where s: "s \<in> moves (Some (p_state a))"
      "(s, p_state b) \<in> {(a, b). b \<in> moves (Some a)}\<^sup>*"
    by (auto elim: converse_rtranclE)
  from s(2) have "rank (p_state b) \<le> rank s"
    by (induction rule: rtrancl_induct) (auto dest: rank_decreases)
  with s(1) have "rank (p_state b) < rank (p_state a)" using rank_decreases by fastforce
  with steps_rank [OF assms(2)] show ?thesis by auto
qed

end

end
