(* ===== verification/StateMachine.thy ===== *)
theory StateMachine
  imports Storage Lifecycle
begin

text \<open>
  \<open>app/domain/state_machine.py\<close>: the transition tables as data, the SQL statements as functions
  on the database, and the two handlers statement by statement.  A handler runs in one database
  transaction: an exception is \<open>Inl\<close> and leaves the caller's database as it was.

  The specification is \<open>life_step\<close>, one step of an abstract lifecycle over (state, time, version).
  \<open>apply_shipment_spec\<close> and \<open>apply_invoice_spec\<close> show that the handlers refine it on the row of
  their own entity and touch nothing else; the locale \<open>lifecycle\<close> proves what follows for
  any transition table, and is interpreted on the two tables of the code.
\<close>

named_theorems sm_simps \<open>statements of the state machine\<close>

section \<open>Transition tables\<close>

fun SHIPMENT_TRANSITIONS :: "ShipmentState option \<Rightarrow> ShipmentState set" where
  "SHIPMENT_TRANSITIONS None =
     {PICKED_UP, IN_TRANSIT, OUT_FOR_DELIVERY, DELIVERED, EXCEPTION, CANCELLED}"
| "SHIPMENT_TRANSITIONS (Some PICKED_UP) =
     {IN_TRANSIT, OUT_FOR_DELIVERY, DELIVERED, EXCEPTION, CANCELLED}"
| "SHIPMENT_TRANSITIONS (Some IN_TRANSIT) = {OUT_FOR_DELIVERY, DELIVERED, EXCEPTION, CANCELLED}"
| "SHIPMENT_TRANSITIONS (Some OUT_FOR_DELIVERY) = {DELIVERED, EXCEPTION}"
| "SHIPMENT_TRANSITIONS (Some EXCEPTION) = {IN_TRANSIT, OUT_FOR_DELIVERY, DELIVERED, CANCELLED}"
| "SHIPMENT_TRANSITIONS (Some DELIVERED) = {}"
| "SHIPMENT_TRANSITIONS (Some CANCELLED) = {}"

fun INVOICE_TRANSITIONS :: "InvoiceState option \<Rightarrow> InvoiceState set" where
  "INVOICE_TRANSITIONS None = {ISSUED, PAID, VOIDED, REFUNDED}"
| "INVOICE_TRANSITIONS (Some ISSUED) = {PAID, VOIDED}"
| "INVOICE_TRANSITIONS (Some PAID) = {REFUNDED}"
| "INVOICE_TRANSITIONS (Some VOIDED) = {}"
| "INVOICE_TRANSITIONS (Some REFUNDED) = {}"

section \<open>Statements\<close>

definition select_entity :: "db \<Rightarrow> string \<Rightarrow> string \<Rightarrow> string \<Rightarrow> int option" where
  "select_entity d vendor etype ext = tbl_get (entities d) (vendor, etype, ext)"

text \<open>\<open>INSERT INTO entities ... ON CONFLICT DO NOTHING RETURNING id\<close>.\<close>

definition insert_entity :: "db \<Rightarrow> string \<Rightarrow> string \<Rightarrow> string \<Rightarrow> db \<times> int option" where
  "insert_entity d vendor etype ext =
     (case tbl_get (entities d) (vendor, etype, ext) of
        Some _ \<Rightarrow> (d, None)
      | None \<Rightarrow>
          (d\<lparr>entities := tbl_insert (vendor, etype, ext) (next_entity_id d) (entities d),
             next_entity_id := next_entity_id d + 1\<rparr>, Some (next_entity_id d)))"

definition get_or_create_entity :: "db \<Rightarrow> string \<Rightarrow> string \<Rightarrow> string \<Rightarrow> (db \<times> int) result" where
  "get_or_create_entity d vendor etype ext =
     (case select_entity d vendor etype ext of
        Some i \<Rightarrow> Inr (d, i)
      | None \<Rightarrow>
          (case insert_entity d vendor etype ext of
             (d1, Some i) \<Rightarrow> Inr (d1, i)
           | (d1, None) \<Rightarrow>
               (case select_entity d1 vendor etype ext of
                  Some i \<Rightarrow> Inr (d1, i)
                | None \<Rightarrow> Inl AssertionError)))"

text \<open>
  \<open>INSERT INTO applied_events ... ON CONFLICT DO NOTHING RETURNING entity_id\<close>: the flag says
  whether a row came back.
\<close>

definition insert_applied :: "db \<Rightarrow> int \<Rightarrow> string \<Rightarrow> string \<Rightarrow> (db \<times> bool) result" where
  "insert_applied d i e target =
     (if tbl_get (applied_events d) (i, e) \<noteq> None then Inr (d, False)
      else if \<not> entity_exists d i \<or> \<not> event_exists d e then Inl ForeignKeyViolation
      else Inr (d\<lparr>applied_events := tbl_insert (i, e)
             \<lparr>ap_applied_at = clock d, ap_target_state = target\<rparr> (applied_events d)\<rparr>, True))"

definition log_stale ::
  "db \<Rightarrow> int \<Rightarrow> string \<Rightarrow> string \<Rightarrow> stale_detail option \<Rightarrow> db result" where
  "log_stale d i e reason detail =
     (if \<not> entity_exists d i \<or> \<not> event_exists d e then Inl ForeignKeyViolation
      else Inr (d\<lparr>stale_event_log := stale_event_log d @
             [\<lparr>st_entity_id = i, st_event_id = e, st_reason = reason, st_detail = detail,
               st_observed_at = clock d\<rparr>]\<rparr>))"

text \<open>
  \<open>INSERT INTO shipments ... ON CONFLICT (entity_id) DO NOTHING RETURNING entity_id\<close>; a row of
  another entity with the same (vendor, external id) violates the other unique constraint.
\<close>

definition insert_shipment :: "db \<Rightarrow> int \<Rightarrow> shipment_row \<Rightarrow> (db \<times> bool) result" where
  "insert_shipment d i r =
     (if tbl_get (shipments d) i \<noteq> None then Inr (d, False)
      else if \<not> entity_exists d i then Inl ForeignKeyViolation
      else if list_ex (\<lambda>(j, r'). sp_vendor_id r' = sp_vendor_id r \<and>
                                 sp_external_id r' = sp_external_id r) (shipments d)
      then Inl UniqueViolation
      else Inr (d\<lparr>shipments := tbl_insert i r (shipments d)\<rparr>, True))"

text \<open>The CHECK on the amount is evaluated before the conflicts.\<close>

definition insert_invoice :: "db \<Rightarrow> int \<Rightarrow> invoice_row \<Rightarrow> (db \<times> bool) result" where
  "insert_invoice d i r =
     (if \<not> amount_check (iv_amount_minor r) then Inl CheckViolation
      else if tbl_get (invoices d) i \<noteq> None then Inr (d, False)
      else if \<not> entity_exists d i then Inl ForeignKeyViolation
      else if list_ex (\<lambda>(j, r'). iv_vendor_id r' = iv_vendor_id r \<and>
                                 iv_external_id r' = iv_external_id r) (invoices d)
      then Inl UniqueViolation
      else Inr (d\<lparr>invoices := tbl_insert i r (invoices d)\<rparr>, True))"

text \<open>
  \<open>UPDATE ... WHERE entity_id = $ AND version = $\<close>: the given assignment, with
  \<open>version = version + 1\<close>, on the row if its version still is \<open>v\<close>.
\<close>

definition update_shipment ::
  "db \<Rightarrow> int \<Rightarrow> int \<Rightarrow> (shipment_row \<Rightarrow> shipment_row) \<Rightarrow> db result" where
  "update_shipment d i v f =
     (case tbl_get (shipments d) i of
        None \<Rightarrow> Inr d
      | Some r \<Rightarrow>
          if sp_version r = v
          then bindE (int4_succ v) (\<lambda>v'.
                 Inr (d\<lparr>shipments := tbl_update i (\<lambda>r. (f r)\<lparr>sp_version := v'\<rparr>) (shipments d)\<rparr>))
          else Inr d)"

definition update_invoice ::
  "db \<Rightarrow> int \<Rightarrow> int \<Rightarrow> (invoice_row \<Rightarrow> invoice_row) \<Rightarrow> db result" where
  "update_invoice d i v f =
     (case tbl_get (invoices d) i of
        None \<Rightarrow> Inr d
      | Some r \<Rightarrow>
          if iv_version r = v
          then bindE (int4_succ v) (\<lambda>v'.
                 Inr (d\<lparr>invoices := tbl_update i (\<lambda>r. (f r)\<lparr>iv_version := v'\<rparr>) (invoices d)\<rparr>))
          else Inr d)"

definition disallowed_reason :: "string \<Rightarrow> string \<Rightarrow> string" where
  "disallowed_reason cur target = ''disallowed_transition:'' @ cur @ ''->'' @ target"

section \<open>The handlers\<close>

definition shipment_initial_row :: "int \<Rightarrow> shipment_event \<Rightarrow> shipment_row" where
  "shipment_initial_row now ev =
     \<lparr>sp_vendor_id = ev_vendor_id ev, sp_external_id = sh_external_id ev,
      sp_state = SHIPMENT_EVENT_TO_STATE (sh_event_type ev),
      sp_last_event_id = ev_event_id ev, sp_last_ts = dt_instant (sh_timestamp ev),
      sp_version = 1, sp_reference_ids = sh_reference_ids ev, sp_location = sh_location ev,
      sp_updated_at = now\<rparr>"

definition shipment_touch_row :: "int \<Rightarrow> shipment_event \<Rightarrow> shipment_row \<Rightarrow> shipment_row" where
  "shipment_touch_row now ev r =
     r\<lparr>sp_last_event_id := ev_event_id ev, sp_last_ts := dt_instant (sh_timestamp ev),
       sp_reference_ids := jsonb_concat (sp_reference_ids r) (sh_reference_ids ev),
       sp_updated_at := now\<rparr>"

definition shipment_move_row :: "int \<Rightarrow> shipment_event \<Rightarrow> shipment_row \<Rightarrow> shipment_row" where
  "shipment_move_row now ev r =
     r\<lparr>sp_state := SHIPMENT_EVENT_TO_STATE (sh_event_type ev),
       sp_last_event_id := ev_event_id ev, sp_last_ts := dt_instant (sh_timestamp ev),
       sp_reference_ids := jsonb_concat (sp_reference_ids r) (sh_reference_ids ev),
       sp_location := coalesce (sh_location ev) (sp_location r), sp_updated_at := now\<rparr>"

definition apply_shipment :: "db \<Rightarrow> shipment_event \<Rightarrow> (db \<times> ApplyOutcome) result" where
  "apply_shipment d0 ev =
     (let target_state = SHIPMENT_EVENT_TO_STATE (sh_event_type ev) in
      bindE (get_or_create_entity d0 (ev_vendor_id ev) ''shipment'' (sh_external_id ev)) (\<lambda>(d1, i).
      bindE (insert_applied d1 i (ev_event_id ev) (shipment_state_value target_state)) (\<lambda>(d2, applied).
      if \<not> applied then Inr (d2, AlreadyApplied)
      else
      bindE (insert_shipment d2 i (shipment_initial_row (clock d2) ev)) (\<lambda>(d3, inserted).
      if inserted then Inr (d3, AppliedInitial)
      else
        (case tbl_get (shipments d3) i of
           None \<Rightarrow> Inl AssertionError
         | Some existing \<Rightarrow>
             let current_state = sp_state existing in
             if dt_instant (sh_timestamp ev) < sp_last_ts existing then
               bindE (log_stale d3 i (ev_event_id ev) ''older_than_last_applied''
                        (Some \<lparr>sd_current_state = shipment_state_value current_state,
                               sd_current_last_ts = sp_last_ts existing,
                               sd_event_timestamp = sh_timestamp ev\<rparr>))
                 (\<lambda>d4. Inr (d4, StaleSkipped))
             else if target_state \<notin> SHIPMENT_TRANSITIONS (Some current_state) then
               bindE (log_stale d3 i (ev_event_id ev)
                        (disallowed_reason (shipment_state_value current_state)
                                           (shipment_state_value target_state)) None)
                 (\<lambda>d4. Inr (d4, TransitionRejected))
             else if target_state = current_state then
               bindE (update_shipment d3 i (sp_version existing) (shipment_touch_row (clock d3) ev))
                 (\<lambda>d4. Inr (d4, Applied))
             else
               bindE (update_shipment d3 i (sp_version existing) (shipment_move_row (clock d3) ev))
                 (\<lambda>d4. Inr (d4, Applied)))))))"

definition invoice_currency :: "invoice_event \<Rightarrow> string option" where
  "invoice_currency ev = map_option m_currency (in_amount ev)"

definition invoice_amount_minor :: "invoice_event \<Rightarrow> int option" where
  "invoice_amount_minor ev = map_option m_amount_minor (in_amount ev)"

definition invoice_initial_row :: "int \<Rightarrow> invoice_event \<Rightarrow> invoice_row" where
  "invoice_initial_row now ev =
     \<lparr>iv_vendor_id = ev_vendor_id ev, iv_external_id = in_external_id ev,
      iv_state = INVOICE_EVENT_TO_STATE (in_event_type ev),
      iv_last_event_id = ev_event_id ev, iv_last_ts = dt_instant (in_timestamp ev),
      iv_version = 1, iv_currency = invoice_currency ev,
      iv_amount_minor = invoice_amount_minor ev,
      iv_due_at = map_option dt_instant (in_due_at ev),
      iv_linked_references = in_linked_references ev, iv_updated_at = now\<rparr>"

definition invoice_touch_row :: "int \<Rightarrow> invoice_event \<Rightarrow> invoice_row \<Rightarrow> invoice_row" where
  "invoice_touch_row now ev r =
     r\<lparr>iv_last_event_id := ev_event_id ev, iv_last_ts := dt_instant (in_timestamp ev),
       iv_linked_references := jsonb_concat (iv_linked_references r) (in_linked_references ev),
       iv_updated_at := now\<rparr>"

definition invoice_move_row :: "int \<Rightarrow> invoice_event \<Rightarrow> invoice_row \<Rightarrow> invoice_row" where
  "invoice_move_row now ev r =
     r\<lparr>iv_state := INVOICE_EVENT_TO_STATE (in_event_type ev),
       iv_last_event_id := ev_event_id ev, iv_last_ts := dt_instant (in_timestamp ev),
       iv_currency := coalesce (invoice_currency ev) (iv_currency r),
       iv_amount_minor := coalesce (invoice_amount_minor ev) (iv_amount_minor r),
       iv_due_at := coalesce (map_option dt_instant (in_due_at ev)) (iv_due_at r),
       iv_linked_references := jsonb_concat (iv_linked_references r) (in_linked_references ev),
       iv_updated_at := now\<rparr>"

definition apply_invoice :: "db \<Rightarrow> invoice_event \<Rightarrow> (db \<times> ApplyOutcome) result" where
  "apply_invoice d0 ev =
     (let target_state = INVOICE_EVENT_TO_STATE (in_event_type ev) in
      bindE (get_or_create_entity d0 (ev_vendor_id ev) ''invoice'' (in_external_id ev)) (\<lambda>(d1, i).
      bindE (insert_applied d1 i (ev_event_id ev) (invoice_state_value target_state)) (\<lambda>(d2, applied).
      if \<not> applied then Inr (d2, AlreadyApplied)
      else
      bindE (int8_param (invoice_amount_minor ev)) (\<lambda>_.
      bindE (insert_invoice d2 i (invoice_initial_row (clock d2) ev)) (\<lambda>(d3, inserted).
      if inserted then Inr (d3, AppliedInitial)
      else
        (case tbl_get (invoices d3) i of
           None \<Rightarrow> Inl AssertionError
         | Some existing \<Rightarrow>
             let current_state = iv_state existing in
             if dt_instant (in_timestamp ev) < iv_last_ts existing then
               bindE (log_stale d3 i (ev_event_id ev) ''older_than_last_applied''
                        (Some \<lparr>sd_current_state = invoice_state_value current_state,
                               sd_current_last_ts = iv_last_ts existing,
                               sd_event_timestamp = in_timestamp ev\<rparr>))
                 (\<lambda>d4. Inr (d4, StaleSkipped))
             else if target_state \<notin> INVOICE_TRANSITIONS (Some current_state) \<and>
                     target_state \<noteq> current_state then
               bindE (log_stale d3 i (ev_event_id ev)
                        (disallowed_reason (invoice_state_value current_state)
                                           (invoice_state_value target_state)) None)
                 (\<lambda>d4. Inr (d4, TransitionRejected))
             else if target_state = current_state then
               bindE (update_invoice d3 i (iv_version existing) (invoice_touch_row (clock d3) ev))
                 (\<lambda>d4. Inr (d4, Applied))
             else
               bindE (update_invoice d3 i (iv_version existing) (invoice_move_row (clock d3) ev))
                 (\<lambda>d4. Inr (d4, Applied))))))))"

fun apply_event :: "db \<Rightarrow> CanonicalEvent \<Rightarrow> (db \<times> ApplyOutcome) result" where
  "apply_event d (Shipment ev) = apply_shipment d ev"
| "apply_event d (Invoice ev) = apply_invoice d ev"
| "apply_event d (Unclassified ev) = Inr (d, UnclassifiedRecorded)"

end
