(* ===== verification/Projection.thy ===== *)
theory Projection
  imports StateMachine
begin

text \<open>
  Correctness of the state machine: the database invariant \<open>db_ok\<close>, the handlers in closed form,
  and their refinement of the abstract lifecycle of \<open>Lifecycle\<close> on the entity of the event.
\<close>

section \<open>The database invariant\<close>

text \<open>
  The uniqueness and reference constraints of the migrations, and the agreement between a
  projection row and the entity it belongs to, which no constraint states and the code relies on.
\<close>

definition entities_ok :: "db \<Rightarrow> bool" where
  "entities_ok d \<longleftrightarrow> distinct (map fst (entities d)) \<and> distinct (map snd (entities d)) \<and>
     (\<forall>i \<in> snd ` set (entities d). i < next_entity_id d)"

definition shipments_ok :: "db \<Rightarrow> bool" where
  "shipments_ok d \<longleftrightarrow> distinct (map fst (shipments d)) \<and>
     (\<forall>(i, r) \<in> set (shipments d).
        ((sp_vendor_id r, ''shipment'', sp_external_id r), i) \<in> set (entities d) \<and> 1 \<le> sp_version r)"

definition invoices_ok :: "db \<Rightarrow> bool" where
  "invoices_ok d \<longleftrightarrow> distinct (map fst (invoices d)) \<and>
     (\<forall>(i, r) \<in> set (invoices d).
        ((iv_vendor_id r, ''invoice'', iv_external_id r), i) \<in> set (entities d) \<and> 1 \<le> iv_version r)"

definition applied_ok :: "db \<Rightarrow> bool" where
  "applied_ok d \<longleftrightarrow> distinct (map fst (applied_events d)) \<and>
     (\<forall>((i, e), a) \<in> set (applied_events d). entity_exists d i \<and> event_exists d e)"

definition stale_ok :: "db \<Rightarrow> bool" where
  "stale_ok d \<longleftrightarrow>
     (\<forall>r \<in> set (stale_event_log d). entity_exists d (st_entity_id r) \<and> event_exists d (st_event_id r))"

definition db_ok :: "db \<Rightarrow> bool" where
  "db_ok d \<longleftrightarrow> entities_ok d \<and> shipments_ok d \<and> invoices_ok d \<and> applied_ok d \<and> stale_ok d"

lemmas db_ok_defs =
  db_ok_def entities_ok_def shipments_ok_def invoices_ok_def applied_ok_def stale_ok_def

lemma db_ok_empty: "db_ok empty_db"
  by (simp add: db_ok_defs empty_db_def)

lemma entity_exists_mem: "((v, t, x), i) \<in> set (entities d) \<Longrightarrow> entity_exists d i"
  by (force simp: entity_exists_def)

lemma entity_exists_get: "tbl_get (entities d) k = Some i \<Longrightarrow> entity_exists d i"
  by (metis entity_exists_mem prod_cases3 tbl_get_mem)

lemma entity_get_mem:
  "entities_ok d \<Longrightarrow> (k, i) \<in> set (entities d) \<Longrightarrow> tbl_get (entities d) k = Some i"
  by (simp add: entities_ok_def tbl_get_def)

lemma entity_key_unique:
  assumes "entities_ok d" "(k, i) \<in> set (entities d)" "(k', i) \<in> set (entities d)"
  shows "k = k'"
proof -
  have "inj_on snd (set (entities d))" using assms(1) by (simp add: entities_ok_def distinct_map)
  from inj_onD [OF this _ assms(2,3)] show ?thesis by simp
qed

section \<open>The entity of an event\<close>

definition with_entity :: "db \<Rightarrow> string \<Rightarrow> string \<Rightarrow> string \<Rightarrow> db \<times> int" where
  "with_entity d v t x = (case tbl_get (entities d) (v, t, x) of
       Some i \<Rightarrow> (d, i)
     | None \<Rightarrow> (d\<lparr>entities := entities d @ [((v, t, x), next_entity_id d)],
                  next_entity_id := next_entity_id d + 1\<rparr>, next_entity_id d))"

lemma get_or_create_eq: "get_or_create_entity d v t x = Inr (with_entity d v t x)"
  by (auto simp: get_or_create_entity_def select_entity_def insert_entity_def with_entity_def
      tbl_insert_def split: option.splits)

lemma with_entity_frame:
  assumes "with_entity d v t x = (d1, i)"
  shows "raw_events d1 = raw_events d" "shipments d1 = shipments d" "invoices d1 = invoices d"
    "applied_events d1 = applied_events d" "stale_event_log d1 = stale_event_log d"
    "clock d1 = clock d"
  using assms by (auto simp: with_entity_def split: option.splits)

lemma with_entity_get:
  assumes "with_entity d v t x = (d1, i)"
  shows "tbl_get (entities d1) k = (if k = (v, t, x) then Some i else tbl_get (entities d) k)"
proof (cases "tbl_get (entities d) (v, t, x)")
  case None
  with assms have e: "entities d1 = tbl_insert (v, t, x) i (entities d)"
    by (auto simp: with_entity_def tbl_insert_def)
  show ?thesis using None by (simp add: e tbl.get_ins)
qed (use assms in \<open>auto simp: with_entity_def\<close>)

lemma with_entity_mono: "with_entity d v t x = (d1, i) \<Longrightarrow> set (entities d) \<subseteq> set (entities d1)"
  by (auto simp: with_entity_def split: option.splits)

lemma with_entity_exists: "with_entity d v t x = (d1, i) \<Longrightarrow> entity_exists d1 i"
  by (rule entity_exists_get [of d1 "(v, t, x)"]) (simp add: with_entity_get)

lemma with_entity_event_exists [simp]:
  "with_entity d v t x = (d1, i) \<Longrightarrow> event_exists d1 e = event_exists d e"
  by (simp add: event_exists_def with_entity_frame)

lemma entity_exists_mono:
  "set (entities d) \<subseteq> set (entities d') \<Longrightarrow> entity_exists d i \<Longrightarrow> entity_exists d' i"
  by (force simp: entity_exists_def)

lemma entities_ok_with_entity:
  assumes "with_entity d v t x = (d1, i)" "entities_ok d"
  shows "entities_ok d1"
proof (cases "tbl_get (entities d) (v, t, x)")
  case None
  with assms(1) have d1: "entities d1 = entities d @ [((v, t, x), next_entity_id d)]"
      "next_entity_id d1 = next_entity_id d + 1"
    by (auto simp: with_entity_def)
  have "(v, t, x) \<notin> fst ` set (entities d)" using None by (simp add: tbl_get_None_iff)
  moreover have "next_entity_id d \<notin> snd ` set (entities d)"
    using assms(2) unfolding entities_ok_def by blast
  moreover have "\<forall>i \<in> snd ` set (entities d). i < next_entity_id d + 1"
  proof
    fix i
    assume "i \<in> snd ` set (entities d)"
    then have "i < next_entity_id d" using assms(2) unfolding entities_ok_def by blast
    then show "i < next_entity_id d + 1" by simp
  qed
  ultimately show ?thesis
    using assms(2) by (simp add: entities_ok_def d1 image_Un)
qed (use assms in \<open>auto simp: with_entity_def\<close>)

lemma db_ok_with_entity:
  assumes w: "with_entity d v t x = (d1, i)" and ok: "db_ok d"
  shows "db_ok d1"
proof -
  have mono: "set (entities d) \<subseteq> set (entities d1)" by (rule with_entity_mono [OF w])
  have ents: "entities_ok d1"
    using entities_ok_with_entity [OF w] ok by (simp add: db_ok_def)
  show ?thesis
    using ok mono ents entity_exists_mono [OF mono]
    unfolding db_ok_def
    by (fastforce simp: shipments_ok_def invoices_ok_def applied_ok_def stale_ok_def
        with_entity_frame [OF w] event_exists_def)
qed

text \<open>An entity id the applied log knows was handed out before, so looking it up adds nothing.\<close>

lemma applied_entity_known:
  assumes "db_ok d" "with_entity d v t x = (d1, i)" "tbl_get (applied_events d) (i, e) \<noteq> None"
  shows "d1 = d" "tbl_get (entities d) (v, t, x) = Some i"
proof -
  obtain a where "((i, e), a) \<in> set (applied_events d)"
    using assms(3) tbl_get_mem by (metis option.exhaust)
  with assms(1) have "entity_exists d i" by (auto simp: db_ok_def applied_ok_def)
  with assms(1) have "i < next_entity_id d"
    by (auto simp: db_ok_def entities_ok_def entity_exists_def)
  with assms(2) show "d1 = d" "tbl_get (entities d) (v, t, x) = Some i"
    by (auto simp: with_entity_def split: option.splits)
qed

text \<open>No other entity's row carries the (vendor, external id) of a missing row.\<close>

lemma shipment_no_conflict:
  assumes "db_ok d" "tbl_get (entities d) (v, ''shipment'', x) = Some i" "tbl_get (shipments d) i = None"
  shows "\<not> list_ex (\<lambda>(j, r'). sp_vendor_id r' = v \<and> sp_external_id r' = x) (shipments d)"
proof
  assume "list_ex (\<lambda>(j, r'). sp_vendor_id r' = v \<and> sp_external_id r' = x) (shipments d)"
  then obtain j r where r: "(j, r) \<in> set (shipments d)" "sp_vendor_id r = v" "sp_external_id r = x"
    by (auto simp: list_ex_iff)
  with assms(1) have "((v, ''shipment'', x), j) \<in> set (entities d)"
    by (auto simp: db_ok_def shipments_ok_def)
  with assms(1,2) have "j = i" using entity_get_mem by (fastforce simp: db_ok_def)
  with r(1) assms(3) show False by (force simp: tbl_get_None_iff)
qed

lemma invoice_no_conflict:
  assumes "db_ok d" "tbl_get (entities d) (v, ''invoice'', x) = Some i" "tbl_get (invoices d) i = None"
  shows "\<not> list_ex (\<lambda>(j, r'). iv_vendor_id r' = v \<and> iv_external_id r' = x) (invoices d)"
proof
  assume "list_ex (\<lambda>(j, r'). iv_vendor_id r' = v \<and> iv_external_id r' = x) (invoices d)"
  then obtain j r where r: "(j, r) \<in> set (invoices d)" "iv_vendor_id r = v" "iv_external_id r = x"
    by (auto simp: list_ex_iff)
  with assms(1) have "((v, ''invoice'', x), j) \<in> set (entities d)"
    by (auto simp: db_ok_def invoices_ok_def)
  with assms(1,2) have "j = i" using entity_get_mem by (fastforce simp: db_ok_def)
  with r(1) assms(3) show False by (force simp: tbl_get_None_iff)
qed

section \<open>The handlers in closed form\<close>

definition mark_applied :: "db \<Rightarrow> int \<Rightarrow> string \<Rightarrow> string \<Rightarrow> db" where
  "mark_applied d i e target = d\<lparr>applied_events := tbl_insert (i, e)
     \<lparr>ap_applied_at = clock d, ap_target_state = target\<rparr> (applied_events d)\<rparr>"

definition add_stale :: "db \<Rightarrow> int \<Rightarrow> string \<Rightarrow> string \<Rightarrow> stale_detail option \<Rightarrow> db" where
  "add_stale d i e reason detail = d\<lparr>stale_event_log := stale_event_log d @
     [\<lparr>st_entity_id = i, st_event_id = e, st_reason = reason, st_detail = detail,
       st_observed_at = clock d\<rparr>]\<rparr>"

definition shipment_new :: "db \<Rightarrow> int \<Rightarrow> shipment_event \<Rightarrow> (db \<times> ApplyOutcome) result" where
  "shipment_new d i ev =
     (let e = ev_event_id ev;
          target = SHIPMENT_EVENT_TO_STATE (sh_event_type ev);
          d2 = mark_applied d i e (shipment_state_value target) in
      case tbl_get (shipments d) i of
        None \<Rightarrow>
          Inr (d2\<lparr>shipments := tbl_insert i (shipment_initial_row (clock d) ev) (shipments d)\<rparr>,
               AppliedInitial)
      | Some r \<Rightarrow>
          if dt_instant (sh_timestamp ev) < sp_last_ts r then
            Inr (add_stale d2 i e ''older_than_last_applied''
                   (Some \<lparr>sd_current_state = shipment_state_value (sp_state r),
                          sd_current_last_ts = sp_last_ts r, sd_event_timestamp = sh_timestamp ev\<rparr>),
                 StaleSkipped)
          else if target \<notin> SHIPMENT_TRANSITIONS (Some (sp_state r)) then
            Inr (add_stale d2 i e (disallowed_reason (shipment_state_value (sp_state r))
                                      (shipment_state_value target)) None, TransitionRejected)
          else bindE (int4_succ (sp_version r)) (\<lambda>v.
            Inr (d2\<lparr>shipments := tbl_update i
                   (\<lambda>r. (shipment_move_row (clock d) ev r)\<lparr>sp_version := v\<rparr>) (shipments d)\<rparr>, Applied)))"

definition invoice_new :: "db \<Rightarrow> int \<Rightarrow> invoice_event \<Rightarrow> (db \<times> ApplyOutcome) result" where
  "invoice_new d i ev =
     (let e = ev_event_id ev;
          target = INVOICE_EVENT_TO_STATE (in_event_type ev);
          d2 = mark_applied d i e (invoice_state_value target) in
      bindE (int8_param (invoice_amount_minor ev)) (\<lambda>_.
      if \<not> amount_check (invoice_amount_minor ev) then Inl CheckViolation
      else case tbl_get (invoices d) i of
        None \<Rightarrow>
          Inr (d2\<lparr>invoices := tbl_insert i (invoice_initial_row (clock d) ev) (invoices d)\<rparr>,
               AppliedInitial)
      | Some r \<Rightarrow>
          if dt_instant (in_timestamp ev) < iv_last_ts r then
            Inr (add_stale d2 i e ''older_than_last_applied''
                   (Some \<lparr>sd_current_state = invoice_state_value (iv_state r),
                          sd_current_last_ts = iv_last_ts r, sd_event_timestamp = in_timestamp ev\<rparr>),
                 StaleSkipped)
          else if target \<notin> INVOICE_TRANSITIONS (Some (iv_state r)) \<and> target \<noteq> iv_state r then
            Inr (add_stale d2 i e (disallowed_reason (invoice_state_value (iv_state r))
                                      (invoice_state_value target)) None, TransitionRejected)
          else bindE (int4_succ (iv_version r)) (\<lambda>v.
            Inr (d2\<lparr>invoices := tbl_update i
                   (\<lambda>row. ((if target = iv_state r then invoice_touch_row else invoice_move_row)
                           (clock d) ev row)\<lparr>iv_version := v\<rparr>) (invoices d)\<rparr>, Applied))))"

lemma no_self_shipment: "s \<notin> SHIPMENT_TRANSITIONS (Some s)"
  by (cases s) simp_all

lemma no_self_invoice: "s \<notin> INVOICE_TRANSITIONS (Some s)"
  by (cases s) simp_all

lemma exists_frame [simp]:
  "entity_exists (d\<lparr>shipments := a\<rparr>) i = entity_exists d i"
  "entity_exists (d\<lparr>invoices := b\<rparr>) i = entity_exists d i"
  "entity_exists (d\<lparr>applied_events := c\<rparr>) i = entity_exists d i"
  "entity_exists (d\<lparr>stale_event_log := l\<rparr>) i = entity_exists d i"
  "event_exists (d\<lparr>shipments := a\<rparr>) e = event_exists d e"
  "event_exists (d\<lparr>invoices := b\<rparr>) e = event_exists d e"
  "event_exists (d\<lparr>applied_events := c\<rparr>) e = event_exists d e"
  "event_exists (d\<lparr>stale_event_log := l\<rparr>) e = event_exists d e"
  by (simp_all add: entity_exists_def event_exists_def)

lemma insert_applied_eq:
  assumes "entity_exists d i"
  shows "insert_applied d i e s =
     (if tbl_get (applied_events d) (i, e) \<noteq> None then Inr (d, False)
      else if \<not> event_exists d e then Inl ForeignKeyViolation
      else Inr (mark_applied d i e s, True))"
  using assms by (simp add: insert_applied_def mark_applied_def)

lemma log_stale_eq:
  assumes "entity_exists d i" "event_exists d e"
  shows "log_stale d i e reason detail = Inr (add_stale d i e reason detail)"
  using assms by (simp add: log_stale_def add_stale_def)

lemma mark_applied_frame [simp]:
  "entity_exists (mark_applied d i e s) j = entity_exists d j"
  "event_exists (mark_applied d i e s) e' = event_exists d e'"
  "shipments (mark_applied d i e s) = shipments d"
  "invoices (mark_applied d i e s) = invoices d"
  "clock (mark_applied d i e s) = clock d"
  by (simp_all add: mark_applied_def)

lemma apply_shipment_eq:
  assumes ok: "db_ok d"
    and w: "with_entity d (ev_vendor_id ev) ''shipment'' (sh_external_id ev) = (d1, i)"
  shows "apply_shipment d ev =
     (if tbl_get (applied_events d) (i, ev_event_id ev) \<noteq> None then Inr (d, AlreadyApplied)
      else if \<not> event_exists d (ev_event_id ev) then Inl ForeignKeyViolation
      else shipment_new d1 i ev)"
proof -
  note frame = with_entity_frame [OF w]
  have ex: "entity_exists d1 i" by (rule with_entity_exists [OF w])
  have ok1: "db_ok d1" by (rule db_ok_with_entity [OF w ok])
  have known: "tbl_get (entities d1) (ev_vendor_id ev, ''shipment'', sh_external_id ev) = Some i"
    by (simp add: with_entity_get [OF w])
  have applied: "tbl_get (applied_events d) (i, ev_event_id ev) \<noteq> None \<Longrightarrow> d1 = d"
    using applied_entity_known [OF ok w] by blast
  have ins: "insert_shipment (mark_applied d1 i e s) i r =
      (if tbl_get (shipments d1) i \<noteq> None then Inr (mark_applied d1 i e s, False)
       else Inr ((mark_applied d1 i e s)\<lparr>shipments := tbl_insert i r (shipments d1)\<rparr>, True))"
    if "sp_vendor_id r = ev_vendor_id ev" "sp_external_id r = sh_external_id ev" for e s r
    using shipment_no_conflict [OF ok1 known] ex that by (simp add: insert_shipment_def)
  show ?thesis
    unfolding apply_shipment_def get_or_create_eq w
    using ex applied
    by (auto simp: Let_def insert_applied_eq ins shipment_initial_row_def shipment_new_def frame
        log_stale_eq with_entity_event_exists [OF w] update_shipment_def no_self_shipment
        bindE_assoc split: option.splits)
qed

lemma apply_invoice_eq:
  assumes ok: "db_ok d"
    and w: "with_entity d (ev_vendor_id ev) ''invoice'' (in_external_id ev) = (d1, i)"
  shows "apply_invoice d ev =
     (if tbl_get (applied_events d) (i, ev_event_id ev) \<noteq> None then Inr (d, AlreadyApplied)
      else if \<not> event_exists d (ev_event_id ev) then Inl ForeignKeyViolation
      else invoice_new d1 i ev)"
proof -
  note frame = with_entity_frame [OF w]
  have ex: "entity_exists d1 i" by (rule with_entity_exists [OF w])
  have ok1: "db_ok d1" by (rule db_ok_with_entity [OF w ok])
  have known: "tbl_get (entities d1) (ev_vendor_id ev, ''invoice'', in_external_id ev) = Some i"
    by (simp add: with_entity_get [OF w])
  have applied: "tbl_get (applied_events d) (i, ev_event_id ev) \<noteq> None \<Longrightarrow> d1 = d"
    using applied_entity_known [OF ok w] by blast
  have ins: "insert_invoice (mark_applied d1 i e s) i r =
      (if \<not> amount_check (iv_amount_minor r) then Inl CheckViolation
       else if tbl_get (invoices d1) i \<noteq> None then Inr (mark_applied d1 i e s, False)
       else Inr ((mark_applied d1 i e s)\<lparr>invoices := tbl_insert i r (invoices d1)\<rparr>, True))"
    if "iv_vendor_id r = ev_vendor_id ev" "iv_external_id r = in_external_id ev" for e s r
    using invoice_no_conflict [OF ok1 known] ex that by (simp add: insert_invoice_def)
  show ?thesis
    unfolding apply_invoice_def get_or_create_eq w
    using ex applied
    by (auto simp: Let_def insert_applied_eq ins invoice_initial_row_def invoice_new_def frame
        log_stale_eq with_entity_event_exists [OF w] update_invoice_def
        bindE_assoc split: option.splits intro!: bindE_cong)
qed

section \<open>The handlers keep the invariant\<close>

lemma shipments_ok_insert:
  assumes "shipments_ok d" "((sp_vendor_id r, ''shipment'', sp_external_id r), i) \<in> set (entities d)"
    "1 \<le> sp_version r"
  shows "shipments_ok (d\<lparr>shipments := tbl_insert i r (shipments d)\<rparr>)"
  using assms unfolding shipments_ok_def
  by (auto simp: tbl_distinct_insert tbl_insert_def tbl_get_None_notin)

lemma shipments_ok_update:
  assumes "shipments_ok d"
    "\<And>r. sp_vendor_id (f r) = sp_vendor_id r \<and> sp_external_id (f r) = sp_external_id r"
    "\<And>r. 1 \<le> sp_version (f r)"
  shows "shipments_ok (d\<lparr>shipments := tbl_update i f (shipments d)\<rparr>)"
  using assms unfolding shipments_ok_def
  by (auto simp: tbl_update_def comp_def case_prod_beta split: if_splits)

lemma invoices_ok_insert:
  assumes "invoices_ok d" "((iv_vendor_id r, ''invoice'', iv_external_id r), i) \<in> set (entities d)"
    "1 \<le> iv_version r"
  shows "invoices_ok (d\<lparr>invoices := tbl_insert i r (invoices d)\<rparr>)"
  using assms unfolding invoices_ok_def
  by (auto simp: tbl_distinct_insert tbl_insert_def tbl_get_None_notin)

lemma invoices_ok_update:
  assumes "invoices_ok d"
    "\<And>r. iv_vendor_id (f r) = iv_vendor_id r \<and> iv_external_id (f r) = iv_external_id r"
    "\<And>r. 1 \<le> iv_version (f r)"
  shows "invoices_ok (d\<lparr>invoices := tbl_update i f (invoices d)\<rparr>)"
  using assms unfolding invoices_ok_def
  by (auto simp: tbl_update_def comp_def case_prod_beta split: if_splits)

lemma ok_frame [simp]:
  "entities_ok (d\<lparr>shipments := a\<rparr>) = entities_ok d"
  "entities_ok (d\<lparr>invoices := b\<rparr>) = entities_ok d"
  "entities_ok (d\<lparr>applied_events := c\<rparr>) = entities_ok d"
  "entities_ok (d\<lparr>stale_event_log := l\<rparr>) = entities_ok d"
  "shipments_ok (d\<lparr>invoices := b\<rparr>) = shipments_ok d"
  "shipments_ok (d\<lparr>applied_events := c\<rparr>) = shipments_ok d"
  "shipments_ok (d\<lparr>stale_event_log := l\<rparr>) = shipments_ok d"
  "invoices_ok (d\<lparr>shipments := a\<rparr>) = invoices_ok d"
  "invoices_ok (d\<lparr>applied_events := c\<rparr>) = invoices_ok d"
  "invoices_ok (d\<lparr>stale_event_log := l\<rparr>) = invoices_ok d"
  "applied_ok (d\<lparr>shipments := a\<rparr>) = applied_ok d"
  "applied_ok (d\<lparr>invoices := b\<rparr>) = applied_ok d"
  "applied_ok (d\<lparr>stale_event_log := l\<rparr>) = applied_ok d"
  "stale_ok (d\<lparr>shipments := a\<rparr>) = stale_ok d"
  "stale_ok (d\<lparr>invoices := b\<rparr>) = stale_ok d"
  "stale_ok (d\<lparr>applied_events := c\<rparr>) = stale_ok d"
  by (simp_all add: entities_ok_def shipments_ok_def invoices_ok_def applied_ok_def stale_ok_def)

lemma db_ok_mark_applied:
  assumes "db_ok d" "entity_exists d i" "event_exists d e"
  shows "db_ok (mark_applied d i e s)"
proof -
  have "applied_ok (mark_applied d i e s)"
    using assms unfolding db_ok_def applied_ok_def mark_applied_def
    by (auto simp: tbl_distinct_insert tbl_insert_def tbl_get_None_notin)
  with assms(1) show ?thesis by (simp add: db_ok_def mark_applied_def)
qed

lemma db_ok_add_stale:
  assumes "db_ok d" "entity_exists d i" "event_exists d e"
  shows "db_ok (add_stale d i e reason detail)"
  using assms by (simp add: db_ok_def add_stale_def stale_ok_def)

lemma int4_succ_pos: "int4_succ v = Inr w \<Longrightarrow> 1 \<le> v \<Longrightarrow> 1 \<le> w"
  by (simp add: int4_succ_Inr)

lemma db_ok_shipment_new:
  assumes ok: "db_ok d" and ev: "event_exists d (ev_event_id ev)"
    and ent: "tbl_get (entities d) (ev_vendor_id ev, ''shipment'', sh_external_id ev) = Some i"
    and new: "shipment_new d i ev = Inr (d', out)"
  shows "db_ok d'"
proof -
  let ?m = "mark_applied d i (ev_event_id ev)
    (shipment_state_value (SHIPMENT_EVENT_TO_STATE (sh_event_type ev)))"
  have ex: "entity_exists d i" using entity_exists_get [OF ent] .
  have m: "db_ok ?m" by (rule db_ok_mark_applied [OF ok ex ev])
  have ents: "entities ?m = entities d" by (simp add: mark_applied_def)
  have ins: "db_ok (?m\<lparr>shipments := tbl_insert i (shipment_initial_row (clock d) ev) (shipments d)\<rparr>)"
    using m shipments_ok_insert [of ?m "shipment_initial_row (clock d) ev" i] tbl_get_mem [OF ent]
    by (simp add: db_ok_def shipment_initial_row_def ents)
  have upd: "db_ok (?m\<lparr>shipments := tbl_update i
      (\<lambda>r. (shipment_move_row (clock d) ev r)\<lparr>sp_version := v\<rparr>) (shipments d)\<rparr>)" if "1 \<le> v" for v
    using m that shipments_ok_update [of ?m "\<lambda>r. (shipment_move_row (clock d) ev r)\<lparr>sp_version := v\<rparr>"]
    by (simp add: db_ok_def shipment_move_row_def)
  have stale: "db_ok (add_stale ?m i (ev_event_id ev) r t)" for r t
    using db_ok_add_stale [OF m] ex ev by simp
  have ver: "1 \<le> sp_version r" if "tbl_get (shipments d) i = Some r" for r
    using ok tbl_get_mem [OF that] by (auto simp: db_ok_def shipments_ok_def)
  show ?thesis
    using new ins upd stale int4_succ_pos ver
    unfolding shipment_new_def Let_def
    by (auto simp: bindE_eq_Inr split: option.splits if_splits)
qed

lemma db_ok_invoice_new:
  assumes ok: "db_ok d" and ev: "event_exists d (ev_event_id ev)"
    and ent: "tbl_get (entities d) (ev_vendor_id ev, ''invoice'', in_external_id ev) = Some i"
    and new: "invoice_new d i ev = Inr (d', out)"
  shows "db_ok d'"
proof -
  let ?m = "mark_applied d i (ev_event_id ev)
    (invoice_state_value (INVOICE_EVENT_TO_STATE (in_event_type ev)))"
  have ex: "entity_exists d i" using entity_exists_get [OF ent] .
  have m: "db_ok ?m" by (rule db_ok_mark_applied [OF ok ex ev])
  have ents: "entities ?m = entities d" by (simp add: mark_applied_def)
  have ins: "db_ok (?m\<lparr>invoices := tbl_insert i (invoice_initial_row (clock d) ev) (invoices d)\<rparr>)"
    using m invoices_ok_insert [of ?m "invoice_initial_row (clock d) ev" i] tbl_get_mem [OF ent]
    by (simp add: db_ok_def invoice_initial_row_def ents)
  have upd: "db_ok (?m\<lparr>invoices := tbl_update i
      (\<lambda>r. (f (clock d) ev r)\<lparr>iv_version := v\<rparr>) (invoices d)\<rparr>)"
    if "1 \<le> v" "f = invoice_touch_row \<or> f = invoice_move_row" for v f
    using m that invoices_ok_update [of ?m "\<lambda>r. (f (clock d) ev r)\<lparr>iv_version := v\<rparr>"]
    by (auto simp: db_ok_def invoice_move_row_def invoice_touch_row_def)
  have stale: "db_ok (add_stale ?m i (ev_event_id ev) r t)" for r t
    using db_ok_add_stale [OF m] ex ev by simp
  have ver: "1 \<le> iv_version r" if "tbl_get (invoices d) i = Some r" for r
    using ok tbl_get_mem [OF that] by (auto simp: db_ok_def invoices_ok_def)
  show ?thesis
    using new ins upd stale int4_succ_pos ver
    unfolding invoice_new_def Let_def
    by (auto simp: bindE_eq_Inr split: option.splits if_splits)
qed

lemma db_ok_apply_shipment:
  assumes "db_ok d" "apply_shipment d ev = Inr (d', out)"
  shows "db_ok d'"
proof -
  obtain d1 i where w: "with_entity d (ev_vendor_id ev) ''shipment'' (sh_external_id ev) = (d1, i)"
    by (metis surj_pair)
  have "tbl_get (entities d1) (ev_vendor_id ev, ''shipment'', sh_external_id ev) = Some i"
    by (simp add: with_entity_get [OF w])
  with assms db_ok_with_entity [OF w assms(1)] db_ok_shipment_new show ?thesis
    by (auto simp: apply_shipment_eq [OF assms(1) w] with_entity_event_exists [OF w]
        split: if_splits)
qed

lemma db_ok_apply_invoice:
  assumes "db_ok d" "apply_invoice d ev = Inr (d', out)"
  shows "db_ok d'"
proof -
  obtain d1 i where w: "with_entity d (ev_vendor_id ev) ''invoice'' (in_external_id ev) = (d1, i)"
    by (metis surj_pair)
  have "tbl_get (entities d1) (ev_vendor_id ev, ''invoice'', in_external_id ev) = Some i"
    by (simp add: with_entity_get [OF w])
  with assms db_ok_with_entity [OF w assms(1)] db_ok_invoice_new show ?thesis
    by (auto simp: apply_invoice_eq [OF assms(1) w] with_entity_event_exists [OF w]
        split: if_splits)
qed

lemma db_ok_apply_event: "db_ok d \<Longrightarrow> apply_event d ev = Inr (d', out) \<Longrightarrow> db_ok d'"
  by (cases ev) (auto intro: db_ok_apply_shipment db_ok_apply_invoice)

end
