(* ===== verification/Refinement.thy ===== *)
theory Refinement
  imports Projection
begin

text \<open>
  The state machine refines the abstract lifecycle: what the database holds about one shipment or
  one invoice, read as a pair of seen event ids and projection, moves by \<open>life_apply\<close> for an event
  of that entity and not at all for any other event.  The theorems on sequences of events and on
  replays follow from the lifecycle laws.
\<close>

interpretation shipment_lc: lifecycle SHIPMENT_TRANSITIONS False
  by unfold_locales (rule no_self_shipment)

fun invoice_rank :: "InvoiceState \<Rightarrow> nat" where
  "invoice_rank ISSUED = 2"
| "invoice_rank PAID = 1"
| "invoice_rank VOIDED = 0"
| "invoice_rank REFUNDED = 0"

lemma invoice_rank_decreases: "t \<in> INVOICE_TRANSITIONS (Some s) \<Longrightarrow> invoice_rank t < invoice_rank s"
  by (cases s) auto

interpretation invoice_lc: ranked_lifecycle INVOICE_TRANSITIONS True invoice_rank
  by unfold_locales (auto simp: no_self_invoice invoice_rank_decreases)

section \<open>Reading a lifecycle from the database\<close>

definition seen_events :: "db \<Rightarrow> int \<Rightarrow> string set" where
  "seen_events d i = set (map (snd \<circ> fst) (filter (\<lambda>(k, _). fst k = i) (applied_events d)))"

definition shipment_proj :: "shipment_row \<Rightarrow> ShipmentState proj" where
  "shipment_proj r = \<lparr>p_state = sp_state r, p_ts = sp_last_ts r, p_version = sp_version r\<rparr>"

definition invoice_proj :: "invoice_row \<Rightarrow> InvoiceState proj" where
  "invoice_proj r = \<lparr>p_state = iv_state r, p_ts = iv_last_ts r, p_version = iv_version r\<rparr>"

definition shipment_life :: "db \<Rightarrow> string \<times> string \<Rightarrow> ShipmentState life" where
  "shipment_life d vx = (case tbl_get (entities d) (fst vx, ''shipment'', snd vx) of
       None \<Rightarrow> ({}, None)
     | Some i \<Rightarrow> (seen_events d i, map_option shipment_proj (tbl_get (shipments d) i)))"

definition invoice_life :: "db \<Rightarrow> string \<times> string \<Rightarrow> InvoiceState life" where
  "invoice_life d vx = (case tbl_get (entities d) (fst vx, ''invoice'', snd vx) of
       None \<Rightarrow> ({}, None)
     | Some i \<Rightarrow> (seen_events d i, map_option invoice_proj (tbl_get (invoices d) i)))"

definition shipment_key :: "shipment_event \<Rightarrow> string \<times> string" where
  "shipment_key ev = (ev_vendor_id ev, sh_external_id ev)"

definition invoice_key :: "invoice_event \<Rightarrow> string \<times> string" where
  "invoice_key ev = (ev_vendor_id ev, in_external_id ev)"

definition shipment_input :: "shipment_event \<Rightarrow> ShipmentState life_event" where
  "shipment_input ev =
     (ev_event_id ev, SHIPMENT_EVENT_TO_STATE (sh_event_type ev), dt_instant (sh_timestamp ev))"

definition invoice_input :: "invoice_event \<Rightarrow> InvoiceState life_event" where
  "invoice_input ev =
     (ev_event_id ev, INVOICE_EVENT_TO_STATE (in_event_type ev), dt_instant (in_timestamp ev))"

lemma seen_events_iff: "e \<in> seen_events d i \<longleftrightarrow> tbl_get (applied_events d) (i, e) \<noteq> None"
  unfolding seen_events_def by (force simp: tbl_get_None_iff image_iff)

lemma seen_mark_applied:
  "seen_events (mark_applied d i e s) j = (if j = i then insert e (seen_events d i) else seen_events d j)"
  by (auto simp: seen_events_iff mark_applied_def table_simps split: option.splits if_splits)

lemma seen_cong: "applied_events d' = applied_events d \<Longrightarrow> seen_events d' i = seen_events d i"
  by (simp add: seen_events_def)

lemma seen_frame [simp]:
  "seen_events (d\<lparr>shipments := a\<rparr>) i = seen_events d i"
  "seen_events (d\<lparr>invoices := b\<rparr>) i = seen_events d i"
  "seen_events (d\<lparr>stale_event_log := l\<rparr>) i = seen_events d i"
  by (simp_all add: seen_events_def)

lemma row_entity_exists:
  assumes "db_ok d"
  shows "tbl_get (shipments d) i = Some r \<Longrightarrow> entity_exists d i"
    "tbl_get (invoices d) i = Some q \<Longrightarrow> entity_exists d i"
    "e \<in> seen_events d i \<Longrightarrow> entity_exists d i"
proof -
  show "tbl_get (shipments d) i = Some r \<Longrightarrow> entity_exists d i"
    using assms by (auto simp: db_ok_def shipments_ok_def dest!: tbl_get_mem intro: entity_exists_mem)
  show "tbl_get (invoices d) i = Some q \<Longrightarrow> entity_exists d i"
    using assms by (auto simp: db_ok_def invoices_ok_def dest!: tbl_get_mem intro: entity_exists_mem)
  show "e \<in> seen_events d i \<Longrightarrow> entity_exists d i"
    using assms by (fastforce simp: seen_events_def db_ok_def applied_ok_def)
qed

lemma fresh_entity:
  assumes "db_ok d"
  shows "seen_events d (next_entity_id d) = {}"
    "tbl_get (shipments d) (next_entity_id d) = None"
    "tbl_get (invoices d) (next_entity_id d) = None"
proof -
  have fresh: "\<not> entity_exists d (next_entity_id d)"
    using assms by (force simp: db_ok_def entities_ok_def entity_exists_def)
  show "seen_events d (next_entity_id d) = {}"
    using row_entity_exists(3) [OF assms] fresh by blast
  show "tbl_get (shipments d) (next_entity_id d) = None"
    using row_entity_exists(1) [OF assms] fresh by (metis option.exhaust)
  show "tbl_get (invoices d) (next_entity_id d) = None"
    using row_entity_exists(2) [OF assms] fresh by (metis option.exhaust)
qed

lemma life_with_entity:
  assumes ok: "db_ok d" and w: "with_entity d v t x = (d1, i)"
  shows "shipment_life d1 vx = shipment_life d vx" "invoice_life d1 vx = invoice_life d vx"
proof -
  have seen: "seen_events d1 j = seen_events d j" for j
    by (rule seen_cong) (rule with_entity_frame(4) [OF w])
  have new: "tbl_get (entities d) (v, t, x) = None \<Longrightarrow> i = next_entity_id d"
    "tbl_get (entities d) (v, t, x) = Some j \<Longrightarrow> i = j" for j
    using w by (auto simp: with_entity_def)
  show "shipment_life d1 vx = shipment_life d vx" "invoice_life d1 vx = invoice_life d vx"
    using new fresh_entity [OF ok]
    by (auto simp: shipment_life_def invoice_life_def with_entity_get [OF w] with_entity_frame [OF w]
        seen split: option.splits)
qed

lemma life_of_entity:
  assumes "tbl_get (entities d) (fst vx, ''shipment'', snd vx) = Some i"
  shows "shipment_life d vx = (seen_events d i, map_option shipment_proj (tbl_get (shipments d) i))"
  using assms by (simp add: shipment_life_def)

lemma invoice_life_of_entity:
  assumes "tbl_get (entities d) (fst vx, ''invoice'', snd vx) = Some i"
  shows "invoice_life d vx = (seen_events d i, map_option invoice_proj (tbl_get (invoices d) i))"
  using assms by (simp add: invoice_life_def)

section \<open>One event\<close>

lemma shipment_new_step:
  assumes "shipment_new d i ev = Inr (d', out)"
  shows "life_step SHIPMENT_TRANSITIONS False (SHIPMENT_EVENT_TO_STATE (sh_event_type ev))
           (dt_instant (sh_timestamp ev)) (map_option shipment_proj (tbl_get (shipments d) i)) =
         (out, map_option shipment_proj (tbl_get (shipments d') i))"
  using assms
  by (auto simp: shipment_new_def Let_def life_step_def shipment_proj_def shipment_initial_row_def
      shipment_move_row_def add_stale_def bindE_eq_Inr int4_succ_Inr table_simps
      split: option.splits if_splits)

lemma shipment_new_frame:
  assumes "shipment_new d i ev = Inr (d', out)"
  shows "entities d' = entities d" "invoices d' = invoices d" "raw_events d' = raw_events d"
    "next_entity_id d' = next_entity_id d" "clock d' = clock d"
    "seen_events d' j = (if j = i then insert (ev_event_id ev) (seen_events d i) else seen_events d j)"
    "j \<noteq> i \<Longrightarrow> tbl_get (shipments d') j = tbl_get (shipments d) j"
  using assms
  by (auto simp: shipment_new_def Let_def mark_applied_def [symmetric] add_stale_def bindE_eq_Inr
      table_simps seen_mark_applied split: option.splits if_splits) (auto simp: mark_applied_def)

lemma invoice_new_step:
  assumes "invoice_new d i ev = Inr (d', out)"
  shows "life_step INVOICE_TRANSITIONS True (INVOICE_EVENT_TO_STATE (in_event_type ev))
           (dt_instant (in_timestamp ev)) (map_option invoice_proj (tbl_get (invoices d) i)) =
         (out, map_option invoice_proj (tbl_get (invoices d') i))"
  using assms
  by (auto simp: invoice_new_def Let_def life_step_def invoice_proj_def invoice_initial_row_def
      invoice_move_row_def invoice_touch_row_def add_stale_def bindE_eq_Inr int4_succ_Inr table_simps
      split: option.splits if_splits)

lemma invoice_new_frame:
  assumes "invoice_new d i ev = Inr (d', out)"
  shows "entities d' = entities d" "shipments d' = shipments d" "raw_events d' = raw_events d"
    "next_entity_id d' = next_entity_id d" "clock d' = clock d"
    "seen_events d' j = (if j = i then insert (ev_event_id ev) (seen_events d i) else seen_events d j)"
    "j \<noteq> i \<Longrightarrow> tbl_get (invoices d') j = tbl_get (invoices d) j"
  using assms
  by (auto simp: invoice_new_def Let_def mark_applied_def [symmetric] add_stale_def bindE_eq_Inr
      table_simps seen_mark_applied split: option.splits if_splits) (auto simp: mark_applied_def)

lemma entity_get_inj:
  assumes "db_ok d" "tbl_get (entities d) k = Some i" "tbl_get (entities d) k' = Some i"
  shows "k = k'"
  using assms entity_key_unique tbl_get_mem by (metis db_ok_def)

lemma apply_shipment_cases:
  assumes ok: "db_ok d" and ap: "apply_shipment d ev = Inr (d', out)"
  obtains (known) i where "d' = d" "out = AlreadyApplied"
      "tbl_get (entities d) (ev_vendor_id ev, ''shipment'', sh_external_id ev) = Some i"
      "ev_event_id ev \<in> seen_events d i"
  | (fresh) d1 i where "with_entity d (ev_vendor_id ev) ''shipment'' (sh_external_id ev) = (d1, i)"
      "ev_event_id ev \<notin> seen_events d1 i" "shipment_new d1 i ev = Inr (d', out)" "db_ok d1"
      "tbl_get (entities d1) (ev_vendor_id ev, ''shipment'', sh_external_id ev) = Some i"
proof -
  obtain d1 i where w: "with_entity d (ev_vendor_id ev) ''shipment'' (sh_external_id ev) = (d1, i)"
    by (metis surj_pair)
  have seen: "seen_events d1 i = seen_events d i"
    by (rule seen_cong) (rule with_entity_frame(4) [OF w])
  show ?thesis
  proof (cases "ev_event_id ev \<in> seen_events d i")
    case True
    with ap known applied_entity_known(2) [OF ok w] show ?thesis
      by (auto simp: apply_shipment_eq [OF ok w] seen_events_iff)
  next
    case False
    with ap have "shipment_new d1 i ev = Inr (d', out)"
      by (auto simp: apply_shipment_eq [OF ok w] seen_events_iff split: if_splits)
    moreover have "tbl_get (entities d1) (ev_vendor_id ev, ''shipment'', sh_external_id ev) = Some i"
      by (simp add: with_entity_get [OF w])
    ultimately show ?thesis using fresh w False seen db_ok_with_entity [OF w ok] by simp
  qed
qed

lemma apply_invoice_cases:
  assumes ok: "db_ok d" and ap: "apply_invoice d ev = Inr (d', out)"
  obtains (known) i where "d' = d" "out = AlreadyApplied"
      "tbl_get (entities d) (ev_vendor_id ev, ''invoice'', in_external_id ev) = Some i"
      "ev_event_id ev \<in> seen_events d i"
  | (fresh) d1 i where "with_entity d (ev_vendor_id ev) ''invoice'' (in_external_id ev) = (d1, i)"
      "ev_event_id ev \<notin> seen_events d1 i" "invoice_new d1 i ev = Inr (d', out)" "db_ok d1"
      "tbl_get (entities d1) (ev_vendor_id ev, ''invoice'', in_external_id ev) = Some i"
proof -
  obtain d1 i where w: "with_entity d (ev_vendor_id ev) ''invoice'' (in_external_id ev) = (d1, i)"
    by (metis surj_pair)
  have seen: "seen_events d1 i = seen_events d i"
    by (rule seen_cong) (rule with_entity_frame(4) [OF w])
  show ?thesis
  proof (cases "ev_event_id ev \<in> seen_events d i")
    case True
    with ap known applied_entity_known(2) [OF ok w] show ?thesis
      by (auto simp: apply_invoice_eq [OF ok w] seen_events_iff)
  next
    case False
    with ap have "invoice_new d1 i ev = Inr (d', out)"
      by (auto simp: apply_invoice_eq [OF ok w] seen_events_iff split: if_splits)
    moreover have "tbl_get (entities d1) (ev_vendor_id ev, ''invoice'', in_external_id ev) = Some i"
      by (simp add: with_entity_get [OF w])
    ultimately show ?thesis using fresh w False seen db_ok_with_entity [OF w ok] by simp
  qed
qed

lemma shipment_refines:
  assumes ok: "db_ok d" and ap: "apply_shipment d ev = Inr (d', out)"
  shows "life_apply SHIPMENT_TRANSITIONS False (shipment_input ev)
           (shipment_life d (shipment_key ev)) = (out, shipment_life d' (shipment_key ev))"
    and "vx \<noteq> shipment_key ev \<Longrightarrow> shipment_life d' vx = shipment_life d vx"
    and "invoice_life d' vx = invoice_life d vx"
proof -
  have "life_apply SHIPMENT_TRANSITIONS False (shipment_input ev)
           (shipment_life d (shipment_key ev)) = (out, shipment_life d' (shipment_key ev)) \<and>
      (vx \<noteq> shipment_key ev \<longrightarrow> shipment_life d' vx = shipment_life d vx) \<and>
      invoice_life d' vx = invoice_life d vx"
    using ok ap
  proof (cases rule: apply_shipment_cases)
    case (known i)
    then show ?thesis
      by (simp add: shipment_input_def shipment_key_def shipment_life_def)
  next
    case (fresh d1 i)
    note frame = shipment_new_frame [OF fresh(3)]
    have other: "tbl_get (entities d1) k = Some i \<Longrightarrow>
        k = (ev_vendor_id ev, ''shipment'', sh_external_id ev)" for k
      using entity_get_inj [OF fresh(4)] fresh(5) by blast
    have "shipment_life d' vx = shipment_life d1 vx" if "vx \<noteq> shipment_key ev"
      using that other frame
      by (cases vx) (auto simp: shipment_life_def shipment_key_def split: option.splits)
    moreover have "invoice_life d' vx = invoice_life d1 vx"
      using other frame by (auto simp: invoice_life_def split: option.splits)
    moreover have "life_apply SHIPMENT_TRANSITIONS False (shipment_input ev)
        (shipment_life d1 (shipment_key ev)) = (out, shipment_life d' (shipment_key ev))"
      using fresh(2,5) frame shipment_new_step [OF fresh(3)]
      by (simp add: shipment_input_def shipment_life_def shipment_key_def)
    ultimately show ?thesis using life_with_entity [OF ok fresh(1)] by simp
  qed
  then show "life_apply SHIPMENT_TRANSITIONS False (shipment_input ev)
           (shipment_life d (shipment_key ev)) = (out, shipment_life d' (shipment_key ev))"
    "vx \<noteq> shipment_key ev \<Longrightarrow> shipment_life d' vx = shipment_life d vx"
    "invoice_life d' vx = invoice_life d vx" by blast+
qed

lemma invoice_refines:
  assumes ok: "db_ok d" and ap: "apply_invoice d ev = Inr (d', out)"
  shows "life_apply INVOICE_TRANSITIONS True (invoice_input ev)
           (invoice_life d (invoice_key ev)) = (out, invoice_life d' (invoice_key ev))"
    and "vx \<noteq> invoice_key ev \<Longrightarrow> invoice_life d' vx = invoice_life d vx"
    and "shipment_life d' vx = shipment_life d vx"
proof -
  have "life_apply INVOICE_TRANSITIONS True (invoice_input ev)
           (invoice_life d (invoice_key ev)) = (out, invoice_life d' (invoice_key ev)) \<and>
      (vx \<noteq> invoice_key ev \<longrightarrow> invoice_life d' vx = invoice_life d vx) \<and>
      shipment_life d' vx = shipment_life d vx"
    using ok ap
  proof (cases rule: apply_invoice_cases)
    case (known i)
    then show ?thesis
      by (simp add: invoice_input_def invoice_key_def invoice_life_def)
  next
    case (fresh d1 i)
    note frame = invoice_new_frame [OF fresh(3)]
    have other: "tbl_get (entities d1) k = Some i \<Longrightarrow>
        k = (ev_vendor_id ev, ''invoice'', in_external_id ev)" for k
      using entity_get_inj [OF fresh(4)] fresh(5) by blast
    have "invoice_life d' vx = invoice_life d1 vx" if "vx \<noteq> invoice_key ev"
      using that other frame
      by (cases vx) (auto simp: invoice_life_def invoice_key_def split: option.splits)
    moreover have "shipment_life d' vx = shipment_life d1 vx"
      using other frame by (auto simp: shipment_life_def split: option.splits)
    moreover have "life_apply INVOICE_TRANSITIONS True (invoice_input ev)
        (invoice_life d1 (invoice_key ev)) = (out, invoice_life d' (invoice_key ev))"
      using fresh(2,5) frame invoice_new_step [OF fresh(3)]
      by (simp add: invoice_input_def invoice_life_def invoice_key_def)
    ultimately show ?thesis using life_with_entity [OF ok fresh(1)] by simp
  qed
  then show "life_apply INVOICE_TRANSITIONS True (invoice_input ev)
           (invoice_life d (invoice_key ev)) = (out, invoice_life d' (invoice_key ev))"
    "vx \<noteq> invoice_key ev \<Longrightarrow> invoice_life d' vx = invoice_life d vx"
    "shipment_life d' vx = shipment_life d vx" by blast+
qed

section \<open>A concrete run\<close>

text \<open>Inputs for the witnesses: five raw events, and canonical events of one shipment and one
  invoice of the vendor \<open>maersk\<close>.\<close>

definition sample_raw :: raw_row where
  "sample_raw = \<lparr>rw_vendor_id = Some ''maersk'', rw_received_at = 0, rw_headers = [],
     rw_payload = JObj [], rw_signature_verified = True, rw_status = Queued, rw_error = None,
     rw_processed_at = None\<rparr>"

definition sample_db :: db where
  "sample_db = empty_db\<lparr>raw_events := map (\<lambda>e. (e, sample_raw)) [''e1'', ''e2'', ''e3'', ''e4'', ''e5'']\<rparr>"

definition ship_at :: "string \<Rightarrow> ShipmentEventType \<Rightarrow> int \<Rightarrow> shipment_event" where
  "ship_at e k t = sample_normalized\<lparr>ev_event_id := e, sh_event_type := k,
     sh_timestamp := \<lparr>dt_wall = t, dt_off = Some 0\<rparr>\<rparr>"

definition bill_at :: "string \<Rightarrow> InvoiceEventType \<Rightarrow> int \<Rightarrow> invoice_event" where
  "bill_at e k t =
     \<lparr>ev_event_id = e, ev_vendor_id = ''maersk'', ev_schema_version = ''v1'', ev_source = LLM,
      ev_confidence = 1, in_external_id = ''INV-7'', in_event_type = k,
      in_timestamp = \<lparr>dt_wall = t, dt_off = Some 0\<rparr>,
      in_amount = Some \<lparr>m_currency = ''USD'', m_amount_minor = 12500\<rparr>, in_due_at = None,
      in_linked_references = [(''po'', JStr ''P1'')], in_raw_kind = None\<rparr>"

definition sample_key :: "string \<times> string" where
  "sample_key = (''maersk'', ''MAEU1'')"

definition sample_bill_key :: "string \<times> string" where
  "sample_bill_key = (''maersk'', ''INV-7'')"

definition outcome_of :: "(db \<times> 'o) result \<Rightarrow> 'o option" where
  "outcome_of m = (case m of Inl _ \<Rightarrow> None | Inr (_, out) \<Rightarrow> Some out)"

definition db_of :: "(db \<times> 'o) result \<Rightarrow> db" where
  "db_of m = (case m of Inl _ \<Rightarrow> empty_db | Inr (d, _) \<Rightarrow> d)"

lemma outcome_of_Some: "outcome_of m = Some out \<Longrightarrow> m = Inr (db_of m, out)"
  by (auto simp: outcome_of_def db_of_def split: sum.splits)

lemma db_ok_sample: "db_ok sample_db"
  by code_simp

text \<open>C15: \<open>apply_shipment\<close> implements the abstract lifecycle.  When the handler returns, what the
  database holds about the shipment of the event (the ids already applied to it, its state, the
  time of the last applied event and the version) has moved by exactly one \<open>life_apply\<close> step of
  the shipment table, the outcome returned is the outcome of that step, every other shipment and
  every invoice is as before, and the database invariant still holds.\<close>

theorem apply_shipment_refines_lifecycle:
  assumes "db_ok d" "apply_shipment d ev = Inr (d', out)"
  shows "life_apply SHIPMENT_TRANSITIONS False (shipment_input ev)
           (shipment_life d (shipment_key ev)) = (out, shipment_life d' (shipment_key ev)) \<and>
         (\<forall>vx. vx = shipment_key ev \<or> shipment_life d' vx = shipment_life d vx) \<and>
         (\<forall>vx. invoice_life d' vx = invoice_life d vx) \<and> db_ok d'"
  using shipment_refines [OF assms] db_ok_apply_shipment [OF assms] by blast

lemma apply_shipment_refines_lifecycle_witness:
  "let r = apply_shipment sample_db (ship_at ''e1'' ev_PICKED_UP 5) in
   life_apply SHIPMENT_TRANSITIONS False (shipment_input (ship_at ''e1'' ev_PICKED_UP 5))
     (shipment_life sample_db (shipment_key (ship_at ''e1'' ev_PICKED_UP 5))) =
   (AppliedInitial, shipment_life (db_of r) (shipment_key (ship_at ''e1'' ev_PICKED_UP 5)))"
proof -
  have "outcome_of (apply_shipment sample_db (ship_at ''e1'' ev_PICKED_UP 5)) = Some AppliedInitial"
    by code_simp
  from apply_shipment_refines_lifecycle [OF db_ok_sample outcome_of_Some [OF this]]
  show ?thesis by (simp add: Let_def)
qed

text \<open>C16: \<open>apply_invoice\<close> implements the abstract lifecycle of the invoice table, in which an event
  whose target is the current state counts as applied; every other invoice and every shipment is
  as before, and the database invariant still holds.\<close>

theorem apply_invoice_refines_lifecycle:
  assumes "db_ok d" "apply_invoice d ev = Inr (d', out)"
  shows "life_apply INVOICE_TRANSITIONS True (invoice_input ev)
           (invoice_life d (invoice_key ev)) = (out, invoice_life d' (invoice_key ev)) \<and>
         (\<forall>vx. vx = invoice_key ev \<or> invoice_life d' vx = invoice_life d vx) \<and>
         (\<forall>vx. shipment_life d' vx = shipment_life d vx) \<and> db_ok d'"
  using invoice_refines [OF assms] db_ok_apply_invoice [OF assms] by blast

lemma apply_invoice_refines_lifecycle_witness:
  "let r = apply_invoice sample_db (bill_at ''e1'' ev_PAID 5) in
   life_apply INVOICE_TRANSITIONS True (invoice_input (bill_at ''e1'' ev_PAID 5))
     (invoice_life sample_db (invoice_key (bill_at ''e1'' ev_PAID 5))) =
   (AppliedInitial, invoice_life (db_of r) (invoice_key (bill_at ''e1'' ev_PAID 5)))"
proof -
  have "outcome_of (apply_invoice sample_db (bill_at ''e1'' ev_PAID 5)) = Some AppliedInitial"
    by code_simp
  from apply_invoice_refines_lifecycle [OF db_ok_sample outcome_of_Some [OF this]]
  show ?thesis by (simp add: Let_def)
qed

section \<open>When the handlers succeed\<close>

text \<open>The version of the row an event of this input would move, if it moves one.\<close>

definition version_room :: "'st life \<Rightarrow> bool" where
  "version_room l = (case snd l of None \<Rightarrow> True | Some r \<Rightarrow> p_version r < int4_max)"

lemma apply_shipment_result:
  assumes ok: "db_ok d"
  shows "apply_shipment d ev = Inl err \<Longrightarrow>
     ev_event_id ev \<notin> fst (shipment_life d (shipment_key ev)) \<and>
     (err = ForeignKeyViolation \<and> \<not> event_exists d (ev_event_id ev) \<or>
      err = DataError \<and> event_exists d (ev_event_id ev) \<and>
        \<not> version_room (shipment_life d (shipment_key ev)))"
proof -
  obtain d1 i where w: "with_entity d (ev_vendor_id ev) ''shipment'' (sh_external_id ev) = (d1, i)"
    by (metis surj_pair)
  have "shipment_life d (shipment_key ev) = shipment_life d1 (shipment_key ev)"
    using life_with_entity [OF ok w] by simp
  also have "\<dots> = (seen_events d i, map_option shipment_proj (tbl_get (shipments d) i))"
    using seen_cong [OF with_entity_frame(4) [OF w]] with_entity_frame(2) [OF w]
    by (simp add: shipment_life_def shipment_key_def with_entity_get [OF w])
  finally have life: "shipment_life d (shipment_key ev) =
      (seen_events d i, map_option shipment_proj (tbl_get (shipments d) i))" .
  assume "apply_shipment d ev = Inl err"
  then show ?thesis
    using with_entity_frame [OF w]
    by (auto simp: apply_shipment_eq [OF ok w] life seen_events_iff shipment_new_def version_room_def
        shipment_proj_def Let_def bindE_eq_Inl int4_succ_def split: if_splits option.splits)
qed

lemma apply_invoice_result:
  assumes ok: "db_ok d"
  shows "apply_invoice d ev = Inl err \<Longrightarrow>
     ev_event_id ev \<notin> fst (invoice_life d (invoice_key ev)) \<and>
     (err = ForeignKeyViolation \<and> \<not> event_exists d (ev_event_id ev) \<or>
      err = DataError \<and> event_exists d (ev_event_id ev) \<and>
        (\<not> version_room (invoice_life d (invoice_key ev)) \<or>
         \<not> is_ok (int8_param (invoice_amount_minor ev))) \<or>
      err = CheckViolation \<and> event_exists d (ev_event_id ev) \<and> \<not> amount_check (invoice_amount_minor ev))"
proof -
  obtain d1 i where w: "with_entity d (ev_vendor_id ev) ''invoice'' (in_external_id ev) = (d1, i)"
    by (metis surj_pair)
  have "invoice_life d (invoice_key ev) = invoice_life d1 (invoice_key ev)"
    using life_with_entity [OF ok w] by simp
  also have "\<dots> = (seen_events d i, map_option invoice_proj (tbl_get (invoices d) i))"
    using seen_cong [OF with_entity_frame(4) [OF w]] with_entity_frame(3) [OF w]
    by (simp add: invoice_life_def invoice_key_def with_entity_get [OF w])
  finally have life: "invoice_life d (invoice_key ev) =
      (seen_events d i, map_option invoice_proj (tbl_get (invoices d) i))" .
  assume "apply_invoice d ev = Inl err"
  then show ?thesis
    using with_entity_frame [OF w]
    by (auto simp: apply_invoice_eq [OF ok w] life seen_events_iff invoice_new_def version_room_def
        invoice_proj_def Let_def bindE_eq_Inl int4_succ_def int8_param_def
        split: if_splits option.splits)
qed

text \<open>A validated event passes the check.\<close>

lemma valid_amount_check: "event_valid (Invoice i) \<Longrightarrow> amount_check (invoice_amount_minor i)"
  by (auto simp: invoice_valid_def money_valid_def amount_check_def invoice_amount_minor_def split: option.splits)

text \<open>The handlers never hit their own assertions or the unique constraints of the
  projections: on a database that satisfies the invariant, \<open>apply_event\<close> fails only with a
  foreign key violation, when no raw event has the id of the event, with a numeric error of
  the database, when the row's version has reached the largest \<open>INTEGER\<close> or the invoice amount
  does not fit a \<open>BIGINT\<close>, or with a check violation, when the amount is negative.\<close>

lemma apply_event_fails_only:
  assumes "db_ok d" "apply_event d ev = Inl err"
  shows "err = ForeignKeyViolation \<and> \<not> event_exists d (event_id ev) \<or>
         err = DataError \<and> event_exists d (event_id ev) \<and>
           (case ev of
              Shipment s \<Rightarrow> \<not> version_room (shipment_life d (shipment_key s))
            | Invoice i \<Rightarrow> \<not> version_room (invoice_life d (invoice_key i)) \<or>
                          \<not> is_ok (int8_param (invoice_amount_minor i))
            | Unclassified u \<Rightarrow> False) \<or>
         err = CheckViolation \<and> event_exists d (event_id ev) \<and>
           (case ev of Invoice i \<Rightarrow> \<not> amount_check (invoice_amount_minor i) | _ \<Rightarrow> False)"
  using assms
  by (cases ev) (auto dest: apply_shipment_result apply_invoice_result)

lemma apply_event_fails_only_witness:
  "\<not> event_exists sample_db (event_id (Shipment (ship_at ''e9'' ev_PICKED_UP 5)))"
proof -
  have "apply_event sample_db (Shipment (ship_at ''e9'' ev_PICKED_UP 5)) = Inl ForeignKeyViolation"
    by code_simp
  from apply_event_fails_only [OF db_ok_sample this] show ?thesis by simp
qed

section \<open>Sequences of events\<close>

text \<open>Several events, one transaction each; the first that fails ends the run.\<close>

fun apply_all :: "db \<Rightarrow> CanonicalEvent list \<Rightarrow> (db \<times> ApplyOutcome list) result" where
  "apply_all d [] = Inr (d, [])"
| "apply_all d (ev # evs) = bindE (apply_event d ev) (\<lambda>(d1, out).
     bindE (apply_all d1 evs) (\<lambda>(d2, outs). Inr (d2, out # outs)))"

definition shipment_inputs :: "string \<times> string \<Rightarrow> CanonicalEvent list \<Rightarrow> ShipmentState life_event list"
where
  "shipment_inputs vx evs = concat (map (\<lambda>ev. case ev of
       Shipment s \<Rightarrow> if shipment_key s = vx then [shipment_input s] else [] | _ \<Rightarrow> []) evs)"

definition invoice_inputs :: "string \<times> string \<Rightarrow> CanonicalEvent list \<Rightarrow> InvoiceState life_event list"
where
  "invoice_inputs vx evs = concat (map (\<lambda>ev. case ev of
       Invoice i \<Rightarrow> if invoice_key i = vx then [invoice_input i] else [] | _ \<Rightarrow> []) evs)"

definition sample_batch :: "CanonicalEvent list" where
  "sample_batch =
     [Shipment (ship_at ''e1'' ev_PICKED_UP 5), Invoice (bill_at ''e2'' ev_ISSUED 6),
      Shipment (ship_at ''e3'' ev_DELIVERED 9), Invoice (bill_at ''e4'' ev_PAID 7)]"

text \<open>A late event and a repeated one, after the batch.\<close>

definition sample_tail :: "CanonicalEvent list" where
  "sample_tail = [Shipment (ship_at ''e5'' ev_IN_TRANSIT 8), Invoice (bill_at ''e4'' ev_PAID 7)]"

abbreviation sample_after :: db where
  "sample_after \<equiv> db_of (apply_all sample_db sample_batch)"

lemma sample_batch_run:
  "apply_all sample_db sample_batch =
     Inr (sample_after, [AppliedInitial, AppliedInitial, Applied, Applied])"
  by (rule outcome_of_Some) code_simp

lemma sample_tail_run:
  "apply_all sample_after sample_tail =
     Inr (db_of (apply_all sample_after sample_tail), [StaleSkipped, AlreadyApplied])"
  by (rule outcome_of_Some) code_simp

lemma apply_all_db_ok: "db_ok d \<Longrightarrow> apply_all d evs = Inr (d', outs) \<Longrightarrow> db_ok d'"
  by (induction evs arbitrary: d outs) (auto simp: bindE_eq_Inr dest: db_ok_apply_event)

lemma apply_event_shipment_life:
  assumes "db_ok d" "apply_event d ev = Inr (d', out)"
  shows "shipment_life d' vx =
     life_run SHIPMENT_TRANSITIONS False (shipment_inputs vx [ev]) (shipment_life d vx)"
proof (cases ev)
  case (Shipment s)
  with assms(2) have ap: "apply_shipment d s = Inr (d', out)" by simp
  show ?thesis
    using shipment_refines(1) [OF assms(1) ap] shipment_refines(2) [OF assms(1) ap, of vx] Shipment
    by (cases "shipment_key s = vx") (auto simp: shipment_inputs_def)
next
  case (Invoice i)
  with assms show ?thesis by (auto simp: shipment_inputs_def intro: invoice_refines(3))
qed (use assms in \<open>auto simp: shipment_inputs_def\<close>)

lemma apply_event_invoice_life:
  assumes "db_ok d" "apply_event d ev = Inr (d', out)"
  shows "invoice_life d' vx =
     life_run INVOICE_TRANSITIONS True (invoice_inputs vx [ev]) (invoice_life d vx)"
proof (cases ev)
  case (Invoice i)
  with assms(2) have ap: "apply_invoice d i = Inr (d', out)" by simp
  show ?thesis
    using invoice_refines(1) [OF assms(1) ap] invoice_refines(2) [OF assms(1) ap, of vx] Invoice
    by (cases "invoice_key i = vx") (auto simp: invoice_inputs_def)
next
  case (Shipment s)
  with assms show ?thesis by (auto simp: invoice_inputs_def intro: shipment_refines(3))
qed (use assms in \<open>auto simp: invoice_inputs_def\<close>)

lemma shipment_inputs_Cons:
  "shipment_inputs vx (ev # evs) = shipment_inputs vx [ev] @ shipment_inputs vx evs"
  by (simp add: shipment_inputs_def)

lemma invoice_inputs_Cons:
  "invoice_inputs vx (ev # evs) = invoice_inputs vx [ev] @ invoice_inputs vx evs"
  by (simp add: invoice_inputs_def)

lemma apply_all_life:
  "db_ok d \<Longrightarrow> apply_all d evs = Inr (d', outs) \<Longrightarrow>
     shipment_life d' vx =
       life_run SHIPMENT_TRANSITIONS False (shipment_inputs vx evs) (shipment_life d vx) \<and>
     invoice_life d' vx =
       life_run INVOICE_TRANSITIONS True (invoice_inputs vx evs) (invoice_life d vx)"
proof (induction evs arbitrary: d outs)
  case Nil
  then show ?case by (simp add: shipment_inputs_def invoice_inputs_def)
next
  case (Cons ev evs)
  from Cons.prems(2) obtain d1 out outs' where step: "apply_event d ev = Inr (d1, out)"
      and rest: "apply_all d1 evs = Inr (d', outs')"
    by (auto simp: bindE_eq_Inr)
  show ?case
    unfolding shipment_inputs_Cons [of _ _ evs] invoice_inputs_Cons [of _ _ evs] life_run_append
    using Cons.IH [OF db_ok_apply_event [OF Cons.prems(1) step] rest]
      apply_event_shipment_life [OF Cons.prems(1) step] apply_event_invoice_life [OF Cons.prems(1) step]
    by simp
qed

lemma db_ok_sample_after: "db_ok sample_after"
  by (rule apply_all_db_ok [OF db_ok_sample sample_batch_run])

text \<open>C6: the history of each shipment and each invoice is independent of every other entity.
  After any sequence of events, the state, time, version and seen ids of an entity are those of
  the abstract lifecycle run on just the events of that entity, in their order, whatever events
  of other entities, other vendors or the other classification stood between them.\<close>

theorem entity_histories_are_independent:
  assumes "db_ok d" "apply_all d evs = Inr (d', outs)"
  shows "shipment_life d' vx =
           life_run SHIPMENT_TRANSITIONS False (shipment_inputs vx evs) (shipment_life d vx) \<and>
         invoice_life d' vx =
           life_run INVOICE_TRANSITIONS True (invoice_inputs vx evs) (invoice_life d vx)"
  using apply_all_life [OF assms] .

lemma entity_histories_are_independent_witness:
  "shipment_life sample_after sample_key =
     life_run SHIPMENT_TRANSITIONS False
       [(''e1'', PICKED_UP, 5), (''e3'', DELIVERED, 9)] (shipment_life sample_db sample_key)"
proof -
  have "shipment_inputs sample_key sample_batch = [(''e1'', PICKED_UP, 5), (''e3'', DELIVERED, 9)]"
    by code_simp
  with entity_histories_are_independent [OF db_ok_sample sample_batch_run, of sample_key]
  show ?thesis by simp
qed

definition in_seen :: "db \<Rightarrow> CanonicalEvent \<Rightarrow> bool" where
  "in_seen d ev = (case ev of
       Shipment s \<Rightarrow> ev_event_id s \<in> fst (shipment_life d (shipment_key s))
     | Invoice i \<Rightarrow> ev_event_id i \<in> fst (invoice_life d (invoice_key i))
     | Unclassified _ \<Rightarrow> True)"

definition repeat_outcome :: "CanonicalEvent \<Rightarrow> ApplyOutcome" where
  "repeat_outcome ev = (case ev of Unclassified _ \<Rightarrow> UnclassifiedRecorded | _ \<Rightarrow> AlreadyApplied)"

lemma apply_event_seen:
  assumes ok: "db_ok d" and seen: "in_seen d ev"
  shows "apply_event d ev = Inr (d, repeat_outcome ev)"
proof (cases ev)
  case (Shipment s)
  obtain d1 i where w: "with_entity d (ev_vendor_id s) ''shipment'' (sh_external_id s) = (d1, i)"
    by (metis surj_pair)
  from seen Shipment w show ?thesis
    by (auto simp: in_seen_def repeat_outcome_def shipment_life_def shipment_key_def seen_events_iff
        with_entity_def apply_shipment_eq [OF ok w] split: option.splits)
next
  case (Invoice s)
  obtain d1 i where w: "with_entity d (ev_vendor_id s) ''invoice'' (in_external_id s) = (d1, i)"
    by (metis surj_pair)
  from seen Invoice w show ?thesis
    by (auto simp: in_seen_def repeat_outcome_def invoice_life_def invoice_key_def seen_events_iff
        with_entity_def apply_invoice_eq [OF ok w] split: option.splits)
qed (simp add: repeat_outcome_def)

text \<open>What an idempotent log promises, and what replays of whole batches do under it.\<close>

locale idempotent_log =
  fixes legal :: "'d \<Rightarrow> bool"
    and handle :: "'d \<Rightarrow> 'e \<Rightarrow> ('d \<times> 'o) result"
    and seen :: "'d \<Rightarrow> 'e \<Rightarrow> bool"
    and repeated :: "'e \<Rightarrow> 'o"
  assumes inv_apply: "legal d \<Longrightarrow> handle d e = Inr (d', out) \<Longrightarrow> legal d'"
    and seen_apply: "legal d \<Longrightarrow> handle d e = Inr (d', out) \<Longrightarrow> seen d' e"
    and seen_stays: "legal d \<Longrightarrow> handle d e = Inr (d', out) \<Longrightarrow> seen d e' \<Longrightarrow> seen d' e'"
    and seen_noop: "legal d \<Longrightarrow> seen d e \<Longrightarrow> handle d e = Inr (d, repeated e)"
begin

primrec batch :: "'d \<Rightarrow> 'e list \<Rightarrow> ('d \<times> 'o list) result" where
  "batch d [] = Inr (d, [])"
| "batch d (e # es) = bindE (handle d e) (\<lambda>(d1, out).
     bindE (batch d1 es) (\<lambda>(d2, outs). Inr (d2, out # outs)))"

lemma batch_inv_seen:
  "legal d \<Longrightarrow> batch d es = Inr (d', outs) \<Longrightarrow> legal d' \<and> (\<forall>e. seen d e \<or> e \<in> set es \<longrightarrow> seen d' e)"
proof (induction es arbitrary: d outs)
  case (Cons e es)
  from Cons.prems(2) obtain d1 out outs' where "handle d e = Inr (d1, out)" "batch d1 es = Inr (d', outs')"
    by (auto simp: bindE_eq_Inr)
  with Cons.IH [of d1] Cons.prems(1) show ?case
    by (auto dest: inv_apply seen_apply seen_stays)
qed simp

lemma batch_noop: "legal d \<Longrightarrow> \<forall>e \<in> set es. seen d e \<Longrightarrow> batch d es = Inr (d, map repeated es)"
  by (induction es) (simp_all add: seen_noop)

lemma batch_again:
  assumes "legal d" "batch d es = Inr (d', outs)" "set es' \<subseteq> set es"
  shows "batch d' es' = Inr (d', map repeated es')"
  using batch_inv_seen [OF assms(1,2)] assms(3) by (intro batch_noop) auto

end


lemma apply_event_seen_after:
  assumes "db_ok d" "apply_event d ev = Inr (d', out)"
  shows "in_seen d' ev" and "in_seen d ev' \<Longrightarrow> in_seen d' ev'"
proof -
  have runs: "shipment_life d' vx =
       life_run SHIPMENT_TRANSITIONS False (shipment_inputs vx [ev]) (shipment_life d vx)"
     "invoice_life d' vx =
       life_run INVOICE_TRANSITIONS True (invoice_inputs vx [ev]) (invoice_life d vx)" for vx
    using apply_event_shipment_life [OF assms] apply_event_invoice_life [OF assms] by blast+
  show "in_seen d' ev"
    unfolding in_seen_def runs shipment_lc.run_seen invoice_lc.run_seen
    by (cases ev) (auto simp: shipment_inputs_def invoice_inputs_def shipment_input_def invoice_input_def)
  show "in_seen d ev' \<Longrightarrow> in_seen d' ev'"
    unfolding in_seen_def runs shipment_lc.run_seen invoice_lc.run_seen
    by (cases ev') auto
qed

interpretation events: idempotent_log db_ok apply_event in_seen repeat_outcome
  by unfold_locales
    (auto intro: db_ok_apply_event apply_event_seen_after apply_event_seen)

lemma apply_all_batch: "apply_all d evs = events.batch d evs"
  by (induction evs arbitrary: d) (auto intro!: bindE_cong)

text \<open>C7: replays are harmless.  After a batch of events has been applied, applying any of its
  events again, in any order and any number of times, returns the same database, byte for byte:
  every classified event is reported as already applied.\<close>

theorem replayed_events_change_nothing:
  assumes "db_ok d" "apply_all d evs = Inr (d', outs)" "set again \<subseteq> set evs"
  shows "apply_all d' again = Inr (d', map repeat_outcome again)"
  using events.batch_again assms by (simp add: apply_all_batch)

lemma replayed_events_change_nothing_witness:
  "apply_all sample_after (rev sample_batch @ sample_batch) =
     Inr (sample_after, replicate 8 AlreadyApplied)"
proof -
  have "map repeat_outcome (rev sample_batch @ sample_batch) = replicate 8 AlreadyApplied"
    by code_simp
  with replayed_events_change_nothing
    [OF db_ok_sample sample_batch_run, of "rev sample_batch @ sample_batch"]
  show ?thesis by simp
qed

definition shipment_state :: "db \<Rightarrow> string \<times> string \<Rightarrow> ShipmentState option" where
  "shipment_state d vx = map_option p_state (snd (shipment_life d vx))"

definition invoice_state :: "db \<Rightarrow> string \<times> string \<Rightarrow> InvoiceState option" where
  "invoice_state d vx = map_option p_state (snd (invoice_life d vx))"

lemma apply_all_shipment_steps:
  assumes "db_ok d" "apply_all d evs = Inr (d', outs)" "snd (shipment_life d vx) = Some r"
  shows "\<exists>r'. snd (shipment_life d' vx) = Some r' \<and> shipment_lc.steps_to r r'"
  using conjunct1 [OF apply_all_life [OF assms(1,2), of vx]] assms(3) shipment_lc.run_steps_to
  by (metis prod.collapse)

lemma apply_all_invoice_steps:
  assumes "db_ok d" "apply_all d evs = Inr (d', outs)" "snd (invoice_life d vx) = Some r"
  shows "\<exists>r'. snd (invoice_life d' vx) = Some r' \<and> invoice_lc.steps_to r r'"
  using conjunct2 [OF apply_all_life [OF assms(1,2), of vx]] assms(3) invoice_lc.run_steps_to
  by (metis prod.collapse)

text \<open>A delivered or cancelled shipment is final: no sequence of events, of whatever vendor,
  kind or time, changes its state again.\<close>

lemma final_shipments_stay:
  assumes "db_ok d" "apply_all d evs = Inr (d', outs)"
    "shipment_state d vx = Some st" "SHIPMENT_TRANSITIONS (Some st) = {}"
  shows "shipment_state d' vx = Some st"
proof -
  from assms(3) obtain r where r: "snd (shipment_life d vx) = Some r" "p_state r = st"
    by (auto simp: shipment_state_def)
  from apply_all_shipment_steps [OF assms(1,2) r(1)] obtain r'
    where r': "snd (shipment_life d' vx) = Some r'" "shipment_lc.steps_to r r'" by blast
  with assms(4) r(2) have "p_state r' = st"
    by (auto simp: shipment_lc.steps_to_def elim: converse_rtranclE)
  with r'(1) show ?thesis by (simp add: shipment_state_def)
qed

lemma final_shipments_stay_witness:
  "shipment_state (db_of (apply_all sample_after sample_tail)) sample_key = Some DELIVERED"
proof (rule final_shipments_stay [OF db_ok_sample_after sample_tail_run])
  show "shipment_state sample_after sample_key = Some DELIVERED" by code_simp
qed simp

text \<open>The life of an invoice is acyclic.  Once it has left a state, no later sequence of events
  brings it back there: a paid invoice is never issued again, a voided or refunded one never
  changes.\<close>

lemma invoice_states_never_return:
  assumes "db_ok d0" "apply_all d0 evs1 = Inr (d1, outs1)" "apply_all d1 evs2 = Inr (d2, outs2)"
    and "invoice_state d0 vx = Some st" "invoice_state d1 vx \<noteq> Some st"
  shows "invoice_state d2 vx \<noteq> Some st"
proof -
  from assms(4) obtain r where r: "snd (invoice_life d0 vx) = Some r" "p_state r = st"
    by (auto simp: invoice_state_def)
  from apply_all_invoice_steps [OF assms(1,2) r(1)] obtain r1
    where r1: "snd (invoice_life d1 vx) = Some r1" "invoice_lc.steps_to r r1" by blast
  from apply_all_invoice_steps [OF apply_all_db_ok [OF assms(1,2)] assms(3) r1(1)] obtain r2
    where r2: "snd (invoice_life d2 vx) = Some r2" "invoice_lc.steps_to r1 r2" by blast
  from assms(5) r1(1) r(2) have "p_state r1 \<noteq> p_state r" by (simp add: invoice_state_def)
  from invoice_lc.never_reentered [OF r1(2) r2(2) this] r2(1) r(2) show ?thesis
    by (simp add: invoice_state_def)
qed

lemma invoice_states_never_return_witness:
  "invoice_state (db_of (apply_all
       (db_of (apply_all (db_of (apply_all sample_db [Invoice (bill_at ''e2'' ev_ISSUED 6)]))
         [Invoice (bill_at ''e4'' ev_PAID 7)]))
       [Invoice (bill_at ''e5'' ev_ISSUED 8)])) sample_bill_key \<noteq> Some ISSUED"
proof -
  let ?d0 = "db_of (apply_all sample_db [Invoice (bill_at ''e2'' ev_ISSUED 6)])"
  let ?d1 = "db_of (apply_all ?d0 [Invoice (bill_at ''e4'' ev_PAID 7)])"
  have "outcome_of (apply_all sample_db [Invoice (bill_at ''e2'' ev_ISSUED 6)]) = Some [AppliedInitial]"
    by code_simp
  from apply_all_db_ok [OF db_ok_sample outcome_of_Some [OF this]] have ok: "db_ok ?d0" .
  have one: "outcome_of (apply_all ?d0 [Invoice (bill_at ''e4'' ev_PAID 7)]) = Some [Applied]"
    by code_simp
  have two: "outcome_of (apply_all ?d1 [Invoice (bill_at ''e5'' ev_ISSUED 8)]) = Some [TransitionRejected]"
    by code_simp
  have "invoice_state ?d0 sample_bill_key = Some ISSUED" by code_simp
  moreover have "invoice_state ?d1 sample_bill_key \<noteq> Some ISSUED" by code_simp
  ultimately show ?thesis
    by (rule invoice_states_never_return [OF ok outcome_of_Some [OF one] outcome_of_Some [OF two]])
qed

text \<open>Along any sequence of events the version of a projection and the time of its last applied
  event never decrease, and a row whose version has not changed has not changed at all in state or
  time: the version is a faithful change counter.\<close>

lemma versions_count_changes:
  assumes "db_ok d" "apply_all d evs = Inr (d', outs)" "snd (shipment_life d vx) = Some r"
  shows "\<exists>r'. snd (shipment_life d' vx) = Some r' \<and> p_version r \<le> p_version r' \<and> p_ts r \<le> p_ts r' \<and>
           (p_version r' > p_version r \<or> r' = r)"
  using apply_all_shipment_steps [OF assms] by (fastforce simp: shipment_lc.steps_to_def)

lemma versions_count_changes_witness:
  "\<exists>r'. snd (shipment_life (db_of (apply_all sample_after sample_tail)) sample_key) = Some r' \<and>
     2 \<le> p_version r' \<and> 9 \<le> p_ts r'"
proof -
  have "snd (shipment_life sample_after sample_key) =
      Some \<lparr>p_state = DELIVERED, p_ts = 9, p_version = 2\<rparr>" by code_simp
  from versions_count_changes [OF db_ok_sample_after sample_tail_run this] show ?thesis by auto
qed

text \<open>A second shipment event for the state the shipment is already in is never applied.  It is
  not older than the row, the target equals the current state, and the handler reports a rejected
  transition, so the branch of the code that handles equal states is unreachable.\<close>

lemma repeated_shipment_state_is_rejected:
  assumes "db_ok d" "apply_shipment d ev = Inr (d', out)"
    and "ev_event_id ev \<notin> fst (shipment_life d (shipment_key ev))"
    and "snd (shipment_life d (shipment_key ev)) = Some r"
    and "p_state r = SHIPMENT_EVENT_TO_STATE (sh_event_type ev)"
    and "p_ts r \<le> dt_instant (sh_timestamp ev)"
  shows "out = TransitionRejected \<and> snd (shipment_life d' (shipment_key ev)) = Some r"
proof -
  obtain seen where "shipment_life d (shipment_key ev) = (seen, Some r)"
    using assms(4) by (metis prod.collapse)
  then show ?thesis
    using shipment_refines(1) [OF assms(1,2), symmetric] assms(3,5,6)
      shipment_lc.repeat_rejected [of r "dt_instant (sh_timestamp ev)"]
    by (auto simp: shipment_input_def)
qed

lemma repeated_shipment_state_is_rejected_witness:
  "outcome_of (apply_shipment sample_after (ship_at ''e5'' ev_DELIVERED 9)) = Some TransitionRejected"
proof -
  have run: "outcome_of (apply_shipment sample_after (ship_at ''e5'' ev_DELIVERED 9)) =
      Some TransitionRejected" by code_simp
  have "snd (shipment_life sample_after (shipment_key (ship_at ''e5'' ev_DELIVERED 9))) =
      Some \<lparr>p_state = DELIVERED, p_ts = 9, p_version = 2\<rparr>" by code_simp
  moreover have "ev_event_id (ship_at ''e5'' ev_DELIVERED 9) \<notin>
      fst (shipment_life sample_after (shipment_key (ship_at ''e5'' ev_DELIVERED 9)))" by code_simp
  ultimately have "TransitionRejected = TransitionRejected \<and>
      snd (shipment_life (db_of (apply_shipment sample_after (ship_at ''e5'' ev_DELIVERED 9)))
        (shipment_key (ship_at ''e5'' ev_DELIVERED 9))) =
      Some \<lparr>p_state = DELIVERED, p_ts = 9, p_version = 2\<rparr>"
    by (intro repeated_shipment_state_is_rejected [OF db_ok_sample_after outcome_of_Some [OF run]])
      (simp_all add: ship_at_def sample_normalized_def dt_instant_def)
  with run show ?thesis by simp
qed

section \<open>What is recorded and what is kept\<close>

lemma stale_with_entity [simp]:
  "with_entity d v t x = (d1, i) \<Longrightarrow> stale_event_log d1 = stale_event_log d"
  by (rule with_entity_frame)

lemma shipment_new_log:
  assumes "shipment_new d i ev = Inr (d', out)"
  shows "out \<in> {StaleSkipped, TransitionRejected} \<Longrightarrow> shipments d' = shipments d \<and>
      (\<exists>row. stale_event_log d' = stale_event_log d @ [row] \<and> st_entity_id row = i \<and>
         st_event_id row = ev_event_id ev \<and> (out = StaleSkipped) = (st_detail row \<noteq> None))"
    and "out \<notin> {StaleSkipped, TransitionRejected} \<Longrightarrow> stale_event_log d' = stale_event_log d"
  using assms
  by (auto simp: shipment_new_def Let_def mark_applied_def add_stale_def bindE_eq_Inr
      split: option.splits if_splits)

lemma invoice_new_log:
  assumes "invoice_new d i ev = Inr (d', out)"
  shows "out \<in> {StaleSkipped, TransitionRejected} \<Longrightarrow> invoices d' = invoices d \<and>
      (\<exists>row. stale_event_log d' = stale_event_log d @ [row] \<and> st_entity_id row = i \<and>
         st_event_id row = ev_event_id ev \<and> (out = StaleSkipped) = (st_detail row \<noteq> None))"
    and "out \<notin> {StaleSkipped, TransitionRejected} \<Longrightarrow> stale_event_log d' = stale_event_log d"
  using assms
  by (auto simp: invoice_new_def Let_def mark_applied_def add_stale_def bindE_eq_Inr
      split: option.splits if_splits)

text \<open>Every event that is not applied leaves a trace, and leaves the rows alone.  An event that
  is skipped as stale or rejected adds exactly one row to the stale event log, which names the
  event and carries the detail of the comparison exactly when the event was stale, and changes no
  shipment and no invoice row; every other outcome adds nothing to that log.\<close>

lemma skipped_events_are_logged:
  assumes "db_ok d" "apply_event d ev = Inr (d', out)"
  shows "if out \<in> {StaleSkipped, TransitionRejected}
         then shipments d' = shipments d \<and> invoices d' = invoices d \<and>
           (\<exists>row. stale_event_log d' = stale_event_log d @ [row] \<and>
              st_event_id row = event_id ev \<and> (out = StaleSkipped) = (st_detail row \<noteq> None))
         else stale_event_log d' = stale_event_log d"
proof (cases ev)
  case (Shipment s)
  with assms(2) have "apply_shipment d s = Inr (d', out)" by simp
  with assms(1) show ?thesis
  proof (cases rule: apply_shipment_cases)
    case (fresh d1 i)
    then show ?thesis
      using shipment_new_log [OF fresh(3)] shipment_new_frame(2) [OF fresh(3)]
        with_entity_frame [OF fresh(1)] Shipment by auto
  qed simp
next
  case (Invoice s)
  with assms(2) have "apply_invoice d s = Inr (d', out)" by simp
  with assms(1) show ?thesis
  proof (cases rule: apply_invoice_cases)
    case (fresh d1 i)
    then show ?thesis
      using invoice_new_log [OF fresh(3)] invoice_new_frame(2) [OF fresh(3)]
        with_entity_frame [OF fresh(1)] Invoice by auto
  qed simp
qed (use assms in simp)

lemma skipped_events_are_logged_witness:
  "\<exists>row. stale_event_log (db_of (apply_event sample_after (Shipment (ship_at ''e5'' ev_IN_TRANSIT 8)))) =
     stale_event_log sample_after @ [row] \<and> st_event_id row = ''e5'' \<and> st_detail row \<noteq> None"
proof -
  have "outcome_of (apply_event sample_after (Shipment (ship_at ''e5'' ev_IN_TRANSIT 8))) =
      Some StaleSkipped" by code_simp
  note logged = skipped_events_are_logged [OF db_ok_sample_after outcome_of_Some [OF this]]
  have skipped: "\<exists>row. stale_event_log (db_of (apply_event sample_after (Shipment (ship_at ''e5'' ev_IN_TRANSIT 8)))) =
     stale_event_log sample_after @ [row] \<and>
     st_event_id row = event_id (Shipment (ship_at ''e5'' ev_IN_TRANSIT 8)) \<and>
     (StaleSkipped = StaleSkipped) = (st_detail row \<noteq> None)"
    using logged by (simp only: insert_iff simp_thms if_True)
  have "event_id (Shipment (ship_at ''e5'' ev_IN_TRANSIT 8)) = ''e5''" by (simp add: ship_at_def)
  with skipped show ?thesis by (simp only: simp_thms)
qed

text \<open>The data a row holds besides its state: what a later row must still have.\<close>

definition shipment_keeps :: "shipment_row \<Rightarrow> shipment_row \<Rightarrow> bool" where
  "shipment_keeps r r' \<longleftrightarrow>
     fst ` set (sp_reference_ids r) \<subseteq> fst ` set (sp_reference_ids r') \<and>
     (sp_location r = None \<or> sp_location r' \<noteq> None)"

definition invoice_keeps :: "invoice_row \<Rightarrow> invoice_row \<Rightarrow> bool" where
  "invoice_keeps r r' \<longleftrightarrow>
     fst ` set (iv_linked_references r) \<subseteq> fst ` set (iv_linked_references r') \<and>
     (iv_currency r = None \<or> iv_currency r' \<noteq> None) \<and>
     (iv_amount_minor r = None \<or> iv_amount_minor r' \<noteq> None) \<and>
     (iv_due_at r = None \<or> iv_due_at r' \<noteq> None)"

lemma jsonb_concat_keys: "fst ` set a \<subseteq> fst ` set (jsonb_concat a b)"
proof -
  have "dom (map_of a) \<subseteq> dom (map_of (jsonb_concat a b))" by (auto simp: map_of_jsonb_concat)
  then show ?thesis by (simp add: dom_map_of_conv_image_fst)
qed

lemma coalesce_None: "coalesce a b = None \<longleftrightarrow> a = None \<and> b = None"
  by (cases a) (simp_all add: coalesce_def)

lemma keeps_refl: "shipment_keeps r r" "invoice_keeps q q"
  by (auto simp: shipment_keeps_def invoice_keeps_def)

lemma keeps_trans:
  "shipment_keeps a b \<Longrightarrow> shipment_keeps b c \<Longrightarrow> shipment_keeps a c"
  "invoice_keeps p q \<Longrightarrow> invoice_keeps q r \<Longrightarrow> invoice_keeps p r"
  by (auto simp: shipment_keeps_def invoice_keeps_def)

lemma row_updates_keep:
  "shipment_keeps r ((shipment_move_row now s r)\<lparr>sp_version := v\<rparr>)"
  "invoice_keeps q ((invoice_move_row now e q)\<lparr>iv_version := v\<rparr>)"
  "invoice_keeps q ((invoice_touch_row now e q)\<lparr>iv_version := v\<rparr>)"
  by (auto simp: shipment_keeps_def invoice_keeps_def shipment_move_row_def invoice_move_row_def
      invoice_touch_row_def coalesce_None simp del: not_None_eq
      intro: subsetD [OF jsonb_concat_keys])

lemma apply_event_keeps:
  assumes ok: "db_ok d" and ap: "apply_event d ev = Inr (d', out)"
  shows "tbl_get (shipments d) i = Some r \<Longrightarrow>
      \<exists>r'. tbl_get (shipments d') i = Some r' \<and> shipment_keeps r r'"
    and "tbl_get (invoices d) i = Some q \<Longrightarrow>
      \<exists>q'. tbl_get (invoices d') i = Some q' \<and> invoice_keeps q q'"
proof -
  have ship: "\<exists>r'. tbl_get (shipments d') i = Some r' \<and> shipment_keeps r r'"
    if "shipment_new d1 j s = Inr (d', out)" "tbl_get (shipments d1) i = Some r" for d1 j s
    using that keeps_refl row_updates_keep
    by (auto simp: shipment_new_def Let_def add_stale_def bindE_eq_Inr table_simps
        split: option.splits if_splits)
  have inv: "\<exists>q'. tbl_get (invoices d') i = Some q' \<and> invoice_keeps q q'"
    if "invoice_new d1 j s = Inr (d', out)" "tbl_get (invoices d1) i = Some q" for d1 j s
    using that keeps_refl row_updates_keep
    by (auto simp: invoice_new_def Let_def add_stale_def bindE_eq_Inr table_simps
        split: option.splits if_splits)
  show "\<exists>r'. tbl_get (shipments d') i = Some r' \<and> shipment_keeps r r'"
    if row: "tbl_get (shipments d) i = Some r"
  proof (cases ev)
    case (Shipment s)
    with ap have "apply_shipment d s = Inr (d', out)" by simp
    with ok show ?thesis
      by (cases rule: apply_shipment_cases) (use row keeps_refl ship in \<open>auto simp: with_entity_frame\<close>)
  next
    case (Invoice s)
    with ap have "apply_invoice d s = Inr (d', out)" by simp
    with ok show ?thesis
      by (cases rule: apply_invoice_cases)
        (use row keeps_refl in \<open>auto simp: with_entity_frame invoice_new_frame\<close>)
  qed (use ap row keeps_refl in auto)
  show "\<exists>q'. tbl_get (invoices d') i = Some q' \<and> invoice_keeps q q'"
    if row: "tbl_get (invoices d) i = Some q"
  proof (cases ev)
    case (Invoice s)
    with ap have "apply_invoice d s = Inr (d', out)" by simp
    with ok show ?thesis
      by (cases rule: apply_invoice_cases) (use row keeps_refl inv in \<open>auto simp: with_entity_frame\<close>)
  next
    case (Shipment s)
    with ap have "apply_shipment d s = Inr (d', out)" by simp
    with ok show ?thesis
      by (cases rule: apply_shipment_cases)
        (use row keeps_refl in \<open>auto simp: with_entity_frame shipment_new_frame\<close>)
  qed (use ap row keeps_refl in auto)
qed

text \<open>C17: no event ever erases data.  Along any sequence of events a shipment row keeps every
  reference id key and, once it has a location, has one; an invoice row keeps every linked
  reference key and, once it has a currency, an amount or a due date, has one.\<close>

theorem rows_never_lose_data:
  assumes "db_ok d" "apply_all d evs = Inr (d', outs)"
  shows "(\<forall>i r. tbl_get (shipments d) i \<noteq> Some r \<or>
            (\<exists>r'. tbl_get (shipments d') i = Some r' \<and> shipment_keeps r r')) \<and>
         (\<forall>i q. tbl_get (invoices d) i \<noteq> Some q \<or>
            (\<exists>q'. tbl_get (invoices d') i = Some q' \<and> invoice_keeps q q'))"
  using assms
proof (induction evs arbitrary: d outs)
  case Nil
  then show ?case using keeps_refl by auto
next
  case (Cons ev evs)
  from Cons.prems(2) obtain d1 out outs' where step: "apply_event d ev = Inr (d1, out)"
      and rest: "apply_all d1 evs = Inr (d', outs')"
    by (auto simp: bindE_eq_Inr)
  note IH = Cons.IH [OF db_ok_apply_event [OF Cons.prems(1) step] rest]
  note first = apply_event_keeps [OF Cons.prems(1) step]
  show ?case
  proof (intro conjI allI)
    fix i r
    show "tbl_get (shipments d) i \<noteq> Some r \<or>
        (\<exists>r'. tbl_get (shipments d') i = Some r' \<and> shipment_keeps r r')"
      using conjunct1 [OF IH, rule_format, of i] first(1) [of i r] by (blast intro: keeps_trans)
  next
    fix i q
    show "tbl_get (invoices d) i \<noteq> Some q \<or>
        (\<exists>q'. tbl_get (invoices d') i = Some q' \<and> invoice_keeps q q')"
      using conjunct2 [OF IH, rule_format, of i] first(2) [of i q] by (blast intro: keeps_trans)
  qed
qed

lemma rows_never_lose_data_witness:
  "\<exists>r r'. tbl_get (shipments sample_after) 1 = Some r \<and> sp_location r \<noteq> None \<and>
     tbl_get (shipments (db_of (apply_all sample_after sample_tail))) 1 = Some r' \<and>
     shipment_keeps r r'"
proof -
  have "map_option (\<lambda>r. sp_location r \<noteq> None) (tbl_get (shipments sample_after) 1) = Some True"
    by code_simp
  then obtain r where "tbl_get (shipments sample_after) 1 = Some r" "sp_location r \<noteq> None" by auto
  with rows_never_lose_data [OF db_ok_sample_after sample_tail_run] show ?thesis by blast
qed

end
