(* ===== verification/LLMFallback.thy ===== *)
theory LLMFallback
  imports LLMSchema SchemaDriven Refinement
begin

text \<open>
  \<open>app/llm/fallback.py\<close> and the result type of \<open>app/llm/provider.py\<close>: the only component that
  talks to a model provider.  The provider, the schema validator, the prompt files and the settings
  are the fields of the record \<open>fallback\<close>; a provider call is numbered, so that two calls with the
  same prompt may be answered differently.  A \<open>world\<close> is the database and the number of provider
  calls made so far: every operation returns it also when it raises, since the statements executed
  before the exception stay committed.
\<close>

section \<open>State\<close>

record LLMResult =
  lr_text :: string
  lr_model :: string
  lr_tokens_in :: int
  lr_tokens_out :: int
  lr_latency_ms :: int
  lr_cost_estimate :: rat

record LLMOutcome =
  lo_data :: json
  lo_source :: string
  lo_model :: string
  lo_prompt_version :: string
  lo_schema_version :: string
  lo_tokens_in :: int
  lo_tokens_out :: int
  lo_latency_ms :: int
  lo_cost_estimate :: rat

text \<open>
  \<open>fb_complete n prompt schema\<close> is the \<open>n\<close>-th call of \<open>provider.complete\<close>; \<open>fb_validate v schema\<close>
  whether \<open>jsonschema.validate\<close> accepts; \<open>fb_error_text\<close> the message of the exception an answer
  is rejected with; \<open>fb_elapsed n\<close> the milliseconds measured when \<open>n\<close> calls have been made.
\<close>

record fallback =
  fb_model :: string
  fb_complete :: "nat \<Rightarrow> string \<Rightarrow> json \<Rightarrow> LLMResult result"
  fb_validate :: "json \<Rightarrow> json \<Rightarrow> bool"
  fb_error_text :: "LLMResult result \<Rightarrow> string"
  fb_elapsed :: "nat \<Rightarrow> int"
  fb_prompt_template :: string
  fb_event_type_template :: string
  fb_schema :: json
  fb_prompt_version :: string
  fb_schema_version :: string
  fb_global_budget :: rat
  fb_vendor_budget :: rat

record world =
  wdb :: db
  wcalls :: nat

section \<open>Storage of answers\<close>

definition int4_param :: "int \<Rightarrow> int result" where
  "int4_param n = (if - int4_max - 1 \<le> n \<and> n \<le> int4_max then Inr n else Inl DataError)"

text \<open>A number stored in a \<open>NUMERIC(10, 6)\<close> column: rounded to millionths, half away from
  zero, and below ten thousand.\<close>

definition millionths :: "rat \<Rightarrow> int" where
  "millionths x = (if x \<ge> 0 then floor (x * 1000000 + 1/2) else - floor (1/2 - x * 1000000))"

definition numeric_10_6 :: "rat \<Rightarrow> rat result" where
  "numeric_10_6 x =
     (let k = millionths x in
      if abs k < 10000000000 then Inr (of_int k / 1000000) else Inl DataError)"

definition cache_get :: "db \<Rightarrow> string \<Rightarrow> cache_row option" where
  "cache_get d key = tbl_get (llm_cache d) key"

definition cache_set :: "string \<Rightarrow> LLMOutcome \<Rightarrow> db \<Rightarrow> db result" where
  "cache_set key out d =
     bindE (int4_param (lo_tokens_in out)) (\<lambda>ti.
     bindE (int4_param (lo_tokens_out out)) (\<lambda>to.
     bindE (int4_param (lo_latency_ms out)) (\<lambda>ms.
     bindE (numeric_10_6 (lo_cost_estimate out)) (\<lambda>cost.
       Inr (d\<lparr>llm_cache := tbl_insert key
         \<lparr>lc_output = lo_data out, lc_model = lo_model out,
          lc_prompt_version = lo_prompt_version out, lc_schema_version = lo_schema_version out,
          lc_tokens_in = ti, lc_tokens_out = to, lc_latency_ms = ms,
          lc_cost_estimate = cost\<rparr> (llm_cache d)\<rparr>)))))"

definition audit :: "string \<Rightarrow> LLMOutcome \<Rightarrow> string \<Rightarrow> db \<Rightarrow> db result" where
  "audit eid out decision d =
     bindE (int4_param (lo_tokens_in out)) (\<lambda>ti.
     bindE (int4_param (lo_tokens_out out)) (\<lambda>to.
     bindE (int4_param (lo_latency_ms out)) (\<lambda>ms.
     bindE (numeric_10_6 (lo_cost_estimate out)) (\<lambda>cost.
       if \<not> event_exists d eid then Inl ForeignKeyViolation
       else Inr (d\<lparr>llm_audit := llm_audit d @
         [\<lparr>la_event_id = eid, la_source = lo_source out, la_model = lo_model out,
           la_prompt_version = lo_prompt_version out, la_schema_version = lo_schema_version out,
           la_tokens_in = ti, la_tokens_out = to, la_latency_ms = ms, la_cost_estimate = cost,
           la_decision = decision, la_created_at = clock d\<rparr>]\<rparr>)))))"

section \<open>Budget\<close>

definition day_of :: "int \<Rightarrow> int" where
  "day_of t = t div 86400000000"

definition spent_today :: "db \<Rightarrow> (audit_row \<Rightarrow> bool) \<Rightarrow> rat" where
  "spent_today d p = sum_list (map la_cost_estimate
     (filter (\<lambda>a. day_of (la_created_at a) = day_of (clock d) \<and> la_source a = ''llm'' \<and> p a)
        (llm_audit d)))"

definition budget_allow :: "fallback \<Rightarrow> db \<Rightarrow> string \<Rightarrow> rat \<Rightarrow> bool" where
  "budget_allow F d vendor estimated_cost =
     (let today_total = spent_today d (\<lambda>_. True);
          today_vendor = spent_today d (\<lambda>a. la_decision a = vendor) in
      if today_total + estimated_cost > fb_global_budget F then False
      else if today_vendor + estimated_cost > fb_vendor_budget F then False
      else True)"

section \<open>Answers\<close>

definition render_prompt :: "externals \<Rightarrow> fallback \<Rightarrow> json \<Rightarrow> string" where
  "render_prompt X F payload =
     replace_all ''{{PAYLOAD}}'' (canonical_json X payload) (fb_prompt_template F)"

definition parse_and_validate :: "externals \<Rightarrow> fallback \<Rightarrow> string \<Rightarrow> json result" where
  "parse_and_validate X F txt = (case x_loads X (strip_fences txt) of
       None \<Rightarrow> Inl JSONDecodeError
     | Some data \<Rightarrow>
         if \<not> fb_validate F data (fb_schema F) then Inl SchemaError
         else (case data of JObj _ \<Rightarrow> Inr data | _ \<Rightarrow> Inl SchemaError))"

definition parse_json :: "externals \<Rightarrow> string \<Rightarrow> jobject option" where
  "parse_json X txt = (case x_loads X (strip_fences txt) of
       Some (JObj data) \<Rightarrow> Some data | _ \<Rightarrow> None)"

text \<open>One attempt: a provider call and the check of its answer.\<close>

definition attempt :: "externals \<Rightarrow> fallback \<Rightarrow> nat \<Rightarrow> string \<Rightarrow> (LLMResult \<times> json) result" where
  "attempt X F n prompt =
     bindE (fb_complete F n prompt (fb_schema F)) (\<lambda>res.
     bindE (parse_and_validate X F (lr_text res)) (\<lambda>data. Inr (res, data)))"

definition invalid_answer :: "exn \<Rightarrow> bool" where
  "invalid_answer e \<longleftrightarrow> e = JSONDecodeError \<or> e = SchemaError"

definition retry_prompt :: "fallback \<Rightarrow> string \<Rightarrow> string \<Rightarrow> string" where
  "retry_prompt F prompt err =
     prompt @ [CHR 0x0A, CHR 0x0A] @
     ''The previous output was rejected by the schema with this error: '' @ err @
     [CHR 0x0A] @ ''Return a corrected JSON object that strictly satisfies the schema.''"

text \<open>The attempt and its one retry, with the number of calls made afterwards.\<close>

definition ask_model ::
  "externals \<Rightarrow> fallback \<Rightarrow> string \<Rightarrow> nat \<Rightarrow> (LLMResult \<times> json) result \<times> nat" where
  "ask_model X F prompt n = (case attempt X F n prompt of
       Inr r \<Rightarrow> (Inr r, n + 1)
     | Inl first_err \<Rightarrow>
         if \<not> invalid_answer first_err then (Inl first_err, n + 1)
         else
           let again = retry_prompt F prompt (fb_error_text F (fb_complete F n prompt (fb_schema F)))
           in (case attempt X F (n + 1) again of
                 Inr r \<Rightarrow> (Inr r, n + 2)
               | Inl second_err \<Rightarrow>
                   (Inl (if invalid_answer second_err then LLMValidationError else second_err),
                    n + 2)))"

section \<open>The two operations\<close>

text \<open>\<open>x or default\<close> on a string.\<close>

definition str_or :: "string \<Rightarrow> string \<Rightarrow> string" where
  "str_or s dflt = (if s = [] then dflt else s)"

definition cached_outcome :: "fallback \<Rightarrow> cache_row \<Rightarrow> LLMOutcome" where
  "cached_outcome F row =
     \<lparr>lo_data = lc_output row, lo_source = ''llm_cache'',
      lo_model = str_or (lc_model row) (fb_model F),
      lo_prompt_version = str_or (lc_prompt_version row) (fb_prompt_version F),
      lo_schema_version = str_or (lc_schema_version row) (fb_schema_version F),
      lo_tokens_in = lc_tokens_in row, lo_tokens_out = lc_tokens_out row,
      lo_latency_ms = lc_latency_ms row, lo_cost_estimate = lc_cost_estimate row\<rparr>"

definition fresh_outcome :: "fallback \<Rightarrow> LLMResult \<Rightarrow> json \<Rightarrow> nat \<Rightarrow> LLMOutcome" where
  "fresh_outcome F res data n =
     \<lparr>lo_data = data, lo_source = ''llm'', lo_model = lr_model res,
      lo_prompt_version = fb_prompt_version F, lo_schema_version = fb_schema_version F,
      lo_tokens_in = lr_tokens_in res, lo_tokens_out = lr_tokens_out res,
      lo_latency_ms = fb_elapsed F n, lo_cost_estimate = lr_cost_estimate res\<rparr>"

definition extract_key :: "externals \<Rightarrow> fallback \<Rightarrow> json \<Rightarrow> string \<Rightarrow> string" where
  "extract_key X F payload vendor_hint =
     llm_cache_key X (fb_prompt_version F) payload (fb_schema_version F) (Some vendor_hint)"

definition classify_extract ::
  "externals \<Rightarrow> fallback \<Rightarrow> string \<Rightarrow> string \<Rightarrow> json \<Rightarrow> world \<Rightarrow> LLMOutcome result \<times> world" where
  "classify_extract X F eid vendor_hint payload w =
     (let key = extract_key X F payload vendor_hint; d = wdb w in
      case cache_get d key of
        Some row \<Rightarrow>
          let out = cached_outcome F row in
          (case audit eid out vendor_hint d of
             Inl e \<Rightarrow> (Inl e, w)
           | Inr d' \<Rightarrow> (Inr out, w\<lparr>wdb := d'\<rparr>))
      | None \<Rightarrow>
          if \<not> budget_allow F d vendor_hint (1 / 1000) then (Inl BudgetExceeded, w)
          else (case ask_model X F (render_prompt X F payload) (wcalls w) of
             (Inl e, n) \<Rightarrow> (Inl e, w\<lparr>wcalls := n\<rparr>)
           | (Inr (res, data), n) \<Rightarrow>
               let out = fresh_outcome F res data n; w1 = w\<lparr>wcalls := n\<rparr> in
               (case cache_set key out d of
                  Inl e \<Rightarrow> (Inl e, w1)
                | Inr d1 \<Rightarrow>
                    (case audit eid out vendor_hint d1 of
                       Inl e \<Rightarrow> (Inl e, w1\<lparr>wdb := d1\<rparr>)
                     | Inr d2 \<Rightarrow> (Inr out, w1\<lparr>wdb := d2\<rparr>)))))"

text \<open>\<open>d.get(k, default)\<close>.\<close>

definition jget_or :: "jobject \<Rightarrow> string \<Rightarrow> json \<Rightarrow> json" where
  "jget_or kvs k dflt = (case map_of kvs k of None \<Rightarrow> dflt | Some v \<Rightarrow> v)"

definition event_type_key :: "externals \<Rightarrow> string \<Rightarrow> string \<Rightarrow> string" where
  "event_type_key X vendor raw_event_type =
     sha256_hex X [''classify_event_type_v1'', vendor, raw_event_type]"

text \<open>The reading of an answer: \<open>None\<close> when it names no state.  The parts are whatever JSON values
  the answer holds; only the confidence is converted.\<close>

definition read_event_type :: "externals \<Rightarrow> json \<Rightarrow> (json \<times> json \<times> rat) option result" where
  "read_event_type X out = (case out of
       JObj data \<Rightarrow>
         let cls = jget_or data ''classification'' (JStr ''unclassified'');
             canonical_state = jget data ''canonical_state'' in
         bindE (py_float X (jget_or data ''confidence'' (JFloat 0))) (\<lambda>conf.
           Inr (if cls = JStr ''unclassified'' \<or> canonical_state = JNull then None
                else Some (cls, canonical_state, conf)))
     | _ \<Rightarrow> Inl AttributeError)"

definition event_type_prompt :: "fallback \<Rightarrow> string \<Rightarrow> string \<Rightarrow> string" where
  "event_type_prompt F vendor raw_event_type =
     replace_all ''{{RAW_EVENT_TYPE}}'' raw_event_type
       (replace_all ''{{VENDOR_ID}}'' vendor (fb_event_type_template F))"

definition event_type_outcome :: "LLMResult \<Rightarrow> jobject \<Rightarrow> LLMOutcome" where
  "event_type_outcome res data =
     \<lparr>lo_data = JObj data, lo_source = ''llm'', lo_model = lr_model res,
      lo_prompt_version = ''classify_event_type_v1'', lo_schema_version = ''v1'',
      lo_tokens_in = lr_tokens_in res, lo_tokens_out = lr_tokens_out res,
      lo_latency_ms = lr_latency_ms res, lo_cost_estimate = lr_cost_estimate res\<rparr>"

definition classify_event_type ::
  "externals \<Rightarrow> fallback \<Rightarrow> string \<Rightarrow> string \<Rightarrow> world \<Rightarrow>
     (json \<times> json \<times> rat) option result \<times> world" where
  "classify_event_type X F vendor raw_event_type w =
     (let key = event_type_key X vendor raw_event_type; d = wdb w in
      case cache_get d key of
        Some row \<Rightarrow> (read_event_type X (lc_output row), w)
      | None \<Rightarrow>
          if \<not> budget_allow F d vendor (2 / 10000) then (Inr None, w)
          else
            let w1 = w\<lparr>wcalls := wcalls w + 1\<rparr> in
            (case fb_complete F (wcalls w) (event_type_prompt F vendor raw_event_type) (JObj []) of
               Inl e \<Rightarrow> (Inr None, w1)
             | Inr res \<Rightarrow>
                 (case parse_json X (lr_text res) of
                    None \<Rightarrow> (Inr None, w1)
                  | Some data \<Rightarrow>
                      (case cache_set key (event_type_outcome res data) d of
                         Inl e \<Rightarrow> (Inl e, w1)
                       | Inr d1 \<Rightarrow> (read_event_type X (JObj data), w1\<lparr>wdb := d1\<rparr>)))))"

section \<open>Columns\<close>

lemma int4_param_Inr: "int4_param n = Inr m \<longleftrightarrow> m = n \<and> - int4_max - 1 \<le> n \<and> n \<le> int4_max"
  by (auto simp: int4_param_def)

lemma millionths_of_int: "millionths (of_int k / 1000000) = k"
proof -
  have "floor (of_int k + 1/2 :: rat) = k" "floor (1/2 - of_int k :: rat) = - k"
    by linarith+
  then show ?thesis by (simp add: millionths_def)
qed

lemma millionths_le:
  assumes "x \<le> of_int m / 1000000" "0 \<le> m"
  shows "millionths x \<le> m"
proof (cases "x \<ge> 0")
  case True
  have "x * 1000000 + 1/2 \<le> of_int m + 1/2" using assms(1) by (simp add: field_simps)
  then have "floor (x * 1000000 + 1/2) \<le> floor (of_int m + 1/2 :: rat)" by (rule floor_mono)
  also have "floor (of_int m + 1/2 :: rat) = m" by linarith
  finally show ?thesis using True by (simp add: millionths_def)
next
  case False
  then have "0 \<le> 1/2 - x * 1000000" by simp
  then have "0 \<le> floor (1/2 - x * 1000000)" by (simp only: zero_le_floor)
  then have "- floor (1/2 - x * 1000000) \<le> m" using assms(2) by linarith
  with False show ?thesis by (simp only: millionths_def if_False)
qed

lemma numeric_10_6_Inr:
  "numeric_10_6 x = Inr y \<longleftrightarrow> abs (millionths x) < 10000000000 \<and> y = of_int (millionths x) / 1000000"
  by (auto simp: numeric_10_6_def Let_def)

lemma numeric_10_6_idem: "numeric_10_6 x = Inr y \<Longrightarrow> numeric_10_6 y = Inr y"
  by (simp only: numeric_10_6_Inr millionths_of_int simp_thms)

lemma numeric_10_6_le:
  "numeric_10_6 x = Inr y \<Longrightarrow> x \<le> of_int m / 1000000 \<Longrightarrow> 0 \<le> m \<Longrightarrow> y \<le> of_int m / 1000000"
  using millionths_le [of x m] by (simp add: numeric_10_6_Inr divide_right_mono)

definition cache_row_ok :: "cache_row \<Rightarrow> bool" where
  "cache_row_ok row \<longleftrightarrow>
     int4_param (lc_tokens_in row) = Inr (lc_tokens_in row) \<and>
     int4_param (lc_tokens_out row) = Inr (lc_tokens_out row) \<and>
     int4_param (lc_latency_ms row) = Inr (lc_latency_ms row) \<and>
     numeric_10_6 (lc_cost_estimate row) = Inr (lc_cost_estimate row)"

definition cache_ok :: "db \<Rightarrow> bool" where
  "cache_ok d \<longleftrightarrow> (\<forall>(k, row) \<in> set (llm_cache d). cache_row_ok row)"

lemma cache_get_ok: "cache_ok d \<Longrightarrow> cache_get d key = Some row \<Longrightarrow> cache_row_ok row"
  by (auto simp: cache_ok_def cache_get_def dest: tbl_get_mem)

lemma cache_set_cases:
  assumes "cache_set key out d = Inr d'"
  obtains row where "d' = d\<lparr>llm_cache := tbl_insert key row (llm_cache d)\<rparr>"
    "lc_output row = lo_data out" "cache_row_ok row"
  using assms
  by (fastforce simp: cache_set_def bindE_eq_Inr int4_param_Inr cache_row_ok_def dest: numeric_10_6_idem)

lemma cache_set_ok: "cache_set key out d = Inr d' \<Longrightarrow> cache_ok d \<Longrightarrow> cache_ok d'"
  by (erule cache_set_cases) (auto simp: cache_ok_def tbl_insert_def)

lemma audit_cases:
  assumes "audit eid out decision d = Inr d'"
  obtains a where "d' = d\<lparr>llm_audit := llm_audit d @ [a]\<rparr>" "la_event_id a = eid"
    "la_source a = lo_source out" "la_decision a = decision" "la_created_at a = clock d"
    "numeric_10_6 (lo_cost_estimate out) = Inr (la_cost_estimate a)" "event_exists d eid"
proof -
  show thesis
    using assms
    by (auto simp: audit_def bindE_eq_Inr split: if_splits intro!: that)
qed

text \<open>What an LLM operation may touch: the cache, which only grows, and the audit log.\<close>

definition llm_only :: "db \<Rightarrow> db \<Rightarrow> bool" where
  "llm_only d d' \<longleftrightarrow> d' = d\<lparr>llm_cache := llm_cache d', llm_audit := llm_audit d'\<rparr> \<and>
     (\<forall>k row. cache_get d k = Some row \<longrightarrow> cache_get d' k = Some row)"

lemma llm_only_refl [simp]: "llm_only d d"
  by (simp add: llm_only_def)

lemma llm_only_trans: "llm_only d d1 \<Longrightarrow> llm_only d1 d2 \<Longrightarrow> llm_only d d2"
proof -
  assume a: "llm_only d d1" and b: "llm_only d1 d2"
  obtain x y where 1: "d1 = d\<lparr>llm_cache := x, llm_audit := y\<rparr>" using a by (auto simp: llm_only_def)
  obtain u v where 2: "d2 = d1\<lparr>llm_cache := u, llm_audit := v\<rparr>" using b by (auto simp: llm_only_def)
  have "d2 = d\<lparr>llm_cache := llm_cache d2, llm_audit := llm_audit d2\<rparr>" by (simp add: 1 2)
  with a b show ?thesis unfolding llm_only_def by blast
qed

lemma cache_set_only: "cache_set key out d = Inr d' \<Longrightarrow> llm_only d d'"
  by (erule cache_set_cases) (auto simp: llm_only_def cache_get_def tbl.get_ins_keeps)

lemma audit_only: "audit eid out decision d = Inr d' \<Longrightarrow> llm_only d d'"
  by (erule audit_cases) (auto simp: llm_only_def cache_get_def)

lemma audit_cache_ok: "audit eid out decision d = Inr d' \<Longrightarrow> cache_ok d' = cache_ok d"
  by (erule audit_cases) (simp add: cache_ok_def)

section \<open>Asking for an extraction\<close>

lemma ask_model_calls: "ask_model X F prompt n = (r, m) \<Longrightarrow> m = n + 1 \<or> m = n + 2"
  by (auto simp: ask_model_def Let_def split: sum.splits if_splits)

lemma attempt_valid:
  "attempt X F n prompt = Inr (res, data) \<Longrightarrow>
     fb_validate F data (fb_schema F) \<and> (\<exists>kvs. data = JObj kvs) \<and>
     fb_complete F n prompt (fb_schema F) = Inr res \<and>
     x_loads X (strip_fences (lr_text res)) = Some data"
  by (auto simp: attempt_def parse_and_validate_def bindE_eq_Inr split: option.splits if_splits json.splits)

lemma ask_model_valid:
  assumes "ask_model X F prompt n = (Inr (res, data), m)"
  shows "fb_validate F data (fb_schema F) \<and> (\<exists>kvs. data = JObj kvs) \<and>
     (\<exists>k p. fb_complete F k p (fb_schema F) = Inr res)"
  using assms attempt_valid by (fastforce simp: ask_model_def Let_def split: sum.splits if_splits)

lemmas extract_splits = option.splits sum.splits prod.splits if_splits

text \<open>The ways \<open>classify_extract\<close> can go.\<close>

lemma classify_extract_cases:
  assumes run: "classify_extract X F eid hint payload w = (r, w')"
  obtains
    (hit) row where "cache_get (wdb w) (extract_key X F payload hint) = Some row"
      "wcalls w' = wcalls w" "r = bindE (audit eid (cached_outcome F row) hint (wdb w))
         (\<lambda>d. Inr (cached_outcome F row))"
      "wdb w' = wdb w \<or> audit eid (cached_outcome F row) hint (wdb w) = Inr (wdb w')"
  | (budget) "cache_get (wdb w) (extract_key X F payload hint) = None"
      "\<not> budget_allow F (wdb w) hint (1/1000)" "r = Inl BudgetExceeded" "w' = w"
  | (failed) e where "cache_get (wdb w) (extract_key X F payload hint) = None"
      "budget_allow F (wdb w) hint (1/1000)" "r = Inl e"
      "llm_only (wdb w) (wdb w')" "llm_audit (wdb w') = llm_audit (wdb w)"
      "cache_ok (wdb w) \<Longrightarrow> cache_ok (wdb w')" "wcalls w < wcalls w'" "wcalls w' \<le> wcalls w + 2"
  | (fresh) res data d1 where "cache_get (wdb w) (extract_key X F payload hint) = None"
      "budget_allow F (wdb w) hint (1/1000)"
      "ask_model X F (render_prompt X F payload) (wcalls w) = (Inr (res, data), wcalls w')"
      "cache_set (extract_key X F payload hint) (fresh_outcome F res data (wcalls w')) (wdb w) = Inr d1"
      "audit eid (fresh_outcome F res data (wcalls w')) hint d1 = Inr (wdb w')"
      "r = Inr (fresh_outcome F res data (wcalls w'))"
proof (cases "cache_get (wdb w) (extract_key X F payload hint)")
  case (Some row)
  show thesis
    by (rule hit [OF Some]) (use run Some in \<open>auto simp: classify_extract_def Let_def split: sum.splits\<close>)
next
  case None
  show thesis
  proof (cases "budget_allow F (wdb w) hint (1/1000)")
    case False
    show thesis
      by (rule budget [OF None False]) (use run None False in \<open>auto simp: classify_extract_def Let_def\<close>)
  next
    case True
    obtain q n where ask: "ask_model X F (render_prompt X F payload) (wcalls w) = (q, n)"
      by fastforce
    have n: "wcalls w < n" "n \<le> wcalls w + 2" using ask_model_calls [OF ask] by auto
    note run' = run [unfolded classify_extract_def Let_def None option.case, simplified True ask, simplified]
    show thesis
    proof (cases q)
      case (Inl e)
      show thesis
        by (rule failed [OF None True]) (use run' Inl n in auto)
    next
      case (Inr p)
      obtain res data where p: "p = (res, data)" by (cases p)
      let ?o = "fresh_outcome F res data n"
      show thesis
      proof (cases "cache_set (extract_key X F payload hint) ?o (wdb w)")
        case (Inl e)
        show thesis
          by (rule failed [OF None True]) (use run' Inr p Inl n in auto)
      next
        case (Inr d1)
        note set = this
        show thesis
        proof (cases "audit eid ?o hint d1")
          case (Inl e)
          have "llm_audit d1 = llm_audit (wdb w)" using set by (rule cache_set_cases) simp
          then show thesis
            using run' \<open>q = Inr p\<close> p Inl n set cache_set_only [OF set] cache_set_ok [OF set]
            by (intro failed [OF None True]) auto
        next
          case (Inr d2)
          have w': "r = Inr ?o" "wcalls w' = n" "wdb w' = d2" using run' \<open>q = Inr p\<close> p Inr set by auto
          show thesis
            by (rule fresh [OF None True]) (use w' ask \<open>q = Inr p\<close> p Inr set in auto)
        qed
      qed
    qed
  qed
qed

lemma classify_extract_only:
  assumes "classify_extract X F eid hint payload w = (r, w')"
  shows "llm_only (wdb w) (wdb w') \<and> (cache_ok (wdb w) \<longrightarrow> cache_ok (wdb w')) \<and>
     wcalls w \<le> wcalls w' \<and> wcalls w' \<le> wcalls w + 2"
  using assms
proof (cases rule: classify_extract_cases)
  case (hit row)
  then show ?thesis using audit_only audit_cache_ok by auto
next
  case (fresh res data d1)
  from ask_model_calls [OF fresh(3)] cache_set_only [OF fresh(4)] audit_only [OF fresh(5)]
    cache_set_ok [OF fresh(4)] audit_cache_ok [OF fresh(5)]
  show ?thesis using llm_only_trans by auto
qed auto

lemma classify_event_type_only:
  assumes "classify_event_type X F vendor raw w = (r, w')"
  shows "llm_only (wdb w) (wdb w') \<and> (cache_ok (wdb w) \<longrightarrow> cache_ok (wdb w')) \<and>
     wcalls w \<le> wcalls w' \<and> wcalls w' \<le> wcalls w + 1 \<and> llm_audit (wdb w') = llm_audit (wdb w)"
proof -
  have "llm_audit d' = llm_audit d" if "cache_set k out d = Inr d'" for k out d d'
    using that by (rule cache_set_cases) simp
  then show ?thesis
    using assms cache_set_only cache_set_ok
    by (auto simp: classify_event_type_def Let_def split: option.splits if_splits sum.splits)
qed

section \<open>A model to run the examples with\<close>

definition sample_LX :: externals where
  "sample_LX = sample_X\<lparr>x_dumps := (\<lambda>_. ''doc''), x_loads := (\<lambda>s.
     if s = ''answer'' then Some (JObj sample_answer)
     else if s = ''unsure'' then Some (JObj [(''classification'', JStr ''shipment''),
            (''canonical_state'', JStr ''shipment.in_transit''), (''confidence'', JNull)])
     else if s = ''loaded'' then Some (JObj [(''classification'', JStr ''shipment''),
            (''canonical_state'', JStr ''shipment.in_transit''), (''confidence'', JFloat (9/10))])
     else map_option JInt (py_int s))\<rparr>"

text \<open>The first call is answered with \<open>first\<close>, every later one with \<open>later\<close>.\<close>

definition sample_F :: "string \<Rightarrow> string \<Rightarrow> fallback" where
  "sample_F first later =
     \<lparr>fb_model = ''gpt-4o-mini'',
      fb_complete = (\<lambda>n prompt schema. Inr
        \<lparr>lr_text = (if n = 0 then first else later), lr_model = ''gpt-4o-mini'', lr_tokens_in = 900,
         lr_tokens_out = 120, lr_latency_ms = 800, lr_cost_estimate = 207 / 1000000\<rparr>),
      fb_validate = (\<lambda>v schema. target_schema_ok v),
      fb_error_text = (\<lambda>_. ''bad''), fb_elapsed = (\<lambda>n. 800 * int n),
      fb_prompt_template = ''Extract: {{PAYLOAD}}'', fb_event_type_template = ''{{VENDOR_ID}}/{{RAW_EVENT_TYPE}}'',
      fb_schema = JObj [], fb_prompt_version = ''v1.1'', fb_schema_version = ''v1'',
      fb_global_budget = 5, fb_vendor_budget = 1\<rparr>"

definition sample_w :: world where
  "sample_w = \<lparr>wdb = sample_db, wcalls = 0\<rparr>"

definition sample_asked :: "LLMOutcome result \<times> world" where
  "sample_asked = classify_extract sample_LX (sample_F ''I think so'' ''answer'') ''e1'' ''maersk'' sample_payload sample_w"

section \<open>Hits, misses and spending\<close>

text \<open>A cached answer is free and audited.  When the question is in the cache, \<open>classify_extract\<close>
  returns the stored answer without calling the provider, writes exactly one audit row with source
  \<open>llm_cache\<close> for the event, changes nothing else, and adds nothing to what any vendor has spent.\<close>

lemma cached_answers_are_free:
  assumes "cache_get (wdb w) (extract_key X F payload hint) = Some row"
    and "cache_row_ok row" "event_exists (wdb w) eid"
  shows "\<exists>a. classify_extract X F eid hint payload w =
       (Inr (cached_outcome F row), w\<lparr>wdb := (wdb w)\<lparr>llm_audit := llm_audit (wdb w) @ [a]\<rparr>\<rparr>) \<and>
     la_event_id a = eid \<and> la_source a = ''llm_cache'' \<and> la_decision a = hint \<and>
     (\<forall>p. spent_today ((wdb w)\<lparr>llm_audit := llm_audit (wdb w) @ [a]\<rparr>) p = spent_today (wdb w) p)"
proof -
  let ?o = "cached_outcome F row"
  let ?a = "\<lparr>la_event_id = eid, la_source = lo_source ?o, la_model = lo_model ?o,
      la_prompt_version = lo_prompt_version ?o, la_schema_version = lo_schema_version ?o,
      la_tokens_in = lo_tokens_in ?o, la_tokens_out = lo_tokens_out ?o,
      la_latency_ms = lo_latency_ms ?o, la_cost_estimate = lo_cost_estimate ?o,
      la_decision = hint, la_created_at = clock (wdb w)\<rparr>"
  have "audit eid ?o hint (wdb w) = Inr ((wdb w)\<lparr>llm_audit := llm_audit (wdb w) @ [?a]\<rparr>)"
    using assms(2,3) by (simp add: audit_def cache_row_ok_def cached_outcome_def)
  then have "classify_extract X F eid hint payload w =
      (Inr ?o, w\<lparr>wdb := (wdb w)\<lparr>llm_audit := llm_audit (wdb w) @ [?a]\<rparr>\<rparr>)"
    using assms(1) by (simp add: classify_extract_def Let_def)
  moreover have "lo_source ?o = ''llm_cache''" by (simp add: cached_outcome_def)
  ultimately show ?thesis
    by (intro exI [of _ ?a]) (simp add: spent_today_def)
qed

lemma cached_answers_are_free_witness:
  "fst (classify_extract sample_LX (sample_F ''I think so'' ''answer'') ''e2'' ''maersk'' sample_payload (snd sample_asked)) =
   Inr (cached_outcome (sample_F ''I think so'' ''answer'')
     (the (cache_get (wdb (snd sample_asked)) (extract_key sample_LX (sample_F ''I think so'' ''answer'') sample_payload ''maersk''))))"
proof -
  let ?F = "sample_F ''I think so'' ''answer''"
  let ?k = "extract_key sample_LX ?F sample_payload ''maersk''"
  have some: "cache_get (wdb (snd sample_asked)) ?k = Some (the (cache_get (wdb (snd sample_asked)) ?k))"
    and "cache_row_ok (the (cache_get (wdb (snd sample_asked)) ?k))"
    and "event_exists (wdb (snd sample_asked)) ''e2''"
    by code_simp+
  from cached_answers_are_free [OF this] show ?thesis by auto
qed

text \<open>An extraction makes at most two provider calls, none when the answer is cached and none when
  the budget does not allow the question, in which case it raises \<open>BudgetExceeded\<close> and changes nothing;
  whatever happens it leaves every table but the cache and the audit log as it was, and never
  changes or drops a cached answer.\<close>

lemma extraction_calls_are_bounded:
  "let (r, w') = classify_extract X F eid hint payload w in
     wcalls w \<le> wcalls w' \<and> wcalls w' \<le> wcalls w + 2 \<and> llm_only (wdb w) (wdb w') \<and>
     (if cache_get (wdb w) (extract_key X F payload hint) = None
      then if budget_allow F (wdb w) hint (1/1000) then wcalls w < wcalls w'
           else r = Inl BudgetExceeded \<and> w' = w
      else wcalls w' = wcalls w)"
proof -
  obtain r w' where run: "classify_extract X F eid hint payload w = (r, w')" by fastforce
  from run have "if cache_get (wdb w) (extract_key X F payload hint) = None
      then if budget_allow F (wdb w) hint (1/1000) then wcalls w < wcalls w'
           else r = Inl BudgetExceeded \<and> w' = w
      else wcalls w' = wcalls w"
    by (cases rule: classify_extract_cases) (auto dest: ask_model_calls)
  with classify_extract_only [OF run] run show ?thesis by simp
qed

text \<open>The validator's documented meaning of the schema file.\<close>

definition target_schema_law :: "fallback \<Rightarrow> bool" where
  "target_schema_law F \<longleftrightarrow> (\<forall>v. fb_validate F v (fb_schema F) = target_schema_ok v)"

lemma sample_schema_law: "target_schema_law (sample_F a b)"
  by (simp add: target_schema_law_def sample_F_def)

lemma fresh_answer:
  assumes law: "target_schema_law F"
    and run: "classify_extract X F eid hint payload w = (Inr out, w')"
    and src: "lo_source out = ''llm''"
  shows "target_schema_ok (lo_data out) \<and>
     (\<exists>row. cache_get (wdb w') (extract_key X F payload hint) = Some row \<and>
        lc_output row = lo_data out \<and> cache_row_ok row)"
  using run
proof (cases rule: classify_extract_cases)
  case (hit row)
  from hit(3) [symmetric] have "out = cached_outcome F row" by (auto simp: bindE_eq_Inr)
  then show ?thesis using src by (simp add: cached_outcome_def)
next
  case (fresh res data d1)
  from fresh(4) obtain row where row: "d1 = (wdb w)\<lparr>llm_cache := tbl_insert (extract_key X F payload hint) row (llm_cache (wdb w))\<rparr>"
      "lc_output row = lo_data (fresh_outcome F res data (wcalls w'))" "cache_row_ok row"
    by (rule cache_set_cases)
  then have "cache_get d1 (extract_key X F payload hint) = Some row"
    using fresh(1) by (simp add: cache_get_def tbl.get_ins_new)
  with audit_only [OF fresh(5)] row fresh(6) ask_model_valid [OF fresh(3)] law
  show ?thesis by (auto simp: llm_only_def fresh_outcome_def target_schema_law_def)
qed simp_all

text \<open>A fresh answer satisfies the target schema and is asked for once.  When the validator
  implements the schema file and \<open>classify_extract\<close> returns a fresh answer, that answer satisfies the
  schema, and the same question from any stored event, at once afterwards and with any provider,
  gets the same data from the cache without a call.\<close>

lemma fresh_answers_are_valid_and_remembered:
  assumes "target_schema_law F"
    and "classify_extract X F eid hint payload w = (Inr out, w')" "lo_source out = ''llm''"
    and "event_exists (wdb w') eid2"
  shows "target_schema_ok (lo_data out) \<and>
     (\<exists>out2 w2. classify_extract X F eid2 hint payload w' = (Inr out2, w2) \<and>
        lo_data out2 = lo_data out \<and> wcalls w2 = wcalls w')"
proof -
  from fresh_answer [OF assms(1-3)] obtain row where ok: "target_schema_ok (lo_data out)"
      and row: "cache_get (wdb w') (extract_key X F payload hint) = Some row" "lc_output row = lo_data out"
      "cache_row_ok row" by blast
  have "\<exists>d. audit eid2 (cached_outcome F row) hint (wdb w') = Inr d"
    using row(3) assms(4) by (simp add: audit_def cached_outcome_def cache_row_ok_def)
  with row ok show ?thesis by (auto simp: classify_extract_def Let_def cached_outcome_def)
qed

lemma fresh_answers_are_valid_and_remembered_witness:
  "target_schema_ok (lo_data (projr (fst sample_asked)))"
proof -
  have "is_ok (fst sample_asked)" by code_simp
  then have run: "classify_extract sample_LX (sample_F ''I think so'' ''answer'') ''e1'' ''maersk'' sample_payload sample_w =
      (Inr (projr (fst sample_asked)), snd sample_asked)"
    unfolding sample_asked_def [symmetric] by (auto simp: is_ok_iff prod_eq_iff)
  have "lo_source (projr (fst sample_asked)) = ''llm''" "event_exists (wdb (snd sample_asked)) ''e2''"
    by code_simp+
  from fresh_answers_are_valid_and_remembered [OF sample_schema_law run this] show ?thesis by simp
qed

section \<open>Budgets hold\<close>

lemma spent_append: "spent_today (d\<lparr>llm_audit := llm_audit d @ [a]\<rparr>) p = spent_today d p +
    (if day_of (la_created_at a) = day_of (clock d) \<and> la_source a = ''llm'' \<and> p a
     then la_cost_estimate a else 0)"
  by (simp add: spent_today_def)

lemma spent_cong: "llm_audit d' = llm_audit d \<Longrightarrow> clock d' = clock d \<Longrightarrow> spent_today d' p = spent_today d p"
  by (simp add: spent_today_def)

lemma llm_only_clock: "llm_only d d' \<Longrightarrow> clock d' = clock d"
  unfolding llm_only_def by (metis db.surjective db.select_convs(1) db.update_convs(11) db.update_convs(12))

lemma audit_spent:
  assumes "audit eid out decision d = Inr d'"
  shows "\<exists>a. d' = d\<lparr>llm_audit := llm_audit d @ [a]\<rparr> \<and> la_decision a = decision \<and>
     la_source a = lo_source out \<and> numeric_10_6 (lo_cost_estimate out) = Inr (la_cost_estimate a)"
  using assms by (rule audit_cases) blast

text \<open>No answer of the provider costs more than the estimate the budget is checked with.\<close>

definition answers_within_estimate :: "fallback \<Rightarrow> bool" where
  "answers_within_estimate F \<longleftrightarrow>
     (\<forall>n p s res. fb_complete F n p s = Inr res \<longrightarrow> lr_cost_estimate res \<le> 1/1000)"

definition within_budget :: "fallback \<Rightarrow> db \<Rightarrow> bool" where
  "within_budget F d \<longleftrightarrow> spent_today d (\<lambda>_. True) \<le> fb_global_budget F \<and>
     (\<forall>vendor. spent_today d (\<lambda>a. la_decision a = vendor) \<le> fb_vendor_budget F)"

lemma audited_within_budget:
  assumes "budget_allow F d vendor (1/1000)" "within_budget F d" "la_decision a = vendor" "la_cost_estimate a \<le> 1/1000"
  shows "within_budget F (d\<lparr>llm_audit := llm_audit d @ [a]\<rparr>)"
proof -
  let ?d = "d\<lparr>llm_audit := llm_audit d @ [a]\<rparr>"
  have add: "spent_today ?d p \<le> spent_today d p + (if p a then max 0 (la_cost_estimate a) else 0)" for p
    by (simp add: spent_append)
  have room: "spent_today d (\<lambda>_. True) + 1/1000 \<le> fb_global_budget F"
      "spent_today d (\<lambda>a. la_decision a = vendor) + 1/1000 \<le> fb_vendor_budget F"
    using assms(1) by (auto simp: budget_allow_def Let_def not_less split: if_splits)
  have "spent_today ?d (\<lambda>a. la_decision a = v) \<le> fb_vendor_budget F" for v
  proof (cases "v = vendor")
    case True
    then show ?thesis using add [of "\<lambda>a. la_decision a = v"] room(2) assms(3,4) by simp
  next
    case False
    then have "spent_today ?d (\<lambda>a. la_decision a = v) \<le> spent_today d (\<lambda>a. la_decision a = v)"
      using add [of "\<lambda>a. la_decision a = v"] assms(3) by simp
    also have "\<dots> \<le> fb_vendor_budget F" using assms(2) by (simp add: within_budget_def)
    finally show ?thesis .
  qed
  moreover have "spent_today ?d (\<lambda>_. True) \<le> fb_global_budget F"
    using add [of "\<lambda>_. True"] room(1) assms(4) by simp
  ultimately show ?thesis by (simp add: within_budget_def)
qed

text \<open>C34: the daily budgets hold.  When no answer costs more than the estimate of a tenth of a cent
  that the guard uses, an extraction never takes the recorded spending of the day above the
  global budget, nor that of any vendor above the vendor budget.\<close>

theorem recorded_spending_stays_within_budget:
  assumes "answers_within_estimate F" "within_budget F (wdb w)"
    and "classify_extract X F eid hint payload w = (r, w')"
  shows "within_budget F (wdb w')"
  using assms(3)
proof (cases rule: classify_extract_cases)
  case (hit row)
  show ?thesis
  proof (cases "wdb w' = wdb w")
    case False
    with hit(4) obtain a where "wdb w' = (wdb w)\<lparr>llm_audit := llm_audit (wdb w) @ [a]\<rparr>"
        "la_source a = lo_source (cached_outcome F row)" using audit_spent by blast
    then show ?thesis using assms(2) by (simp add: within_budget_def spent_append cached_outcome_def)
  qed (use assms(2) in simp)
next
  case budget
  then show ?thesis using assms(2) by simp
next
  case (failed e)
  from llm_only_clock [OF failed(4)] failed(5) assms(2) show ?thesis
    by (simp add: within_budget_def spent_cong [of "wdb w'" "wdb w"])
next
  case (fresh res data d1)
  let ?o = "fresh_outcome F res data (wcalls w')"
  from fresh(4) have d1: "llm_audit d1 = llm_audit (wdb w)" "clock d1 = clock (wdb w)"
    by (rule cache_set_cases, simp)+
  obtain a where a: "wdb w' = d1\<lparr>llm_audit := llm_audit d1 @ [a]\<rparr>" "la_decision a = hint"
      "numeric_10_6 (lo_cost_estimate ?o) = Inr (la_cost_estimate a)"
    using audit_spent [OF fresh(5)] by blast
  have "lr_cost_estimate res \<le> of_int 1000 / 1000000"
    using ask_model_valid [OF fresh(3)] assms(1) by (auto simp: answers_within_estimate_def)
  then have "la_cost_estimate a \<le> of_int 1000 / 1000000"
    using numeric_10_6_le [OF a(3), of 1000] by (simp add: fresh_outcome_def)
  then have cost: "la_cost_estimate a \<le> 1/1000" by simp
  have "budget_allow F d1 hint (1/1000)"
    using fresh(2) spent_cong [OF d1] by (simp add: budget_allow_def Let_def)
  moreover have "within_budget F d1" using assms(2) spent_cong [OF d1] by (simp add: within_budget_def)
  ultimately show ?thesis unfolding a(1) using a(2) cost by (rule audited_within_budget)
qed

lemma recorded_spending_stays_within_budget_witness:
  "within_budget (sample_F ''answer'' ''answer'') (wdb (snd sample_asked))"
proof -
  have zero: "spent_today sample_db p = 0" for p
    by (simp add: spent_today_def sample_db_def empty_db_def)
  have ok: "within_budget (sample_F a b) (wdb sample_w)" for a b
    by (simp add: within_budget_def zero sample_w_def sample_F_def)
  have est: "answers_within_estimate (sample_F a b)" for a b
    by (auto simp: answers_within_estimate_def sample_F_def)
  have run: "classify_extract sample_LX (sample_F ''I think so'' ''answer'') ''e1'' ''maersk'' sample_payload sample_w =
      (fst sample_asked, snd sample_asked)"
    by (simp add: sample_asked_def)
  from recorded_spending_stays_within_budget [OF est ok run]
  show ?thesis by (simp add: within_budget_def sample_F_def)
qed

section \<open>Event types\<close>

text \<open>Questions about event types are never charged.  \<open>classify_event_type\<close> makes at most one
  provider call and writes no audit row, whatever the call cost, so that it never moves the
  spending its own budget check reads.\<close>

lemma event_type_questions_are_not_charged:
  "let (r, w') = classify_event_type X F vendor raw w in
     wcalls w' \<le> wcalls w + 1 \<and> llm_only (wdb w) (wdb w') \<and>
     llm_audit (wdb w') = llm_audit (wdb w) \<and> (\<forall>p. spent_today (wdb w') p = spent_today (wdb w) p)"
proof -
  obtain r w' where run: "classify_event_type X F vendor raw w = (r, w')" by fastforce
  from classify_event_type_only [OF run] llm_only_clock have
    "wcalls w' \<le> wcalls w + 1" "llm_only (wdb w) (wdb w')" "llm_audit (wdb w') = llm_audit (wdb w)"
    "clock (wdb w') = clock (wdb w)" by blast+
  then show ?thesis using run spent_cong [of "wdb w'" "wdb w"] by simp
qed

text \<open>An answer with a null confidence makes an event type unusable for good.  The answer is
  stored before it is read; reading it raises \<open>TypeError\<close>, and so does every later question about the
  same event type, from the cache, whatever provider is asked by then.\<close>

lemma null_confidence_is_remembered:
  assumes "cache_get (wdb w) (event_type_key X vendor raw) = None"
    and "budget_allow F (wdb w) vendor (2 / 10000)"
    and "fb_complete F (wcalls w) (event_type_prompt F vendor raw) (JObj []) = Inr res"
    and "parse_json X (lr_text res) = Some data" "map_of data ''confidence'' = Some JNull"
    and "cache_set (event_type_key X vendor raw) (event_type_outcome res data) (wdb w) = Inr d1"
  shows "\<exists>w'. classify_event_type X F vendor raw w = (Inl TypeError, w') \<and>
     (\<forall>F'. classify_event_type X F' vendor raw w' = (Inl TypeError, w'))"
proof -
  have read: "read_event_type X (JObj data) = Inl TypeError"
    using assms(5) by (simp add: read_event_type_def jget_or_def py_float_def Let_def)
  from assms(6) obtain row where "d1 = (wdb w)\<lparr>llm_cache := tbl_insert (event_type_key X vendor raw) row (llm_cache (wdb w))\<rparr>"
      "lc_output row = JObj data"
    by (rule cache_set_cases) (simp add: event_type_outcome_def)
  then have "cache_get d1 (event_type_key X vendor raw) = Some row" "lc_output row = JObj data"
    using assms(1) by (simp_all add: cache_get_def tbl.get_ins_new)
  with assms read show ?thesis by (simp add: classify_event_type_def Let_def)
qed

lemma null_confidence_is_remembered_witness:
  "fst (classify_event_type sample_LX (sample_F ''unsure'' ''loaded'') ''maersk'' ''GTOT''
     (snd (classify_event_type sample_LX (sample_F ''unsure'' ''loaded'') ''maersk'' ''GTOT'' sample_w)))
   = Inl TypeError"
proof -
  let ?F = "sample_F ''unsure'' ''loaded''"
  let ?k = "event_type_key sample_LX ''maersk'' ''GTOT''"
  let ?res = "projr (fb_complete ?F 0 [] (JObj []))"
  let ?data = "the (parse_json sample_LX ''unsure'')"
  have res: "fb_complete ?F (wcalls sample_w) (event_type_prompt ?F ''maersk'' ''GTOT'') (JObj []) = Inr ?res"
    by (simp add: sample_F_def sample_w_def)
  have reply: "lr_text ?res = ''unsure''" by (simp add: sample_F_def)
  have "cache_get (wdb sample_w) ?k = None" by code_simp
  moreover have "budget_allow ?F (wdb sample_w) ''maersk'' (2 / 10000)" by code_simp
  moreover have "parse_json sample_LX ''unsure'' = Some ?data" by code_simp
  moreover have "map_of ?data ''confidence'' = Some JNull" by code_simp
  moreover have "is_ok (cache_set ?k (event_type_outcome ?res ?data) (wdb sample_w))" by code_simp
  ultimately have "\<exists>w'. classify_event_type sample_LX ?F ''maersk'' ''GTOT'' sample_w = (Inl TypeError, w') \<and>
      (\<forall>F'. classify_event_type sample_LX F' ''maersk'' ''GTOT'' w' = (Inl TypeError, w'))"
    unfolding is_ok_iff using null_confidence_is_remembered [OF _ _ res, unfolded reply] by blast
  then show ?thesis by force
qed

end
