(* ===== verification/OpenAI.thy ===== *)
theory OpenAI
  imports LLMFallback
begin

text \<open>
  \<open>app/llm/openai_provider.py\<close>: the request that is sent and what is read from the response.  The HTTP
  exchange is a parameter: it maps the body of the request to the decoded response, or fails.
  \<open>round\<close> works on the exact cost, ties to even.
\<close>

section \<open>Encoding\<close>

text \<open>The code points of UTF-8 bytes: how many continuation bytes are missing, and the bits so far.\<close>

fun code_points :: "nat \<Rightarrow> nat \<Rightarrow> nat list \<Rightarrow> nat list" where
  "code_points n acc [] = []"
| "code_points 0 acc (b # bs) =
     (if b < 128 then b # code_points 0 0 bs
      else if b < 224 then code_points 1 (b mod 32) bs
      else if b < 240 then code_points 2 (b mod 16) bs
      else code_points 3 (b mod 8) bs)"
| "code_points (Suc n) acc (b # bs) =
     (let a = acc * 64 + b mod 64 in
      if n = 0 then a # code_points 0 0 bs else code_points n a bs)"

definition unicode_escape :: "nat \<Rightarrow> string" where
  "unicode_escape n = CHR 0x5C # ''u'' @
     [hex_digit (n div 4096 mod 16), hex_digit (n div 256 mod 16), hex_digit (n div 16 mod 16), hex_digit (n mod 16)]"

definition escape_point :: "nat \<Rightarrow> string" where
  "escape_point n =
     (if n = 34 then [CHR 0x5C, CHR 0x22] else if n = 92 then [CHR 0x5C, CHR 0x5C]
      else if n = 10 then CHR 0x5C # ''n'' else if n = 13 then CHR 0x5C # ''r''
      else if n = 9 then CHR 0x5C # ''t'' else if n = 8 then CHR 0x5C # ''b''
      else if n = 12 then CHR 0x5C # ''f''
      else if 32 \<le> n \<and> n \<le> 126 then [char_of n]
      else if n < 65536 then unicode_escape n
      else unicode_escape (55296 + (n - 65536) div 1024) @ unicode_escape (56320 + (n - 65536) mod 1024))"

definition dumps_str :: "string \<Rightarrow> string" where
  "dumps_str s = CHR 0x22 # concat (map escape_point (code_points 0 0 (map of_char s))) @ [CHR 0x22]"

text \<open>\<open>json.dumps(v, separators=(",", ":"))\<close>.\<close>

fun json_dumps :: "externals \<Rightarrow> json \<Rightarrow> string" where
  "json_dumps X JNull = ''null''"
| "json_dumps X (JBool b) = (if b then ''true'' else ''false'')"
| "json_dumps X (JInt i) = int_str i"
| "json_dumps X (JFloat r) = x_float_repr X r"
| "json_dumps X (JStr s) = dumps_str s"
| "json_dumps X (JArr xs) = ''['' @ join '','' (map (json_dumps X) xs) @ '']''"
| "json_dumps X (JObj kvs) =
     ''{'' @ join '','' (map (\<lambda>(k, v). dumps_str k @ '':'' @ json_dumps X v) kvs) @ ''}''"

section \<open>The request\<close>

definition system_msg :: "externals \<Rightarrow> json \<Rightarrow> string" where
  "system_msg X schema =
     ''Return only a single JSON object. No prose, no markdown fences, no commentary. '' @
     ''The object MUST conform exactly to this JSON schema:'' @ [CHR 0x0A] @ json_dumps X schema"

definition chat_message :: "string \<Rightarrow> string \<Rightarrow> json" where
  "chat_message role content = JObj [(''role'', JStr role), (''content'', JStr content)]"

definition request_body :: "externals \<Rightarrow> string \<Rightarrow> string \<Rightarrow> json \<Rightarrow> rat \<Rightarrow> json" where
  "request_body X model prompt schema temperature = JObj
     [(''model'', JStr model), (''temperature'', JFloat temperature),
      (''messages'', JArr [chat_message ''system'' (system_msg X schema), chat_message ''user'' prompt]),
      (''response_format'', JObj [(''type'', JStr ''json_object'')])]"

section \<open>The response\<close>

text \<open>\<open>v[k]\<close> with a text and \<open>v[0]\<close>, on any JSON value.\<close>

definition item_of :: "json \<Rightarrow> string \<Rightarrow> json result" where
  "item_of v k = (case v of
       JObj kvs \<Rightarrow> (case map_of kvs k of None \<Rightarrow> Inl KeyError | Some u \<Rightarrow> Inr u)
     | _ \<Rightarrow> Inl TypeError)"

definition first_of_json :: "json \<Rightarrow> json result" where
  "first_of_json v = (case v of
       JArr xs \<Rightarrow> (case xs of [] \<Rightarrow> Inl IndexError | x # _ \<Rightarrow> Inr x)
     | JStr s \<Rightarrow> (case s of [] \<Rightarrow> Inl IndexError | c # _ \<Rightarrow> Inr (JStr [c]))
     | JObj kvs \<Rightarrow> Inl KeyError
     | _ \<Rightarrow> Inl TypeError)"

definition response_text :: "json \<Rightarrow> json result" where
  "response_text data =
     (case bindE (item_of data ''choices'') (\<lambda>cs.
           bindE (first_of_json cs) (\<lambda>c.
           bindE (item_of c ''message'') (\<lambda>m. item_of m ''content''))) of
        Inr t \<Rightarrow> Inr t
      | Inl e \<Rightarrow> Inl (if e \<in> {KeyError, IndexError} then RuntimeError else e))"

text \<open>\<open>int(v or 0)\<close>.\<close>

definition int_or_zero :: "json \<Rightarrow> int result" where
  "int_or_zero v =
     (if \<not> truthy v then Inr 0
      else (case v of
          JInt i \<Rightarrow> Inr i
        | JBool b \<Rightarrow> Inr 1
        | JFloat r \<Rightarrow> Inr (if 0 \<le> r then floor r else - floor (- r))
        | JStr s \<Rightarrow> (case py_int s of Some n \<Rightarrow> Inr n | None \<Rightarrow> Inl ValueError)
        | _ \<Rightarrow> Inl TypeError))"

definition usage_of :: "json \<Rightarrow> (int \<times> int) result" where
  "usage_of data = (case data of
       JObj kvs \<Rightarrow>
         (case (let u = jget_or kvs ''usage'' (JObj []) in if truthy u then u else JObj []) of
            JObj usage \<Rightarrow>
              bindE (int_or_zero (jget usage ''prompt_tokens'')) (\<lambda>ti.
              bindE (int_or_zero (jget usage ''completion_tokens'')) (\<lambda>to. Inr (ti, to)))
          | _ \<Rightarrow> Inl AttributeError)
     | _ \<Rightarrow> Inl AttributeError)"

section \<open>The cost\<close>

text \<open>Prices per thousand tokens.\<close>

definition PRICING :: "(string \<times> rat \<times> rat) list" where
  "PRICING = [(''gpt-4o-mini'', 150 / 1000000, 600 / 1000000),
              (''gpt-4o'', 5 / 1000, 15 / 1000),
              (''gpt-4.1-mini'', 400 / 1000000, 1600 / 1000000)]"

text \<open>\<open>round(x, 6)\<close>: the nearest millionth, the even one when there are two.\<close>

definition round_even :: "rat \<Rightarrow> int" where
  "round_even x =
     (let k = floor x; d = x - of_int k in
      if d < 1/2 then k else if d > 1/2 then k + 1 else if even k then k else k + 1)"

definition round6 :: "rat \<Rightarrow> rat" where
  "round6 x = of_int (round_even (x * 1000000)) / 1000000"

definition token_cost :: "string \<Rightarrow> int \<Rightarrow> int \<Rightarrow> rat" where
  "token_cost model ti to =
     (case (case map_of PRICING model of Some r \<Rightarrow> r | None \<Rightarrow> (0, 0)) of
        (rate_in, rate_out) \<Rightarrow> (of_int ti / 1000) * rate_in + (of_int to / 1000) * rate_out)"

section \<open>One call\<close>

text \<open>
  The text of the answer is handed on as it is; when it is not a text, the first use of it in the
  orchestrator (\<open>text.strip()\<close>, \<open>json.loads(text)\<close>) raises, which is where this function fails.
\<close>

definition openai_complete ::
  "externals \<Rightarrow> string \<Rightarrow> (json \<Rightarrow> json result) \<Rightarrow> int \<Rightarrow> string \<Rightarrow> json \<Rightarrow> LLMResult result" where
  "openai_complete X model http elapsed prompt schema =
     bindE (http (request_body X model prompt schema 0)) (\<lambda>data.
     bindE (response_text data) (\<lambda>text.
     bindE (usage_of data) (\<lambda>(ti, to).
     case text of
       JStr t \<Rightarrow> Inr \<lparr>lr_text = t, lr_model = model, lr_tokens_in = ti, lr_tokens_out = to,
         lr_latency_ms = elapsed, lr_cost_estimate = round6 (token_cost model ti to)\<rparr>
     | _ \<Rightarrow> Inl AttributeError)))"

text \<open>The orchestrator with this provider; \<open>http\<close> is given the number of the call.\<close>

definition with_openai ::
  "externals \<Rightarrow> string \<Rightarrow> (nat \<Rightarrow> json \<Rightarrow> json result) \<Rightarrow> (nat \<Rightarrow> int) \<Rightarrow> fallback \<Rightarrow> fallback" where
  "with_openai X model http elapsed F =
     F\<lparr>fb_model := model, fb_complete := \<lambda>n prompt schema. openai_complete X model (http n) (elapsed n) prompt schema\<rparr>"

section \<open>What a call costs\<close>

lemma round_even_bounds: "of_int (round_even x) \<le> x + 1/2" "x - 1/2 \<le> of_int (round_even x)"
  using floor_correct [of x] by (auto simp: round_even_def Let_def; linarith)+

lemma round_even_le: "x \<le> of_int k \<Longrightarrow> round_even x \<le> k"
proof -
  assume "x \<le> of_int k"
  with round_even_bounds(1) [of x] have "of_int (round_even x) < (of_int (k + 1) :: rat)" by simp
  then have "round_even x < k + 1" by (simp only: of_int_less_iff)
  then show "round_even x \<le> k" by simp
qed

lemma round6_le:
  assumes "x \<le> of_int k / 1000000"
  shows "round6 x \<le> of_int k / 1000000"
proof -
  have "round_even (x * 1000000) \<le> k" using assms by (intro round_even_le) (simp add: field_simps)
  then show ?thesis by (simp add: round6_def divide_right_mono)
qed

lemma openai_complete_Inr:
  assumes "openai_complete X model http elapsed prompt schema = Inr res"
  shows "\<exists>data ti to. http (request_body X model prompt schema 0) = Inr data \<and>
     response_text data = Inr (JStr (lr_text res)) \<and> usage_of data = Inr (ti, to) \<and>
     lr_model res = model \<and> lr_tokens_in res = ti \<and> lr_tokens_out res = to \<and>
     lr_cost_estimate res = round6 (token_cost model ti to)"
proof -
  obtain data content ti to where "http (request_body X model prompt schema 0) = Inr data"
      "response_text data = Inr content" "usage_of data = Inr (ti, to)"
    and res: "(case content of JStr t \<Rightarrow> Inr \<lparr>lr_text = t, lr_model = model, lr_tokens_in = ti, lr_tokens_out = to,
         lr_latency_ms = elapsed, lr_cost_estimate = round6 (token_cost model ti to)\<rparr>
     | _ \<Rightarrow> Inl AttributeError) = Inr res"
    using assms by (auto simp: openai_complete_def bindE_eq_Inr)
  moreover obtain t where "content = JStr t" using res by (cases content) simp_all
  ultimately show ?thesis by auto
qed

text \<open>A provider whose answers use few enough tokens respects the estimate of the budget guard: with the
  default model, at most 3000 tokens in and 900 out.\<close>

lemma small_answers_within_estimate:
  assumes "\<And>n body data ti to. http n body = Inr data \<Longrightarrow> usage_of data = Inr (ti, to) \<Longrightarrow> ti \<le> 3000 \<and> to \<le> 900"
  shows "answers_within_estimate (with_openai X ''gpt-4o-mini'' http elapsed F)"
  unfolding answers_within_estimate_def
proof (intro allI impI)
  fix n p s res
  assume "fb_complete (with_openai X ''gpt-4o-mini'' http elapsed F) n p s = Inr res"
  then obtain data ti to where r: "http n (request_body X ''gpt-4o-mini'' p s 0) = Inr data"
      "usage_of data = Inr (ti, to)" "lr_cost_estimate res = round6 (token_cost ''gpt-4o-mini'' ti to)"
    using openai_complete_Inr [of X "''gpt-4o-mini''" "http n" "elapsed n" p s res] by (auto simp: with_openai_def)
  have "(of_int ti :: rat) \<le> of_int 3000" "(of_int to :: rat) \<le> of_int 900"
    using assms [OF r(1,2)] by (simp_all only: of_int_le_iff)
  then have "token_cost ''gpt-4o-mini'' ti to \<le> of_int 1000 / 1000000"
    by (simp add: token_cost_def PRICING_def)
  from round6_le [OF this] show "lr_cost_estimate res \<le> 1/1000" by (simp add: r(3))
qed

text \<open>The guard uses the same estimate for every model: one answer of a dearer one can cost twenty times
  as much.\<close>

lemma dear_answers_exceed_the_estimate:
  "round6 (token_cost ''gpt-4o'' 1000 1000) = 20 * (1/1000)"
  by code_simp

end
