(* ===== verification/LLMUniversal.thy ===== *)
theory LLMUniversal
  imports LLMFallback
begin

text \<open>
  \<open>app/adapters/llm_universal.py\<close> and the result type of \<open>app/adapters/base.py\<close>: the answer of the
  orchestrator is shaped into a canonical event.  Pydantic's conversions are written out: a text
  field takes a string only, a number field also a boolean or a numeric string, an integer field
  also a float without a fraction.
\<close>

section \<open>Results of adapters\<close>

datatype AdapterStatus = Ok | Needs_llm | Unsupported | Deferred

record AdapterResult =
  ar_status :: AdapterStatus
  ar_canonical_event :: "CanonicalEvent option"
  ar_confidence :: rat
  ar_missing_fields :: "string list"
  ar_schema_version :: string
  ar_detail :: jobject

section \<open>Fields of a model\<close>

text \<open>\<open>data[k]\<close> and \<open>data.get(k) or default\<close>.\<close>

definition jindex :: "jobject \<Rightarrow> string \<Rightarrow> json result" where
  "jindex kvs k = (case map_of kvs k of None \<Rightarrow> Inl KeyError | Some v \<Rightarrow> Inr v)"

definition or_else :: "json \<Rightarrow> json \<Rightarrow> json" where
  "or_else v dflt = (if truthy v then v else dflt)"

definition as_str :: "json \<Rightarrow> string result" where
  "as_str v = (case v of JStr s \<Rightarrow> Inr s | _ \<Rightarrow> Inl PydanticError)"

definition as_opt_str :: "json \<Rightarrow> string option result" where
  "as_opt_str v = (case v of
       JNull \<Rightarrow> Inr None | JStr s \<Rightarrow> Inr (Some s) | _ \<Rightarrow> Inl PydanticError)"

definition as_opt_float :: "externals \<Rightarrow> json \<Rightarrow> rat option result" where
  "as_opt_float X v =
     (if v = JNull then Inr None
      else (case py_float X v of Inr r \<Rightarrow> Inr (Some r) | Inl _ \<Rightarrow> Inl PydanticError))"

definition as_int :: "json \<Rightarrow> int result" where
  "as_int v = (case v of
       JInt i \<Rightarrow> Inr i
     | JFloat r \<Rightarrow> if r = of_int (floor r) then Inr (floor r) else Inl PydanticError
     | JBool b \<Rightarrow> Inr (if b then 1 else 0)
     | JStr s \<Rightarrow> (case py_int s of Some n \<Rightarrow> Inr n | None \<Rightarrow> Inl PydanticError)
     | _ \<Rightarrow> Inl PydanticError)"

definition as_dict :: "json \<Rightarrow> jobject result" where
  "as_dict v = (case v of JObj kvs \<Rightarrow> Inr kvs | _ \<Rightarrow> Inl PydanticError)"

text \<open>\<open>Location(**location)\<close> and \<open>Money(**amount)\<close>: unknown keys are forbidden.\<close>

definition build_location :: "externals \<Rightarrow> jobject \<Rightarrow> Location result" where
  "build_location X l =
     (if \<not> only_keys l [''code'', ''name'', ''latitude'', ''longitude''] then Inl PydanticError
      else
        bindE (as_opt_str (jget l ''code'')) (\<lambda>code.
        bindE (as_opt_str (jget l ''name'')) (\<lambda>name.
        bindE (as_opt_float X (jget l ''latitude'')) (\<lambda>lat.
        bindE (as_opt_float X (jget l ''longitude'')) (\<lambda>lon.
        Inr \<lparr>l_code = code, l_name = name, l_latitude = lat, l_longitude = lon\<rparr>)))))"

definition build_money :: "jobject \<Rightarrow> Money result" where
  "build_money a =
     (if \<not> only_keys a [''currency'', ''amount_minor''] then Inl PydanticError
      else
        bindE (as_str (jget a ''currency'')) (\<lambda>currency.
        bindE (as_int (jget a ''amount_minor'')) (\<lambda>amount_minor.
        new_money currency amount_minor)))"

text \<open>\<open>Model(**value) if isinstance(value, dict) else None\<close>.\<close>

definition if_dict :: "(jobject \<Rightarrow> 'a result) \<Rightarrow> json \<Rightarrow> 'a option result" where
  "if_dict build v = (case v of
       JObj kvs \<Rightarrow> bindE (build kvs) (\<lambda>x. Inr (Some x)) | _ \<Rightarrow> Inr None)"

definition as_enum :: "(string \<Rightarrow> 'a result) \<Rightarrow> json \<Rightarrow> 'a result" where
  "as_enum of_value v = (case v of JStr s \<Rightarrow> of_value s | _ \<Rightarrow> Inl ValueError)"

section \<open>Building the event\<close>

definition required_present :: "jobject \<Rightarrow> bool" where
  "required_present data \<longleftrightarrow> truthy (jget data ''event_type'') \<and>
     truthy (jget data ''entity_external_id'') \<and> truthy (jget data ''event_timestamp'')"

definition build_shipment ::
  "externals \<Rightarrow> string \<Rightarrow> jobject \<Rightarrow> json \<Rightarrow> rat \<Rightarrow> Source \<Rightarrow> shipment_event result" where
  "build_shipment X eid data vid conf src =
     (if \<not> required_present data then Inl ValueError
      else
        bindE (as_enum shipment_event_of (jget data ''event_type'')) (\<lambda>event_type.
        bindE (parse_timestamp X (jget data ''event_timestamp'')) (\<lambda>ts.
        bindE (if_dict (build_location X) (jget data ''location'')) (\<lambda>location.
        bindE (as_str vid) (\<lambda>vendor.
        bindE (as_str (jget data ''entity_external_id'')) (\<lambda>ext_id.
        bindE (as_dict (or_else (jget data ''reference_ids'') (JObj []))) (\<lambda>refs.
        bindE (as_opt_str (jget data ''raw_milestone'')) (\<lambda>raw_milestone.
        new_shipment
          \<lparr>ev_event_id = eid, ev_vendor_id = vendor, ev_schema_version = ''v1'', ev_source = src,
           ev_confidence = conf, sh_external_id = ext_id, sh_event_type = event_type,
           sh_timestamp = ts, sh_reference_ids = refs, sh_location = location,
           sh_raw_milestone = raw_milestone\<rparr>))))))))"

definition build_invoice ::
  "externals \<Rightarrow> string \<Rightarrow> jobject \<Rightarrow> json \<Rightarrow> rat \<Rightarrow> Source \<Rightarrow> invoice_event result" where
  "build_invoice X eid data vid conf src =
     (if \<not> required_present data then Inl ValueError
      else
        bindE (if_dict build_money (jget data ''amount'')) (\<lambda>amount.
        bindE (if truthy (jget data ''due_at'')
               then bindE (parse_timestamp X (jget data ''due_at'')) (\<lambda>t. Inr (Some t))
               else Inr None) (\<lambda>due_at.
        bindE (as_enum invoice_event_of (jget data ''event_type'')) (\<lambda>event_type.
        bindE (parse_timestamp X (jget data ''event_timestamp'')) (\<lambda>ts.
        bindE (as_str vid) (\<lambda>vendor.
        bindE (as_str (jget data ''entity_external_id'')) (\<lambda>ext_id.
        bindE (as_dict (or_else (jget data ''linked_references'') (JObj []))) (\<lambda>refs.
        bindE (as_opt_str (jget data ''raw_kind'')) (\<lambda>raw_kind.
        new_invoice
          \<lparr>ev_event_id = eid, ev_vendor_id = vendor, ev_schema_version = ''v1'', ev_source = src,
           ev_confidence = conf, in_external_id = ext_id, in_event_type = event_type,
           in_timestamp = ts, in_amount = amount, in_due_at = due_at, in_linked_references = refs,
           in_raw_kind = raw_kind\<rparr>)))))))))"

definition build_unclassified ::
  "string \<Rightarrow> jobject \<Rightarrow> json \<Rightarrow> rat \<Rightarrow> Source \<Rightarrow> unclassified_event result" where
  "build_unclassified eid data vid conf src =
     bindE (as_str vid) (\<lambda>vendor.
     bindE (as_opt_str (jget data ''summary'')) (\<lambda>summary.
     bindE (as_opt_str (jget data ''reason'')) (\<lambda>reason.
     new_unclassified
       \<lparr>ev_event_id = eid, ev_vendor_id = vendor, ev_schema_version = ''v1'', ev_source = src,
        ev_confidence = conf, un_summary = summary, un_reason = reason\<rparr>)))"

definition answer_confidence :: "externals \<Rightarrow> jobject \<Rightarrow> rat result" where
  "answer_confidence X data = py_float X (or_else (jget data ''confidence'') (JFloat 0))"

definition build_canonical ::
  "externals \<Rightarrow> string \<Rightarrow> json \<Rightarrow> string \<Rightarrow> CanonicalEvent result" where
  "build_canonical X eid answer source = (case answer of
       JObj data \<Rightarrow>
         bindE (jindex data ''classification'') (\<lambda>cls.
         bindE (jindex data ''vendor_id'') (\<lambda>vid.
         bindE (answer_confidence X data) (\<lambda>conf.
         let src = (if source = ''llm_cache'' then LLM_CACHE else LLM) in
         if cls = JStr ''shipment'' then
           bindE (build_shipment X eid data vid conf src) (\<lambda>e. Inr (Shipment e))
         else if cls = JStr ''invoice'' then
           bindE (build_invoice X eid data vid conf src) (\<lambda>e. Inr (Invoice e))
         else
           bindE (build_unclassified eid data vid conf src) (\<lambda>e. Inr (Unclassified e)))))
     | _ \<Rightarrow> Inl TypeError)"

section \<open>The adapter\<close>

definition adapter_problem :: "AdapterStatus \<Rightarrow> string list \<Rightarrow> jobject \<Rightarrow> AdapterResult" where
  "adapter_problem st missing detail =
     \<lparr>ar_status = st, ar_canonical_event = None, ar_confidence = 0, ar_missing_fields = missing,
      ar_schema_version = ''v1'', ar_detail = detail\<rparr>"

definition shape_outcome :: "externals \<Rightarrow> string \<Rightarrow> LLMOutcome \<Rightarrow> AdapterResult result" where
  "shape_outcome X eid out =
     (case build_canonical X eid (lo_data out) (lo_source out) of
        Inl e \<Rightarrow>
          if is_value_error e
          then Inr (adapter_problem Unsupported []
                 [(''reason'', JStr ''canonical_build_failed''), (''error'', JStr (x_exn_text X e)),
                  (''llm_data'', lo_data out)])
          else Inl e
      | Inr canonical \<Rightarrow>
          bindE (case lo_data out of JObj data \<Rightarrow> answer_confidence X data | _ \<Rightarrow> Inl AttributeError) (\<lambda>conf.
          Inr \<lparr>ar_status = Ok, ar_canonical_event = Some canonical, ar_confidence = conf,
               ar_missing_fields = [], ar_schema_version = ''v1'',
               ar_detail = [(''llm_source'', JStr (lo_source out)), (''llm_model'', JStr (lo_model out)),
                            (''llm_output'', lo_data out)]\<rparr>))"

definition normalize_llm ::
  "externals \<Rightarrow> fallback \<Rightarrow> json \<Rightarrow> string \<Rightarrow> string \<Rightarrow> world \<Rightarrow> AdapterResult result \<times> world" where
  "normalize_llm X F payload eid vendor_hint w =
     (case classify_extract X F eid (str_or vendor_hint ''unknown'') payload w of
        (Inl BudgetExceeded, w') \<Rightarrow>
          (Inr (adapter_problem Deferred [''budget_exceeded''] [(''reason'', JStr ''llm_budget_exceeded'')]), w')
      | (Inl LLMValidationError, w') \<Rightarrow>
          (Inr (adapter_problem Unsupported []
             [(''reason'', JStr ''llm_invalid_after_retry''), (''error'', JStr (x_exn_text X LLMValidationError))]), w')
      | (Inl e, w') \<Rightarrow> (Inl e, w')
      | (Inr out, w') \<Rightarrow> (shape_outcome X eid out, w'))"

section \<open>Answers that satisfy the schema\<close>

lemma target_schema_parts:
  assumes "target_schema_ok (JObj data)"
  obtains c v r where "map_of data ''classification'' = Some (JStr c)"
    "c \<in> {''shipment'', ''invoice'', ''unclassified''}" "map_of data ''vendor_id'' = Some (JStr v)" "v \<noteq> []"
    "answer_confidence X data = Inr r" "0 \<le> r" "r \<le> 1"
proof -
  have req: "map_of data k \<noteq> None" if "k \<in> {''classification'', ''vendor_id'', ''confidence''}" for k
    using assms that by (auto simp: target_schema_ok_def required_def)
  obtain c where c: "map_of data ''classification'' = Some (JStr c)" "c \<in> {''shipment'', ''invoice'', ''unclassified''}"
    using assms req [of "''classification''"]
    by (fastforce simp: target_schema_ok_def classification_ok_def jget_def split: json.splits)
  obtain v where v: "map_of data ''vendor_id'' = Some (JStr v)" "v \<noteq> []"
    using assms req [of "''vendor_id''"]
    by (fastforce simp: target_schema_ok_def vendor_id_ok_def jget_def split: json.splits)
  have "confidence_ok (jget data ''confidence'')" using assms by (simp add: target_schema_ok_def)
  then have "\<exists>r. answer_confidence X data = Inr r \<and> 0 \<le> r \<and> r \<le> 1"
    by (cases "jget data ''confidence''")
      (auto simp: confidence_ok_def json_number_def answer_confidence_def or_else_def py_float_def)
  with c v that show thesis by blast
qed

lemma as_opt_str_ok: "null_or_string v \<Longrightarrow> \<exists>s. as_opt_str v = Inr s"
  by (cases v) (auto simp: null_or_string_def as_opt_str_def)

lemma as_opt_float_ok: "null_or_number v \<Longrightarrow> \<exists>r. as_opt_float X v = Inr r"
  by (cases v) (auto simp: null_or_number_def json_number_def as_opt_float_def py_float_def)

lemma as_dict_ok: "null_or_object v \<Longrightarrow> \<exists>kvs. as_dict (or_else v (JObj [])) = Inr kvs"
  by (cases v) (auto simp: null_or_object_def or_else_def as_dict_def)

lemma as_str_truthy: "null_or_string v \<Longrightarrow> truthy v \<Longrightarrow> \<exists>s. as_str v = Inr s \<and> v = JStr s"
  by (cases v) (auto simp: null_or_string_def as_str_def)

lemma build_location_ok:
  assumes "location_ok v"
  shows "\<exists>l. if_dict (build_location X) v = Inr l"
proof (cases v)
  case (JObj l)
  have "\<exists>s. as_opt_str (jget l ''code'') = Inr s" "\<exists>s. as_opt_str (jget l ''name'') = Inr s"
      "\<exists>r. as_opt_float X (jget l ''latitude'') = Inr r" "\<exists>r. as_opt_float X (jget l ''longitude'') = Inr r"
    using assms by (auto simp: location_ok_def JObj intro: as_opt_str_ok as_opt_float_ok)
  moreover have "only_keys l [''code'', ''name'', ''latitude'', ''longitude'']"
    using assms by (simp add: location_ok_def JObj)
  ultimately show ?thesis by (auto simp: if_dict_def JObj build_location_def)
qed (simp_all add: if_dict_def)

lemma build_money_ok:
  assumes "amount_ok v"
  shows "\<exists>m. if_dict build_money v = Inr m \<and> (case m of None \<Rightarrow> True | Some m \<Rightarrow> money_valid m)"
proof (cases v)
  case (JObj a)
  have keys: "only_keys a [''currency'', ''amount_minor'']"
    and "currency_ok (jget a ''currency'')" "minor_ok (jget a ''amount_minor'')"
    using assms by (simp_all add: amount_ok_def JObj)
  moreover from this(2) obtain c where "jget a ''currency'' = JStr c" "length c = 3" "list_all is_upper c"
    by (auto simp: currency_ok_def split: json.splits)
  moreover have "\<exists>n. as_int (jget a ''amount_minor'') = Inr n \<and> 0 \<le> n"
    using calculation(3) by (cases "jget a ''amount_minor''") (auto simp: minor_ok_def as_int_def)
  ultimately show ?thesis
    by (auto simp: if_dict_def JObj build_money_def as_str_def new_money_def money_valid_def)
qed (simp_all add: if_dict_def)

lemma enum_error:
  "shipment_event_of s = Inl e \<Longrightarrow> e = ValueError" "invoice_event_of s = Inl e \<Longrightarrow> e = ValueError"
  by (auto simp: shipment_event_of_def invoice_event_of_def dest: enum_of_Inl)

lemma as_enum_error:
  assumes "as_enum f v = Inl e" "\<And>s e. f s = Inl e \<Longrightarrow> e = ValueError"
  shows "e = ValueError"
  using assms by (cases v) (auto simp: as_enum_def)

lemma target_schema_fields:
  assumes "target_schema_ok (JObj data)"
  shows "null_or_string (jget data ''entity_external_id'')" "null_or_string (jget data ''event_timestamp'')"
    "null_or_string (jget data ''raw_milestone'')" "null_or_string (jget data ''raw_kind'')"
    "null_or_string (jget data ''summary'')" "null_or_string (jget data ''reason'')"
    "null_or_object (jget data ''reference_ids'')" "null_or_object (jget data ''linked_references'')"
    "location_ok (jget data ''location'')" "amount_ok (jget data ''amount'')"
  using assms by (simp_all add: target_schema_ok_def)

text \<open>The failures a valid answer can still meet.\<close>

definition build_failure :: "externals \<Rightarrow> jobject \<Rightarrow> exn \<Rightarrow> bool" where
  "build_failure X data e \<longleftrightarrow> e = ValueError \<or> e = PydanticError \<or>
     parse_timestamp X (jget data ''event_timestamp'') = Inl e \<or>
     parse_timestamp X (jget data ''due_at'') = Inl e"

lemma build_shipment_valid:
  assumes "target_schema_ok (JObj data)" "build_shipment X eid data (JStr v) conf src = Inr s"
  shows "shipment_valid s \<and> ev_event_id s = eid \<and> ev_vendor_id s = v \<and> ev_confidence s = conf \<and>
     ev_source s = src \<and> parse_timestamp X (jget data ''event_timestamp'') = Inr (sh_timestamp s) \<and>
     jget data ''entity_external_id'' = JStr (sh_external_id s) \<and>
     jget data ''event_type'' = JStr (shipment_event_value (sh_event_type s))"
  using assms(2)
  by (auto simp: build_shipment_def bindE_eq_Inr new_shipment_def as_str_def as_enum_def
      shipment_event_of_Inr split: if_splits json.splits)

lemma build_shipment_error:
  assumes "target_schema_ok (JObj data)" "build_shipment X eid data (JStr v) conf src = Inl e"
  shows "build_failure X data e"
proof -
  note f = target_schema_fields [OF assms(1)]
  obtain l where l: "if_dict (build_location X) (jget data ''location'') = Inr l"
    using build_location_ok [OF f(9)] by blast
  obtain refs where refs: "as_dict (or_else (jget data ''reference_ids'') (JObj [])) = Inr refs"
    using as_dict_ok [OF f(7)] by blast
  obtain m where m: "as_opt_str (jget data ''raw_milestone'') = Inr m" using as_opt_str_ok [OF f(3)] by blast
  have ext: "\<exists>s. as_str (jget data ''entity_external_id'') = Inr s" if "required_present data"
    using as_str_truthy [OF f(1)] that by (auto simp: required_present_def)
  show ?thesis
  proof (cases "required_present data")
    case True
    with ext obtain s where "as_str (jget data ''entity_external_id'') = Inr s" by blast
    with assms(2) True l refs m show ?thesis
      by (auto simp: build_shipment_def bindE_eq_Inl build_failure_def as_str_def new_shipment_def
          dest: as_enum_error [OF _ enum_error(1)] split: if_splits)
  qed (use assms(2) in \<open>simp add: build_shipment_def build_failure_def\<close>)
qed

lemma build_invoice_valid:
  assumes "target_schema_ok (JObj data)" "build_invoice X eid data (JStr v) conf src = Inr i"
  shows "invoice_valid i \<and> ev_event_id i = eid \<and> ev_vendor_id i = v \<and> ev_confidence i = conf \<and>
     ev_source i = src \<and> parse_timestamp X (jget data ''event_timestamp'') = Inr (in_timestamp i) \<and>
     jget data ''entity_external_id'' = JStr (in_external_id i) \<and>
     jget data ''event_type'' = JStr (invoice_event_value (in_event_type i))"
  using assms(2)
  by (auto simp: build_invoice_def bindE_eq_Inr new_invoice_def as_str_def as_enum_def
      invoice_event_of_Inr split: if_splits json.splits)

lemma build_invoice_error:
  assumes "target_schema_ok (JObj data)" "build_invoice X eid data (JStr v) conf src = Inl e"
  shows "build_failure X data e"
proof -
  note f = target_schema_fields [OF assms(1)]
  obtain a where a: "if_dict build_money (jget data ''amount'') = Inr a"
    using build_money_ok [OF f(10)] by blast
  obtain refs where refs: "as_dict (or_else (jget data ''linked_references'') (JObj [])) = Inr refs"
    using as_dict_ok [OF f(8)] by blast
  obtain m where m: "as_opt_str (jget data ''raw_kind'') = Inr m" using as_opt_str_ok [OF f(4)] by blast
  have ext: "\<exists>s. as_str (jget data ''entity_external_id'') = Inr s" if "required_present data"
    using as_str_truthy [OF f(1)] that by (auto simp: required_present_def)
  show ?thesis
  proof (cases "required_present data")
    case True
    with ext obtain s where "as_str (jget data ''entity_external_id'') = Inr s" by blast
    with assms(2) True a refs m show ?thesis
      by (auto simp: build_invoice_def bindE_eq_Inl bindE_eq_Inr build_failure_def as_str_def new_invoice_def
          dest: as_enum_error [OF _ enum_error(2)] split: if_splits)
  qed (use assms(2) in \<open>simp add: build_invoice_def build_failure_def\<close>)
qed

lemma build_unclassified_result:
  assumes "target_schema_ok (JObj data)"
  shows "case build_unclassified eid data (JStr v) conf src of
      Inr u \<Rightarrow> base_valid u \<and> ev_event_id u = eid \<and> ev_vendor_id u = v \<and> ev_confidence u = conf \<and> ev_source u = src
    | Inl e \<Rightarrow> e = PydanticError"
proof -
  note f = target_schema_fields [OF assms(1)]
  from as_opt_str_ok [OF f(5)] as_opt_str_ok [OF f(6)] show ?thesis
    by (auto simp: build_unclassified_def as_str_def new_unclassified_def)
qed

definition source_of :: "string \<Rightarrow> Source" where
  "source_of source = (if source = ''llm_cache'' then LLM_CACHE else LLM)"

fun ev_origin :: "CanonicalEvent \<Rightarrow> Source" where
  "ev_origin (Shipment e) = ev_source e"
| "ev_origin (Invoice e) = ev_source e"
| "ev_origin (Unclassified e) = ev_source e"

lemma build_canonical_result:
  assumes ok: "target_schema_ok (JObj data)"
  shows "case build_canonical X eid (JObj data) source of
      Inr ev \<Rightarrow> event_valid ev \<and> event_id ev = eid \<and> jget data ''vendor_id'' = JStr (vendor_id ev) \<and>
        jget data ''classification'' = JStr (classification_value (classification ev)) \<and>
        answer_confidence X data = Inr (confidence ev) \<and> ev_origin ev = source_of source
    | Inl e \<Rightarrow> build_failure X data e"
proof -
  obtain c v r where c: "map_of data ''classification'' = Some (JStr c)"
      "c \<in> {''shipment'', ''invoice'', ''unclassified''}" and v: "map_of data ''vendor_id'' = Some (JStr v)"
    and r: "answer_confidence X data = Inr r"
    using target_schema_parts [OF ok, where X = X] by metis
  have get: "jget data ''classification'' = JStr c" "jget data ''vendor_id'' = JStr v"
    using c v by (simp_all add: jget_def)
  let ?s = "build_shipment X eid data (JStr v) r (source_of source)"
  let ?i = "build_invoice X eid data (JStr v) r (source_of source)"
  let ?u = "build_unclassified eid data (JStr v) r (source_of source)"
  have unfold: "build_canonical X eid (JObj data) source =
      (if c = ''shipment'' then bindE ?s (\<lambda>e. Inr (Shipment e))
       else if c = ''invoice'' then bindE ?i (\<lambda>e. Inr (Invoice e))
       else bindE ?u (\<lambda>e. Inr (Unclassified e)))"
    using c v r by (simp add: build_canonical_def jindex_def source_of_def)
  consider "c = ''shipment''" | "c = ''invoice''" | "c = ''unclassified''" using c(2) by auto
  then show ?thesis
  proof cases
    case 1
    then show ?thesis
      using build_shipment_valid [OF ok] build_shipment_error [OF ok] unfold get r
      by (cases ?s) (simp_all add: shipment_valid_def)
  next
    case 2
    then show ?thesis
      using build_invoice_valid [OF ok] build_invoice_error [OF ok] unfold get r
      by (cases ?i) (simp_all add: invoice_valid_def)
  next
    case 3
    then show ?thesis
      using build_unclassified_result [OF ok, of eid v r "source_of source"] unfold get r
      by (cases ?u) (simp_all add: build_failure_def)
  qed
qed

section \<open>What the adapter returns\<close>

lemma shape_outcome_ok:
  assumes "shape_outcome X eid out = Inr r"
  shows "if ar_status r = Ok
         then \<exists>ev. ar_canonical_event r = Some ev \<and> build_canonical X eid (lo_data out) (lo_source out) = Inr ev \<and>
                jget (ar_detail r) ''llm_output'' = lo_data out \<and>
                jget (ar_detail r) ''llm_source'' = JStr (lo_source out)
         else ar_status r = Unsupported \<and> ar_canonical_event r = None \<and>
              jget (ar_detail r) ''reason'' = JStr ''canonical_build_failed''"
  using assms
  by (auto simp: shape_outcome_def adapter_problem_def bindE_eq_Inr split: sum.splits if_splits)

lemma normalize_llm_cases:
  assumes "normalize_llm X F payload eid hint w = (r, w')"
  obtains
    (answered) out where "classify_extract X F eid (str_or hint ''unknown'') payload w = (Inr out, w')"
      "r = shape_outcome X eid out"
  | (refused) e where "classify_extract X F eid (str_or hint ''unknown'') payload w = (Inl e, w')"
      "r = (if e = BudgetExceeded
            then Inr (adapter_problem Deferred [''budget_exceeded''] [(''reason'', JStr ''llm_budget_exceeded'')])
            else if e = LLMValidationError
            then Inr (adapter_problem Unsupported [] [(''reason'', JStr ''llm_invalid_after_retry''),
                   (''error'', JStr (x_exn_text X LLMValidationError))])
            else Inl e)"
proof -
  obtain q v where run: "classify_extract X F eid (str_or hint ''unknown'') payload w = (q, v)" by fastforce
  show thesis
  proof (cases q)
    case (Inl e)
    have "r = (if e = BudgetExceeded
            then Inr (adapter_problem Deferred [''budget_exceeded''] [(''reason'', JStr ''llm_budget_exceeded'')])
            else if e = LLMValidationError
            then Inr (adapter_problem Unsupported [] [(''reason'', JStr ''llm_invalid_after_retry''),
                   (''error'', JStr (x_exn_text X LLMValidationError))])
            else Inl e)" "v = w'"
      using assms by (cases e; simp add: normalize_llm_def run Inl)+
    with run Inl refused show thesis by simp
  next
    case (Inr out)
    with run assms answered show thesis by (simp add: normalize_llm_def)
  qed
qed

lemma normalize_llm_only:
  assumes "normalize_llm X F payload eid hint w = (r, w')"
  shows "llm_only (wdb w) (wdb w') \<and> (cache_ok (wdb w) \<longrightarrow> cache_ok (wdb w')) \<and>
     wcalls w \<le> wcalls w' \<and> wcalls w' \<le> wcalls w + 2"
  using assms by (cases rule: normalize_llm_cases) (auto dest: classify_extract_only)

lemma normalize_llm_status:
  assumes "normalize_llm X F payload eid hint w = (Inr r, w')"
  shows "ar_status r = Ok \<and> (\<exists>ev. ar_canonical_event r = Some ev) \<or>
     ar_canonical_event r = None \<and>
       (ar_status r = Deferred \<and> jget (ar_detail r) ''reason'' = JStr ''llm_budget_exceeded'' \<or>
        ar_status r = Unsupported \<and> jget (ar_detail r) ''reason'' \<in>
          {JStr ''canonical_build_failed'', JStr ''llm_invalid_after_retry''})"
  using assms
proof (cases rule: normalize_llm_cases)
  case (answered out)
  from shape_outcome_ok [OF answered(2) [symmetric]] show ?thesis by (auto split: if_splits)
next
  case (refused e)
  then show ?thesis by (auto simp: adapter_problem_def split: if_splits)
qed

section \<open>Answers become events\<close>

text \<open>What \<open>dateutil\<close> documents to raise on a text.\<close>

definition dateutil_errors :: "externals \<Rightarrow> bool" where
  "dateutil_errors X \<longleftrightarrow>
     (\<forall>raw tzinfos dayfirst e. x_dt_parse X raw tzinfos dayfirst = Inl e \<longrightarrow> e = ValueError \<or> e = OverflowError)"

lemma parse_timestamp_errors:
  assumes "dateutil_errors X" "parse_timestamp X v = Inl e"
  shows "e = ValueError \<or> e = OverflowError"
proof (cases v)
  case (JStr s)
  have "e = ValueError \<or> e = OverflowError" if "x_dt_parse X raw t b = Inl e" for raw t b e
    using assms(1) that by (simp add: dateutil_errors_def)
  with assms(2) JStr show ?thesis
    by (auto simp: parse_timestamp_def Let_def bindE_eq_Inl astimezone_utc_def split: if_splits sum.splits)
qed (use assms(2) in \<open>simp_all add: parse_timestamp_def\<close>)

lemma build_failure_errors:
  "dateutil_errors X \<Longrightarrow> build_failure X data e \<Longrightarrow> is_value_error e \<or> e = OverflowError"
  using parse_timestamp_errors unfolding build_failure_def by fastforce

text \<open>The answer stored under the key of the question, if there is one, satisfies the target schema.\<close>

definition cached_answer_ok :: "externals \<Rightarrow> fallback \<Rightarrow> json \<Rightarrow> string \<Rightarrow> db \<Rightarrow> bool" where
  "cached_answer_ok X F payload hint d \<longleftrightarrow>
     (\<forall>row. cache_get d (extract_key X F payload hint) = Some row \<longrightarrow> target_schema_ok (lc_output row))"

lemma answers_valid:
  assumes "target_schema_law F" "cached_answer_ok X F payload hint (wdb w)"
    and run: "classify_extract X F eid hint payload w = (Inr out, w')"
  obtains data where "lo_data out = JObj data" "target_schema_ok (JObj data)"
proof -
  have ok: "target_schema_ok (lo_data out)"
    using run
  proof (cases rule: classify_extract_cases)
    case (hit row)
    from hit(3) [symmetric] have "out = cached_outcome F row" by (auto simp: bindE_eq_Inr)
    with hit(1) assms(2) show ?thesis by (simp add: cached_outcome_def cached_answer_ok_def)
  next
    case (fresh res data d1)
    with fresh_answer [OF assms(1) run] show ?thesis by (simp add: fresh_outcome_def)
  qed simp_all
  moreover obtain data where "lo_data out = JObj data"
    using ok by (cases "lo_data out") (simp_all add: target_schema_ok_def)
  ultimately show thesis using that by simp
qed

text \<open>C28: the adapter turns a valid answer into a valid event, explains why not, or lets an \<open>OverflowError\<close>
  through.  When the validator implements the schema file, the cached answer to the question, if any, was
  validated, and \<open>dateutil\<close> raises what it documents, a result with an event carries an event that pydantic's
  validators accept, with the given event id and the vendor, classification and confidence of the answer; a
  result without one is deferred for the budget, or unsupported with its reason and an error text; and what
  the adapter raises is what asking the model raised, other than those two, or the \<open>OverflowError\<close> of a time
  that has no representation in UTC.\<close>

theorem valid_answers_become_valid_events:
  assumes "target_schema_law F" "cached_answer_ok X F payload (str_or hint ''unknown'') (wdb w)" "dateutil_errors X"
    and "normalize_llm X F payload eid hint w = (r, w')"
  shows "case r of
      Inr a \<Rightarrow> (case ar_canonical_event a of
          Some ev \<Rightarrow> ar_status a = Ok \<and> event_valid ev \<and> event_id ev = eid \<and>
            (\<exists>data. jget (ar_detail a) ''llm_output'' = JObj data \<and> target_schema_ok (JObj data) \<and>
               jget data ''vendor_id'' = JStr (vendor_id ev) \<and>
               jget data ''classification'' = JStr (classification_value (classification ev)) \<and>
               answer_confidence X data = Inr (confidence ev) \<and> ar_confidence a = confidence ev)
        | None \<Rightarrow>
            ar_status a = Deferred \<and> jget (ar_detail a) ''reason'' = JStr ''llm_budget_exceeded'' \<or>
            ar_status a = Unsupported \<and>
              jget (ar_detail a) ''reason'' \<in> {JStr ''canonical_build_failed'', JStr ''llm_invalid_after_retry''} \<and>
              (\<exists>text. jget (ar_detail a) ''error'' = JStr text))
    | Inl e \<Rightarrow> e = OverflowError \<or> e \<noteq> BudgetExceeded \<and> e \<noteq> LLMValidationError \<and>
        fst (classify_extract X F eid (str_or hint ''unknown'') payload w) = Inl e"
  using assms(4)
proof (cases rule: normalize_llm_cases)
  case (answered out)
  obtain data where data: "lo_data out = JObj data" "target_schema_ok (JObj data)"
    by (rule answers_valid [OF assms(1,2) answered(1)])
  note built = build_canonical_result [OF data(2), of X eid "lo_source out"]
  show ?thesis
  proof (cases "build_canonical X eid (JObj data) (lo_source out)")
    case (Inl e)
    with built have "is_value_error e \<or> e = OverflowError" using build_failure_errors [OF assms(3)] by simp
    with answered(2) data(1) Inl show ?thesis
      by (auto simp: shape_outcome_def adapter_problem_def jget_def)
  next
    case (Inr ev)
    with answered(2) data built show ?thesis by (auto simp: shape_outcome_def jget_def)
  qed
next
  case (refused e)
  then show ?thesis by (auto simp: adapter_problem_def jget_def)
qed

lemma valid_answers_become_valid_events_witness:
  "\<exists>ev. ar_canonical_event (projr (fst (normalize_llm sample_LX (sample_F ''I think so'' ''answer'') sample_payload ''e1'' ''maersk'' sample_w))) = Some ev \<and>
     event_valid ev"
proof -
  let ?run = "normalize_llm sample_LX (sample_F ''I think so'' ''answer'') sample_payload ''e1'' ''maersk'' sample_w"
  have "is_ok (fst ?run)" "ar_canonical_event (projr (fst ?run)) \<noteq> None" by code_simp+
  then obtain a ev where r: "fst ?run = Inr a" "ar_canonical_event a = Some ev" by (auto simp: is_ok_iff)
  have "cache_get (wdb sample_w) k = None" for k by (simp add: sample_w_def sample_db_def cache_get_def tbl_get_def empty_db_def)
  then have c: "cached_answer_ok sample_LX (sample_F ''I think so'' ''answer'') sample_payload (str_or ''maersk'' ''unknown'') (wdb sample_w)"
    by (simp add: cached_answer_ok_def)
  have e: "dateutil_errors sample_LX"
    by (auto simp: dateutil_errors_def sample_LX_def sample_X_def split: option.splits)
  have "?run = (Inr a, snd ?run)" using r(1) by (simp add: prod_eq_iff)
  from valid_answers_become_valid_events [OF sample_schema_law c e this] r show ?thesis by simp
qed

text \<open>The time 0001-01-01T00:00:00+05:00 of a valid answer: the adapter catches \<open>ValidationError\<close> and
  \<open>ValueError\<close> only, so the job fails instead of going to review.\<close>

lemma overflowing_time_escapes_the_adapter:
  "build_canonical (sample_X\<lparr>x_dt_parse := \<lambda>raw tzinfos dayfirst. Inr \<lparr>dt_wall = 0, dt_off = Some 18000\<rparr>\<rparr>)
     ''e1'' (JObj sample_answer) ''llm'' = Inl OverflowError"
  by code_simp

end
