(* ===== verification/Fingerprint.thy ===== *)
theory Fingerprint
  imports Sample_Externals "HOL-Library.Product_Lexorder"
begin

text \<open>
  \<open>app/adapters/fingerprint.py\<close>: the structural fingerprint of a payload, a digest of the sorted
  set of (path, type) pairs of all its nodes.  \<open>walk\<close> lists the pairs in the order the code adds
  them to its set.
\<close>

fun walk :: "string list \<Rightarrow> json \<Rightarrow> string \<Rightarrow> (string \<times> string) list" where
  "walk skip node path =
     (if path \<in> set skip then [(path, ''map'')]
      else (case node of
          JObj kvs \<Rightarrow> (path, ''object'') #
            concat (map (\<lambda>(k, v). walk skip v (path @ ''.'' @ k)) kvs)
        | JArr xs \<Rightarrow> (path, ''array'') # concat (map (\<lambda>x. walk skip x (path @ ''[]'')) xs)
        | JBool _ \<Rightarrow> [(path, ''boolean'')]
        | JInt _ \<Rightarrow> [(path, ''number'')]
        | JFloat _ \<Rightarrow> [(path, ''number'')]
        | JStr _ \<Rightarrow> [(path, ''string'')]
        | JNull \<Rightarrow> [(path, ''null'')]))"

declare walk.simps [simp del]

definition structural_paths :: "json \<Rightarrow> string list \<Rightarrow> (string \<times> string) list" where
  "structural_paths payload map_paths = sort (remdups (walk map_paths payload ''$''))"

text \<open>\<open>orjson\<close> writes a list of pairs as an array of arrays.\<close>

definition paths_doc :: "(string \<times> string) list \<Rightarrow> json" where
  "paths_doc ps = JArr (map (\<lambda>(p, t). JArr [JStr p, JStr t]) ps)"

definition structural_fingerprint :: "externals \<Rightarrow> json \<Rightarrow> string list \<Rightarrow> string" where
  "structural_fingerprint X payload map_paths =
     x_sha256 X (x_dumps X (paths_doc (structural_paths payload map_paths)))"

section \<open>What the fingerprint depends on\<close>

lemma structural_paths_eq:
  "structural_paths p m = structural_paths q m \<longleftrightarrow> set (walk m p ''$'') = set (walk m q ''$'')"
proof
  assume "set (walk m p ''$'') = set (walk m q ''$'')"
  then show "structural_paths p m = structural_paths q m"
    unfolding structural_paths_def
    by (intro properties_for_sort)
      (auto simp: set_eq_iff_mset_remdups_eq)
next
  assume "structural_paths p m = structural_paths q m"
  then show "set (walk m p ''$'') = set (walk m q ''$'')"
    unfolding structural_paths_def by (metis set_remdups set_sort)
qed

lemma sort_keys_paths_doc: "sort_keys (paths_doc ps) = paths_doc ps"
  by (induction ps) (auto simp: paths_doc_def)

lemma paths_doc_inj: "paths_doc a = paths_doc b \<longleftrightarrow> a = b"
proof -
  have "inj (\<lambda>(p, t). JArr [JStr p, JStr t])" by (auto simp: inj_def)
  then show ?thesis by (simp add: paths_doc_def inj_map_eq_map)
qed

lemma UN_match:
  assumes "\<And>x. x \<in> A \<Longrightarrow> \<exists>y \<in> B. f x = g y" "\<And>y. y \<in> B \<Longrightarrow> \<exists>x \<in> A. f x = g y"
  shows "(\<Union>x\<in>A. f x) = (\<Union>y\<in>B. g y)"
proof (intro equalityI UN_least)
  show "f x \<subseteq> (\<Union>y\<in>B. g y)" if "x \<in> A" for x using assms(1) [OF that] by auto
  show "g y \<subseteq> (\<Union>x\<in>A. f x)" if "y \<in> B" for y using assms(2) [OF that] by auto
qed

text \<open>Two documents of the same shape: equal leaf types, the same keys with values of the same
  shape, arrays with the same shapes of elements in any number and order.\<close>

inductive same_shape :: "json \<Rightarrow> json \<Rightarrow> bool" where
  null: "same_shape JNull JNull"
| boolean: "same_shape (JBool a) (JBool b)"
| int_int: "same_shape (JInt i) (JInt j)"
| int_float: "same_shape (JInt i) (JFloat r)"
| float_int: "same_shape (JFloat r) (JInt i)"
| float_float: "same_shape (JFloat r) (JFloat q)"
| string: "same_shape (JStr s) (JStr t)"
| array: "(\<And>x. x \<in> set xs \<Longrightarrow> \<exists>y \<in> set ys. same_shape x y) \<Longrightarrow>
    (\<And>y. y \<in> set ys \<Longrightarrow> \<exists>x \<in> set xs. same_shape x y) \<Longrightarrow> same_shape (JArr xs) (JArr ys)"
| object: "(\<And>k v. (k, v) \<in> set a \<Longrightarrow> \<exists>w. (k, w) \<in> set b \<and> same_shape v w) \<Longrightarrow>
    (\<And>k w. (k, w) \<in> set b \<Longrightarrow> \<exists>v. (k, v) \<in> set a \<and> same_shape v w) \<Longrightarrow>
    same_shape (JObj a) (JObj b)"

inductive_simps same_shape_simps [simp]:
  "same_shape JNull w" "same_shape (JBool a) w" "same_shape (JInt i) w" "same_shape (JStr s) w"

lemma same_shape_refl: "same_shape v v"
proof (induction v)
  case (JObj kvs)
  have "same_shape w w" if "(k, w) \<in> set kvs" for k w
    using JObj [OF that] by simp
  then show ?case by (intro same_shape.object) blast+
qed (auto intro: same_shape.intros)

lemma same_shape_walk: "same_shape v w \<Longrightarrow> set (walk m v path) = set (walk m w path)"
proof (induction arbitrary: path rule: same_shape.induct)
  case (array xs ys)
  have "(\<Union>x\<in>set xs. set (walk m x (path @ ''[]''))) = (\<Union>y\<in>set ys. set (walk m y (path @ ''[]'')))"
  proof (rule UN_match)
    show "\<exists>y \<in> set ys. set (walk m x (path @ ''[]'')) = set (walk m y (path @ ''[]''))"
      if "x \<in> set xs" for x
      using array.IH(1) [OF that] by auto
    show "\<exists>x \<in> set xs. set (walk m x (path @ ''[]'')) = set (walk m y (path @ ''[]''))"
      if "y \<in> set ys" for y
      using array.IH(2) [OF that] by auto
  qed
  then show ?case by (simp add: walk.simps [of _ "JArr _"])
next
  case (object a b)
  have "(\<Union>(k, v)\<in>set a. set (walk m v (path @ ''.'' @ k))) =
      (\<Union>(k, v)\<in>set b. set (walk m v (path @ ''.'' @ k)))"
  proof (rule UN_match)
    show "\<exists>q \<in> set b. (case p of (k, v) \<Rightarrow> set (walk m v (path @ ''.'' @ k))) =
        (case q of (k, v) \<Rightarrow> set (walk m v (path @ ''.'' @ k)))" if p: "p \<in> set a" for p
    proof -
      obtain k v where [simp]: "p = (k, v)" by (cases p)
      from object.IH(1) [of k v] p obtain w where "(k, w) \<in> set b"
          "set (walk m v (path @ ''.'' @ k)) = set (walk m w (path @ ''.'' @ k))" by auto
      then show ?thesis by (intro bexI [of _ "(k, w)"]) simp_all
    qed
    show "\<exists>p \<in> set a. (case p of (k, v) \<Rightarrow> set (walk m v (path @ ''.'' @ k))) =
        (case q of (k, v) \<Rightarrow> set (walk m v (path @ ''.'' @ k)))" if q: "q \<in> set b" for q
    proof -
      obtain k w where [simp]: "q = (k, w)" by (cases q)
      from object.IH(2) [of k w] q obtain v where "(k, v) \<in> set a"
          "set (walk m v (path @ ''.'' @ k)) = set (walk m w (path @ ''.'' @ k))" by auto
      then show ?thesis by (intro bexI [of _ "(k, v)"]) simp_all
    qed
  qed
  then show ?case by (simp add: walk.simps [of _ "JObj _"] case_prod_beta)
qed (simp_all add: walk.simps)

text \<open>The fingerprint depends on the shape of a payload only.  Other values in the leaves, an
  integer for a float, object keys in another order and another number or order of array elements
  of the same shapes all give the same fingerprint, whatever subtrees are declared as maps.\<close>

lemma fingerprint_depends_on_shape_only:
  assumes "same_shape p q"
  shows "structural_fingerprint X p m = structural_fingerprint X q m"
proof -
  have "structural_paths p m = structural_paths q m"
    using same_shape_walk [OF assms] by (simp add: structural_paths_eq)
  then show ?thesis by (simp add: structural_fingerprint_def)
qed

lemma fingerprint_depends_on_shape_only_witness:
  "structural_fingerprint sample_X
     (JObj [(''id'', JInt 7), (''items'', JArr [JObj [(''sku'', JStr ''a'')]])]) [] =
   structural_fingerprint sample_X
     (JObj [(''items'', JArr [JObj [(''sku'', JStr ''b'')], JObj [(''sku'', JStr ''c'')]]),
            (''id'', JFloat (3/2))]) []"
  by (rule fingerprint_depends_on_shape_only)
    (intro same_shape.object; fastforce intro: same_shape.intros)

definition fingerprint_message :: "externals \<Rightarrow> json \<Rightarrow> string list \<Rightarrow> string" where
  "fingerprint_message X p m = x_dumps X (paths_doc (structural_paths p m))"

text \<open>C39: two payloads share a fingerprint exactly when they have the same set of typed paths,
  unless the digest collides on the two different path lists.\<close>

theorem fingerprint_equality:
  assumes "orjson_laws X"
  shows "structural_fingerprint X p m = structural_fingerprint X q m \<longleftrightarrow>
     set (walk m p ''$'') = set (walk m q ''$'') \<or>
     fingerprint_message X p m \<noteq> fingerprint_message X q m \<and>
       x_sha256 X (fingerprint_message X p m) = x_sha256 X (fingerprint_message X q m)"
proof -
  have "fingerprint_message X p m = fingerprint_message X q m \<longleftrightarrow>
      set (walk m p ''$'') = set (walk m q ''$'')"
    using assms unfolding orjson_laws_def fingerprint_message_def
    by (simp add: sort_keys_paths_doc paths_doc_inj structural_paths_eq)
  then show ?thesis by (auto simp: structural_fingerprint_def fingerprint_message_def)
qed

lemma fingerprint_equality_witness:
  "structural_fingerprint sample_X (JObj [(''a'', JNull)]) [] \<noteq>
   structural_fingerprint sample_X (JObj [(''a'', JStr ''x'')]) []"
proof -
  have "set (walk [] (JObj [(''a'', JNull)]) ''$'') \<noteq> set (walk [] (JObj [(''a'', JStr ''x'')]) ''$'')"
    by code_simp
  then show ?thesis
    by (subst fingerprint_equality [OF sample_X_orjson]) (simp add: sample_X_def)
qed

text \<open>Keys are joined to paths with \<open>.\<close> and \<open>[]\<close> unescaped, so payloads of different shapes
  can share a fingerprint with every digest: a key that contains a dot beside an empty object looks
  like a nested key, and a key that ends in brackets beside an empty array like an element.\<close>

lemma fingerprint_confuses_paths:
  "structural_fingerprint X (JObj [(k, JObj []), (k @ ''.'' @ l, v)]) [] =
     structural_fingerprint X (JObj [(k, JObj [(l, v)])]) [] \<and>
   structural_fingerprint X (JObj [(k, JArr []), (k @ ''[]'', v)]) [] =
     structural_fingerprint X (JObj [(k, JArr [v])]) []"
proof -
  have "structural_paths (JObj [(k, JObj []), (k @ ''.'' @ l, v)]) [] =
      structural_paths (JObj [(k, JObj [(l, v)])]) []"
    by (simp add: structural_paths_eq walk.simps [of _ "JObj _"])
  moreover have "structural_paths (JObj [(k, JArr []), (k @ ''[]'', v)]) [] =
      structural_paths (JObj [(k, JArr [v])]) []"
    by (simp add: structural_paths_eq walk.simps [of _ "JObj _"] walk.simps [of _ "JArr _"])
  ultimately show ?thesis by (simp add: structural_fingerprint_def)
qed

text \<open>A subtree declared as a map does not count: whatever stands at a path of \<open>map_paths\<close>, the
  fingerprint is the same.\<close>

lemma fingerprint_skips_maps:
  assumes "''$.'' @ k \<in> set m"
  shows "structural_fingerprint X (JObj (a @ (k, v) # b)) m =
         structural_fingerprint X (JObj (a @ (k, w) # b)) m"
proof -
  have "walk m v (''$.'' @ k) = walk m w (''$.'' @ k)" using assms by (simp add: walk.simps)
  then have "walk m (JObj (a @ (k, v) # b)) ''$'' = walk m (JObj (a @ (k, w) # b)) ''$''"
    by (simp add: walk.simps [of _ "JObj _"])
  then show ?thesis by (simp add: structural_fingerprint_def structural_paths_def)
qed

lemma fingerprint_skips_maps_witness:
  "structural_fingerprint sample_X (JObj ([] @ (''refs'', JObj [(''po'', JStr ''1'')]) # [])) [''$.refs''] =
   structural_fingerprint sample_X (JObj ([] @ (''refs'', JArr []) # [])) [''$.refs'']"
  by (rule fingerprint_skips_maps) simp

end
