(* ===== verification/Registry.thy ===== *)
theory Registry
  imports Storage Fingerprint
begin

text \<open>
  \<open>app/adapters/registry.py\<close>: the schemas learned per vendor and payload shape, and the map from a
  vendor's event types to canonical states.
\<close>

section \<open>Schemas\<close>

record SchemaMatch =
  sm_schema_id :: int
  sm_vendor_id :: string
  sm_schema_doc :: jobject
  sm_schema_version :: int
  sm_status :: schema_status

type_synonym schema_entry = "(string \<times> string \<times> int) \<times> vendor_schema_row"

fun entry_version :: "schema_entry \<Rightarrow> int" where
  "entry_version ((v, f, n), r) = n"

definition status_rank :: "schema_status \<Rightarrow> int" where
  "status_rank s = (if s = Active then 0 else 1)"

text \<open>The \<open>ORDER BY\<close>: active rows first, then the highest version.\<close>

definition entry_before :: "schema_entry \<Rightarrow> schema_entry \<Rightarrow> bool" where
  "entry_before a b \<longleftrightarrow>
     status_rank (vs_status (snd a)) < status_rank (vs_status (snd b)) \<or>
     status_rank (vs_status (snd a)) = status_rank (vs_status (snd b)) \<and>
       entry_version b < entry_version a"

definition schema_candidates :: "db \<Rightarrow> string \<Rightarrow> string \<Rightarrow> schema_entry list" where
  "schema_candidates d vendor fp =
     filter (\<lambda>((v, f, n), r). v = vendor \<and> f = fp \<and>
               (vs_status r = Provisional \<or> vs_status r = Active)) (vendor_schemas d)"

definition first_entry :: "schema_entry list \<Rightarrow> schema_entry option" where
  "first_entry es = (case es of [] \<Rightarrow> None
     | e # es \<Rightarrow> Some (foldl (\<lambda>best c. if entry_before c best then c else best) e es))"

fun to_match :: "schema_entry \<Rightarrow> SchemaMatch" where
  "to_match ((v, f, n), r) =
     \<lparr>sm_schema_id = vs_id r, sm_vendor_id = v, sm_schema_doc = vs_schema_doc r,
      sm_schema_version = n, sm_status = vs_status r\<rparr>"

definition lookup_schema :: "externals \<Rightarrow> db \<Rightarrow> string \<Rightarrow> json \<Rightarrow> SchemaMatch option" where
  "lookup_schema X d vendor payload =
     map_option to_match
       (first_entry (schema_candidates d vendor (structural_fingerprint X payload [])))"

definition map_schemas :: "int \<Rightarrow> (vendor_schema_row \<Rightarrow> vendor_schema_row) \<Rightarrow> db \<Rightarrow> db" where
  "map_schemas i f d = d\<lparr>vendor_schemas :=
     map (\<lambda>(k, r). (k, if vs_id r = i then f r else r)) (vendor_schemas d)\<rparr>"

definition increment_success :: "int \<Rightarrow> db \<Rightarrow> db result" where
  "increment_success i d =
     (if list_ex (\<lambda>(k, r). vs_id r = i \<and> vs_success_count r \<ge> int8_max) (vendor_schemas d)
      then Inl DataError
      else Inr (map_schemas i (\<lambda>r. r\<lparr>vs_success_count := vs_success_count r + 1\<rparr>) d))"

definition increment_failure :: "int \<Rightarrow> db \<Rightarrow> db result" where
  "increment_failure i d =
     (if list_ex (\<lambda>(k, r). vs_id r = i \<and> vs_failure_count r \<ge> int8_max) (vendor_schemas d)
      then Inl DataError
      else Inr (map_schemas i (\<lambda>r. r\<lparr>vs_failure_count := vs_failure_count r + 1\<rparr>) d))"

section \<open>Event types\<close>

definition lookup_event_type :: "db \<Rightarrow> string \<Rightarrow> string \<Rightarrow> (string \<times> string) option" where
  "lookup_event_type d vendor raw =
     map_option (\<lambda>r. (tm_classification r, tm_canonical_state r))
       (tbl_get (vendor_event_type_map d) (vendor, raw))"

text \<open>A number stored in a \<open>NUMERIC(4, 3)\<close> column: rounded to three decimals, half away from
  zero, and below ten.\<close>

definition numeric_4_3 :: "rat \<Rightarrow> rat result" where
  "numeric_4_3 x =
     (let k = (if x \<ge> 0 then floor (x * 1000 + 1/2) else - floor (1/2 - x * 1000)) in
      if abs k < 10000 then Inr (of_int k / 1000) else Inl DataError)"

definition persist_event_type ::
  "db \<Rightarrow> string \<Rightarrow> string \<Rightarrow> string \<Rightarrow> string \<Rightarrow> rat \<Rightarrow> string \<Rightarrow> db result" where
  "persist_event_type d vendor raw cls state conf0 source =
     bindE (numeric_4_3 conf0) (\<lambda>conf.
       let k = (vendor, raw);
           t = vendor_event_type_map d in
       Inr (d\<lparr>vendor_event_type_map :=
         (case tbl_get t k of
            None \<Rightarrow> tbl_insert k
              \<lparr>tm_canonical_state = state, tm_classification = cls,
               tm_confidence = conf, tm_source = source, tm_reviewed_by_human = False\<rparr> t
          | Some r \<Rightarrow>
              if tm_reviewed_by_human r then t
              else tbl_update k (\<lambda>r. r\<lparr>tm_classification := cls,
                     tm_canonical_state := state, tm_confidence := conf,
                     tm_source := source\<rparr>) t)\<rparr>))"

section \<open>Lookup returns the best row\<close>

lemma foldl_best:
  assumes "\<And>a b c. before a b \<Longrightarrow> before b c \<Longrightarrow> before a c"
    and "\<And>a. \<not> before a a"
    and "\<And>a b c. before a c \<Longrightarrow> \<not> before b c \<Longrightarrow> before a b"
  shows "foldl (\<lambda>best c. if before c best then c else best) e es \<in> set (e # es) \<and>
     (\<forall>c \<in> set (e # es). \<not> before c (foldl (\<lambda>best c. if before c best then c else best) e es))"
proof (induction es arbitrary: e)
  case Nil
  then show ?case using assms(2) by simp
next
  case (Cons x es)
  let ?b = "\<lambda>e. foldl (\<lambda>best c. if before c best then c else best) e es"
  show ?case
  proof (cases "before x e")
    case True
    have "\<not> before e (?b x)"
    proof
      assume "before e (?b x)"
      from assms(1) [OF True this] Cons.IH [of x] show False by simp
    qed
    with Cons.IH [of x] True show ?thesis by auto
  next
    case False
    have "\<not> before x (?b e)"
    proof
      assume "before x (?b e)"
      moreover have "\<not> before e (?b e)" using Cons.IH [of e] by simp
      ultimately show False using assms(3) False by blast
    qed
    with Cons.IH [of e] False show ?thesis by auto
  qed
qed

lemma entry_before_order:
  "entry_before a b \<Longrightarrow> entry_before b c \<Longrightarrow> entry_before a c"
  "\<not> entry_before a a"
  "entry_before a c \<Longrightarrow> \<not> entry_before b c \<Longrightarrow> entry_before a b"
  unfolding entry_before_def by linarith+

lemma first_entry_best:
  assumes "first_entry es = Some e"
  shows "e \<in> set es" "\<forall>c \<in> set es. \<not> entry_before c e"
proof -
  obtain a as where es: "es = a # as" using assms by (cases es) (auto simp: first_entry_def)
  note best = foldl_best [of entry_before a as, OF entry_before_order]
  show "e \<in> set es" "\<forall>c \<in> set es. \<not> entry_before c e"
    using best assms by (simp_all add: es first_entry_def)
qed

lemma first_entry_None: "first_entry es = None \<longleftrightarrow> es = []"
  by (simp add: first_entry_def split: list.splits)

lemma lookup_schema_spec:
  "case lookup_schema X d vendor payload of
     None \<Rightarrow> (\<forall>n r. ((vendor, structural_fingerprint X payload [], n), r) \<notin> set (vendor_schemas d) \<or>
                 vs_status r = Deprecated)
   | Some m \<Rightarrow> sm_vendor_id m = vendor \<and> sm_status m \<noteq> Deprecated \<and>
       (\<exists>r. ((vendor, structural_fingerprint X payload [], sm_schema_version m), r)
              \<in> set (vendor_schemas d) \<and>
            vs_id r = sm_schema_id m \<and> vs_schema_doc r = sm_schema_doc m \<and> vs_status r = sm_status m) \<and>
       (\<forall>n r. ((vendor, structural_fingerprint X payload [], n), r) \<notin> set (vendor_schemas d) \<or>
          vs_status r = Deprecated \<or> vs_status r = Provisional \<and> sm_status m = Active \<or>
          vs_status r = sm_status m \<and> n \<le> sm_schema_version m)"
proof -
  let ?fp = "structural_fingerprint X payload []"
  let ?c = "schema_candidates d vendor ?fp"
  have mem: "((vendor, ?fp, n), r) \<in> set ?c \<longleftrightarrow>
      ((vendor, ?fp, n), r) \<in> set (vendor_schemas d) \<and> vs_status r \<noteq> Deprecated" for n r
    by (cases "vs_status r") (auto simp: schema_candidates_def)
  show ?thesis
  proof (cases "first_entry ?c")
    case None
    then have "?c = []" by (simp add: first_entry_None)
    with mem have "((vendor, ?fp, n), r) \<notin> set (vendor_schemas d) \<or> vs_status r = Deprecated" for n r
      by (metis empty_iff empty_set)
    with None show ?thesis by (simp add: lookup_schema_def)
  next
    case (Some e)
    note best = first_entry_best [OF Some]
    obtain n r where e: "e = ((vendor, ?fp, n), r)"
      using best(1) by (auto simp: schema_candidates_def)
    have worse: "((vendor, ?fp, n'), r') \<notin> set (vendor_schemas d) \<or> vs_status r' = Deprecated \<or>
        vs_status r' = Provisional \<and> vs_status r = Active \<or> vs_status r' = vs_status r \<and> n' \<le> n" for n' r'
    proof (cases "((vendor, ?fp, n'), r') \<in> set ?c")
      case True
      with best(2) e have "\<not> entry_before ((vendor, ?fp, n'), r') ((vendor, ?fp, n), r)" by blast
      then show ?thesis
        using mem [of n r] best(1) e
        by (cases "vs_status r"; cases "vs_status r'") (auto simp: entry_before_def status_rank_def)
    qed (use mem in auto)
    have "vs_status r \<noteq> Deprecated" "((vendor, ?fp, n), r) \<in> set (vendor_schemas d)"
      using mem best(1) e by blast+
    with Some e worse show ?thesis by (auto simp: lookup_schema_def)
  qed
qed

text \<open>The registry returns the best usable schema.  What \<open>lookup\<close> returns is a stored,
  non-deprecated schema of the asked vendor for the fingerprint of the payload; no other usable
  schema of that shape is active while this one is provisional, or has the same status and a higher
  version.  It returns nothing only when there is no usable schema.\<close>

lemma lookup_returns_best_schema:
  "case lookup_schema X d vendor payload of
     None \<Rightarrow> (\<forall>n r. ((vendor, structural_fingerprint X payload [], n), r) \<notin> set (vendor_schemas d) \<or>
                 vs_status r = Deprecated)
   | Some m \<Rightarrow> sm_vendor_id m = vendor \<and> sm_status m \<noteq> Deprecated \<and>
       (\<exists>r. ((vendor, structural_fingerprint X payload [], sm_schema_version m), r)
              \<in> set (vendor_schemas d) \<and>
            vs_id r = sm_schema_id m \<and> vs_schema_doc r = sm_schema_doc m \<and> vs_status r = sm_status m) \<and>
       (\<forall>n r. ((vendor, structural_fingerprint X payload [], n), r) \<notin> set (vendor_schemas d) \<or>
          vs_status r = Deprecated \<or> vs_status r = Provisional \<and> sm_status m = Active \<or>
          vs_status r = sm_status m \<and> n \<le> sm_schema_version m)"
  by (rule lookup_schema_spec)

definition sample_registry :: db where
  "sample_registry = empty_db\<lparr>vendor_schemas :=
     [((''maersk'', structural_fingerprint sample_X JNull [], n),
        \<lparr>vs_id = n, vs_schema_doc = [], vs_status = st, vs_created_by = ''ops'', vs_source_event_id = ''e1'',
         vs_success_count = 0, vs_failure_count = 0\<rparr>).
       (n, st) \<leftarrow> [(1, Active), (2, Active), (3, Provisional), (4, Deprecated)]]\<rparr>"

lemma lookup_returns_best_schema_witness:
  "map_option sm_schema_version (lookup_schema sample_X sample_registry ''maersk'' JNull) = Some 2 \<and>
   sm_vendor_id (the (lookup_schema sample_X sample_registry ''maersk'' JNull)) = ''maersk''"
proof -
  have two: "map_option sm_schema_version (lookup_schema sample_X sample_registry ''maersk'' JNull) = Some 2"
    by code_simp
  then show ?thesis
    using lookup_returns_best_schema [where X = sample_X and d = sample_registry and vendor = "''maersk''" and payload = JNull]
    by auto
qed

text \<open>A locale for what the pipeline needs of the map from event types to states.\<close>

locale reviewed_map =
  fixes find :: "'d \<Rightarrow> 'k \<Rightarrow> 'v option"
    and locked :: "'d \<Rightarrow> 'k \<Rightarrow> bool"
    and put :: "'k \<Rightarrow> 'v \<Rightarrow> 'd \<Rightarrow> 'd result"
  assumes put_find: "put k v d = Inr d' \<Longrightarrow>
      find d' k' = (if k' = k \<and> \<not> locked d k then Some v else find d k')"
    and put_locked: "put k v d = Inr d' \<Longrightarrow> locked d' k' = locked d k'"
begin

lemma learned_once: "put k v d = Inr d' \<Longrightarrow> \<not> locked d k \<Longrightarrow> find d' k = Some v"
  by (simp add: put_find)

lemma reviewed_kept: "put k v d = Inr d' \<Longrightarrow> locked d k' \<Longrightarrow> find d' k' = find d k'"
  by (auto simp: put_find)

end

definition event_type_reviewed :: "db \<Rightarrow> string \<times> string \<Rightarrow> bool" where
  "event_type_reviewed d k = (case tbl_get (vendor_event_type_map d) k of
       None \<Rightarrow> False | Some r \<Rightarrow> tm_reviewed_by_human r)"

definition find_event_type :: "db \<Rightarrow> string \<times> string \<Rightarrow> (string \<times> string) option" where
  "find_event_type d k = lookup_event_type d (fst k) (snd k)"

definition put_event_type ::
  "rat \<Rightarrow> string \<Rightarrow> string \<times> string \<Rightarrow> string \<times> string \<Rightarrow> db \<Rightarrow> db result" where
  "put_event_type conf source k v d =
     persist_event_type d (fst k) (snd k) (fst v) (snd v) conf source"

lemma persist_event_type_get:
  assumes "persist_event_type d vendor raw cls state conf source = Inr d'"
  shows "tbl_get (vendor_event_type_map d') k =
     (if k = (vendor, raw) \<and> \<not> event_type_reviewed d k
      then Some \<lparr>tm_canonical_state = state, tm_classification = cls,
             tm_confidence = projr (numeric_4_3 conf), tm_source = source, tm_reviewed_by_human = False\<rparr>
      else tbl_get (vendor_event_type_map d) k)"
proof -
  obtain c where "numeric_4_3 conf = Inr c"
    using assms by (auto simp: persist_event_type_def bindE_eq_Inr)
  then show ?thesis
    using assms
    by (cases "tbl_get (vendor_event_type_map d) (vendor, raw)")
      (auto simp: persist_event_type_def Let_def event_type_reviewed_def table_simps)
qed

lemma put_event_type_cases:
  assumes "put_event_type conf source k v d = Inr d'"
  shows "lookup_event_type d' vendor raw =
       (if (vendor, raw) = k \<and> \<not> event_type_reviewed d k then Some v else lookup_event_type d vendor raw)"
    and "event_type_reviewed d' k' = event_type_reviewed d k'"
  using persist_event_type_get [of d "fst k" "snd k" "fst v" "snd v" conf source d'] assms
  by (simp_all add: put_event_type_def lookup_event_type_def event_type_reviewed_def)
    (auto split: option.splits)

interpretation types: reviewed_map find_event_type event_type_reviewed "put_event_type conf source"
  by unfold_locales (auto simp: find_event_type_def put_event_type_cases)

text \<open>A learned event type is found again, and a human decision is never overwritten.  After
  \<open>persist_event_type\<close> the lookup of that vendor and type returns the stored pair, unless a human
  had reviewed it, in which case it returns what it returned before; every other entry and every
  review flag stays.\<close>

lemma persisted_event_type_is_found:
  assumes "persist_event_type d vendor raw cls state conf source = Inr d'"
  shows "lookup_event_type d' vendor raw =
           (if event_type_reviewed d (vendor, raw) then lookup_event_type d vendor raw
            else Some (cls, state)) \<and>
         (\<forall>v r. (v, r) = (vendor, raw) \<or> lookup_event_type d' v r = lookup_event_type d v r) \<and>
         (\<forall>k. event_type_reviewed d' k = event_type_reviewed d k)"
proof -
  have put: "put_event_type conf source (vendor, raw) (cls, state) d = Inr d'"
    using assms by (simp add: put_event_type_def)
  show ?thesis
    using types.put_find [OF put] types.put_locked [OF put]
    by (auto simp: find_event_type_def split: if_splits)
qed

lemma persisted_event_type_is_found_witness:
  "lookup_event_type (case persist_event_type empty_db ''maersk'' ''GTOT'' ''shipment''
       ''shipment.in_transit'' (93/100) ''llm'' of Inr d \<Rightarrow> d | Inl _ \<Rightarrow> empty_db) ''maersk'' ''GTOT'' =
     Some (''shipment'', ''shipment.in_transit'')"
proof -
  have "is_ok (persist_event_type empty_db ''maersk'' ''GTOT'' ''shipment'' ''shipment.in_transit'' (93/100) ''llm'')"
    by code_simp
  then obtain d where d: "persist_event_type empty_db ''maersk'' ''GTOT'' ''shipment''
      ''shipment.in_transit'' (93/100) ''llm'' = Inr d" by (auto simp: is_ok_iff)
  have "\<not> event_type_reviewed empty_db (''maersk'', ''GTOT'')" by code_simp
  with persisted_event_type_is_found [OF d] d show ?thesis by simp
qed

section \<open>The invariant of the schema table\<close>

text \<open>The unique constraints, and that every row has version 1, the only one the service ever writes.
  \<open>lookup_schema\<close> itself takes the highest version; what is proved under this invariant does not cover a table
  into which somebody has put higher versions by hand.\<close>

definition schemas_ok :: "db \<Rightarrow> bool" where
  "schemas_ok d \<longleftrightarrow> distinct (map fst (vendor_schemas d)) \<and>
     (\<forall>((v, f, n), r) \<in> set (vendor_schemas d). n = 1 \<and> vs_id r < next_schema_id d) \<and>
     distinct (map (\<lambda>(k, r). vs_id r) (vendor_schemas d))"

lemma map_schemas_get: "tbl_get (vendor_schemas (map_schemas i f d)) k =
    map_option (\<lambda>r. if vs_id r = i then f r else r) (tbl_get (vendor_schemas d) k)"
proof -
  have "map_of (map (\<lambda>(k, r). (k, g r)) t) k = map_option g (map_of t k)"
    for g and t :: "((string \<times> string \<times> int) \<times> vendor_schema_row) list"
    by (induction t) auto
  then show ?thesis by (simp add: map_schemas_def tbl_get_def)
qed

lemma schemas_ok_map:
  assumes "schemas_ok d" "\<And>r. vs_id (f r) = vs_id r"
  shows "schemas_ok (map_schemas i f d)"
proof -
  have "map fst (vendor_schemas (map_schemas i f d)) = map fst (vendor_schemas d)"
    "map (\<lambda>(k, r). vs_id r) (vendor_schemas (map_schemas i f d)) = map (\<lambda>(k, r). vs_id r) (vendor_schemas d)"
    using assms(2) by (auto simp: map_schemas_def)
  moreover have "n = 1 \<and> vs_id r < next_schema_id (map_schemas i f d)"
    if "((v, g, n), r) \<in> set (vendor_schemas (map_schemas i f d))" for v g n r
  proof -
    from that obtain q where "((v, g, n), q) \<in> set (vendor_schemas d)" "vs_id r = vs_id q"
      using assms(2) by (auto simp: map_schemas_def)
    with assms(1) show ?thesis by (auto simp: schemas_ok_def map_schemas_def)
  qed
  ultimately show ?thesis
    using assms(1) unfolding schemas_ok_def by auto
qed

lemma increment_ok:
  "schemas_ok d \<Longrightarrow> increment_success i d = Inr d' \<Longrightarrow> schemas_ok d'"
  "schemas_ok d \<Longrightarrow> increment_failure i d = Inr d' \<Longrightarrow> schemas_ok d'"
  by (auto simp: increment_success_def increment_failure_def split: if_splits intro!: schemas_ok_map)

lemma lookup_schema_unique:
  assumes "schemas_ok d"
    and "tbl_get (vendor_schemas d) (vendor, structural_fingerprint X payload [], 1) = Some r"
    and "vs_status r \<noteq> Deprecated"
  shows "lookup_schema X d vendor payload =
     Some \<lparr>sm_schema_id = vs_id r, sm_vendor_id = vendor, sm_schema_doc = vs_schema_doc r,
           sm_schema_version = 1, sm_status = vs_status r\<rparr>"
proof -
  let ?fp = "structural_fingerprint X payload []"
  have mem: "((vendor, ?fp, 1), r) \<in> set (vendor_schemas d)" by (rule tbl_get_mem [OF assms(2)])
  have only: "n = 1 \<and> r' = r" if "((vendor, ?fp, n), r') \<in> set (vendor_schemas d)" for n r'
  proof -
    have "n = 1" using assms(1) that by (auto simp: schemas_ok_def)
    with that mem assms(1) show ?thesis by (auto simp: schemas_ok_def dest: eq_key_imp_eq_value)
  qed
  show ?thesis
  proof (cases "lookup_schema X d vendor payload")
    case None
    with lookup_schema_spec [where X = X and d = d and vendor = vendor and payload = payload] mem assms(3) show ?thesis by auto
  next
    case (Some m)
    with lookup_schema_spec [where X = X and d = d and vendor = vendor and payload = payload] obtain r' where
      "sm_vendor_id m = vendor" "((vendor, ?fp, sm_schema_version m), r') \<in> set (vendor_schemas d)"
      "vs_id r' = sm_schema_id m" "vs_schema_doc r' = sm_schema_doc m" "vs_status r' = sm_status m" by auto
    with only [of "sm_schema_version m" r'] Some show ?thesis by (cases m) auto
  qed
qed

end
