(* ===== verification/SchemaDiscoverer.thy ===== *)
theory SchemaDiscoverer
  imports LLMSchema Registry SchemaDriven Refinement
begin

text \<open>
  \<open>app/adapters/schema_discoverer.py\<close>: a schema document is inferred from what the LLM extracted
  by searching the payload for the extracted values, checked by running the extractor with it, and
  stored for the fingerprint of the payload.
\<close>

section \<open>Searching the payload\<close>

text \<open>The leaves with their paths, in the order the three \<open>_walk\<close> functions visit them.\<close>

fun leaf_paths :: "json \<Rightarrow> string \<Rightarrow> (string \<times> json) list"
  and elem_paths :: "nat \<Rightarrow> json list \<Rightarrow> string \<Rightarrow> (string \<times> json) list" where
  "leaf_paths (JObj kvs) path = concat (map (\<lambda>(k, v). leaf_paths v (path @ ''.'' @ k)) kvs)"
| "leaf_paths (JArr xs) path = elem_paths 0 xs path"
| "leaf_paths v path = [(path, v)]"
| "elem_paths i [] path = []"
| "elem_paths i (x # xs) path =
     leaf_paths x (path @ ''['' @ nat_str i @ '']'') @ elem_paths (i + 1) xs path"

definition first_of :: "'a list \<Rightarrow> 'a option" where
  "first_of xs = (case xs of [] \<Rightarrow> None | x # _ \<Rightarrow> Some x)"

definition find_value_path :: "externals \<Rightarrow> json \<Rightarrow> json \<Rightarrow> string option" where
  "find_value_path X payload value =
     (if value = JNull then None
      else
        let target = strip (pstr X value);
            results = map fst (filter (\<lambda>(p, v). v \<noteq> JNull \<and> strip (pstr X v) = target)
                                 (leaf_paths payload ''$'')) in
        first_of (sort_key length results))"

definition find_money_path :: "json \<Rightarrow> json \<Rightarrow> string option result" where
  "find_money_path payload currency =
     (if \<not> truthy currency then Inr None
      else
        let texts = filter (\<lambda>(p, v). case v of JStr _ \<Rightarrow> True | _ \<Rightarrow> False) (leaf_paths payload ''$'') in
        (case currency of
           JStr c \<Rightarrow> Inr (first_of (map fst (filter (\<lambda>(p, v). case v of
                       JStr s \<Rightarrow> occurs_in c (upper s) | _ \<Rightarrow> False) texts)))
         | _ \<Rightarrow> if texts = [] then Inr None else Inl TypeError))"

text \<open>\<open>re.match(r"(\d{4})-(\d{2})-(\d{2})", s)\<close>.\<close>

definition match_date :: "string \<Rightarrow> (string \<times> string \<times> string) option" where
  "match_date s =
     (if 10 \<le> length s \<and> list_all is_digit (take 4 s) \<and> s ! 4 = CHR ''-'' \<and>
         list_all is_digit (take 2 (drop 5 s)) \<and> s ! 7 = CHR ''-'' \<and>
         list_all is_digit (take 2 (drop 8 s))
      then Some (take 4 s, take 2 (drop 5 s), take 2 (drop 8 s)) else None)"

definition looks_like_timestamp :: "string \<Rightarrow> string \<Rightarrow> bool" where
  "looks_like_timestamp year val \<longleftrightarrow>
     occurs_in year val \<and>
     (CHR ''/'' \<in> set val \<or> CHR ''-'' \<in> set val \<or> CHR ''.'' \<in> set val) \<and>
     CHR '':'' \<in> set val"

definition date_matches :: "string \<Rightarrow> string \<Rightarrow> string \<Rightarrow> string \<Rightarrow> bool" where
  "date_matches year month day val \<longleftrightarrow>
     occurs_in (year @ ''-'' @ month @ ''-'' @ day) val \<or>
     occurs_in (day @ ''/'' @ month @ ''/'' @ year) val \<or>
     occurs_in (day @ ''.'' @ month @ ''.'' @ year) val \<or>
     occurs_in (month @ ''/'' @ day @ ''/'' @ year) val"

definition time_keys :: "string list" where
  "time_keys = [''time'', ''at'', ''date'', ''timestamp'', ''ts'', ''issued'', ''settled'']"

definition path_score :: "string \<Rightarrow> nat \<times> nat" where
  "path_score p =
     (let last_key = lower (rev (takeWhile (\<lambda>c. c \<noteq> CHR ''.'') (rev p))) in
      (if list_ex (\<lambda>k. occurs_in k last_key) time_keys then 0 else 1, length p))"

definition find_timestamp_path :: "json \<Rightarrow> string \<Rightarrow> string option" where
  "find_timestamp_path payload ts_value = (case match_date ts_value of
       None \<Rightarrow> None
     | Some (year, month, day) \<Rightarrow>
         first_of (sort_key path_score (map fst (filter (\<lambda>(p, v). case v of
           JStr s \<Rightarrow> looks_like_timestamp year s \<and> date_matches year month day s
         | _ \<Rightarrow> False) (leaf_paths payload ''$'')))))"

text \<open>The placeholders of the parts, or \<open>None\<close> when some part is blank or not in the payload.\<close>

fun part_paths :: "externals \<Rightarrow> json \<Rightarrow> string list \<Rightarrow> string list option" where
  "part_paths X payload [] = Some []"
| "part_paths X payload (part # parts) =
     (if strip part = [] then None
      else (case find_value_path X payload (JStr (strip part)) of
          None \<Rightarrow> None
        | Some path \<Rightarrow>
            map_option (\<lambda>ps. (''{'' @ drop 2 path @ ''}'') # ps) (part_paths X payload parts)))"

fun composite_for :: "externals \<Rightarrow> json \<Rightarrow> string \<Rightarrow> char list \<Rightarrow> string option" where
  "composite_for X payload composite [] = None"
| "composite_for X payload composite (sep # seps) =
     (if sep \<notin> set composite then composite_for X payload composite seps
      else
        let parts = split_on sep composite in
        if length parts < 2 \<or> length parts > 4 then composite_for X payload composite seps
        else (case part_paths X payload parts of
            Some ps \<Rightarrow> if ps \<noteq> [] then Some (join [sep] ps) else composite_for X payload composite seps
          | None \<Rightarrow> composite_for X payload composite seps))"

definition infer_composite_template :: "externals \<Rightarrow> json \<Rightarrow> string \<Rightarrow> string option" where
  "infer_composite_template X payload composite =
     composite_for X payload composite [CHR '':'', CHR ''-'', CHR ''_'', CHR ''/'']"

section \<open>Inferring a schema document\<close>

definition set_field :: "string \<Rightarrow> json \<Rightarrow> jobject \<Rightarrow> jobject" where
  "set_field k v flds = AList.update k v flds"

definition map_field :: "externals \<Rightarrow> json \<Rightarrow> string \<Rightarrow> json \<Rightarrow> jobject \<Rightarrow> jobject" where
  "map_field X payload key value flds =
     (if value = JNull then flds
      else (case find_value_path X payload value of
          Some path \<Rightarrow> set_field key (JStr path) flds
        | None \<Rightarrow>
            (case value of
               JStr s \<Rightarrow>
                 (case (if key = ''entity_external_id'' then infer_composite_template X payload s else None) of
                    Some t \<Rightarrow> set_field key (JObj [(''template'', JStr t)]) flds
                  | None \<Rightarrow>
                      if key = ''event_timestamp'' \<or> key = ''due_at'' then
                        (case find_timestamp_path payload s of
                           Some path \<Rightarrow> set_field key (JStr path) flds
                         | None \<Rightarrow> flds)
                      else flds)
             | _ \<Rightarrow> flds)))"

definition map_raw_event_type :: "externals \<Rightarrow> json \<Rightarrow> json \<Rightarrow> jobject \<Rightarrow> jobject" where
  "map_raw_event_type X payload raw_value flds =
     (if raw_value = JNull then flds
      else (case find_value_path X payload raw_value of
          Some path \<Rightarrow> set_field ''event_type'' (JStr path) flds
        | None \<Rightarrow> flds))"

text \<open>The paths of the values of a dictionary, for the labels whose value is in the payload.\<close>

fun mapped_items :: "externals \<Rightarrow> json \<Rightarrow> jobject \<Rightarrow> jobject" where
  "mapped_items X payload [] = []"
| "mapped_items X payload ((k, v) # items) =
     (case find_value_path X payload v of
        Some path \<Rightarrow> (k, JStr path) # mapped_items X payload items
      | None \<Rightarrow> mapped_items X payload items)"

definition map_dict :: "externals \<Rightarrow> json \<Rightarrow> string \<Rightarrow> json \<Rightarrow> jobject \<Rightarrow> jobject" where
  "map_dict X payload key refs flds = (case refs of
       JObj items \<Rightarrow>
         (let mapped = mapped_items X payload items in
          if mapped \<noteq> [] then set_field key (JObj mapped) flds else flds)
     | _ \<Rightarrow> flds)"

definition map_location :: "externals \<Rightarrow> json \<Rightarrow> json \<Rightarrow> jobject \<Rightarrow> jobject" where
  "map_location X payload location flds = (case location of
       JObj kvs \<Rightarrow>
         map_dict X payload ''location''
           (JObj (map (\<lambda>k. (k, jget kvs k)) [''code'', ''name'', ''latitude'', ''longitude''])) flds
     | _ \<Rightarrow> flds)"

definition map_amount :: "json \<Rightarrow> json \<Rightarrow> jobject \<Rightarrow> jobject result" where
  "map_amount payload amount flds = (case amount of
       JObj (kv # kvs) \<Rightarrow>
         bindE (find_money_path payload (case map_of (kv # kvs) ''currency'' of
                  None \<Rightarrow> JStr [] | Some c \<Rightarrow> c)) (\<lambda>found.
         Inr (case found of Some path \<Rightarrow> set_field ''amount'' (JStr path) flds | None \<Rightarrow> flds))
     | _ \<Rightarrow> Inr flds)"

definition infer_schema_doc ::
  "externals \<Rightarrow> json \<Rightarrow> jobject \<Rightarrow> json \<Rightarrow> jobject option result" where
  "infer_schema_doc X payload out cls =
     (let common = (\<lambda>raw_key.
            map_raw_event_type X payload (jget out raw_key)
              (map_field X payload ''event_timestamp'' (jget out ''event_timestamp'')
                (map_field X payload ''entity_external_id'' (jget out ''entity_external_id'') [])));
          finish = (\<lambda>flds.
            if cls \<noteq> JStr ''unclassified'' \<and>
               (map_of flds ''entity_external_id'' = None \<or> map_of flds ''event_timestamp'' = None)
            then None else Some [(''classification'', cls), (''fields'', JObj flds)]) in
      if cls = JStr ''shipment'' then
        let flds = common ''raw_milestone'';
            flds = set_field ''raw_milestone'' (jget flds ''event_type'') flds;
            flds = map_location X payload (jget out ''location'') flds in
        Inr (finish (map_dict X payload ''reference_ids'' (jget out ''reference_ids'') flds))
      else if cls = JStr ''invoice'' then
        let flds = common ''raw_kind'';
            flds = set_field ''raw_kind'' (jget flds ''event_type'') flds in
        bindE (map_amount payload (jget out ''amount'') flds) (\<lambda>flds.
        let flds = map_field X payload ''due_at'' (jget out ''due_at'') flds in
        Inr (finish (map_dict X payload ''linked_references'' (jget out ''linked_references'') flds)))
      else if cls = JStr ''unclassified'' then
        Inr (finish (map_field X payload ''reason'' (jget out ''reason'')
          (map_field X payload ''summary'' (jget out ''summary'') [])))
      else Inr None)"

section \<open>Validating it\<close>

definition find_raw_event_type :: "json \<Rightarrow> jobject \<Rightarrow> json result" where
  "find_raw_event_type payload doc =
     bindE (schema_fields doc) (\<lambda>flds.
     case jget flds ''event_type'' of JStr p \<Rightarrow> resolve_path payload (JStr p) | _ \<Rightarrow> Inr JNull)"

text \<open>\<open>expected_ext_id\<close> against the extracted id: equal, or one contained in the other.\<close>

definition id_agrees :: "json \<Rightarrow> string \<Rightarrow> bool result" where
  "id_agrees expected ext =
     (if \<not> truthy expected then Inr True
      else (case expected of
          JStr e \<Rightarrow> Inr (ext = e \<or> occurs_in e ext \<or> occurs_in ext e)
        | _ \<Rightarrow> Inl TypeError))"

definition validate_schema ::
  "externals \<Rightarrow> json \<Rightarrow> string \<Rightarrow> string \<Rightarrow> jobject \<Rightarrow> jobject \<Rightarrow> bool result" where
  "validate_schema X payload eid vid doc out =
     (if jget doc ''classification'' = JStr ''unclassified'' then
        bindE (extract_event X payload eid vid doc None None) (\<lambda>r. Inr (ex_success r))
      else
        let event_type = jget out ''event_type'' in
        if \<not> truthy event_type then Inr False
        else
          bindE (extract_event X payload eid vid doc (Some (pstr X event_type)) None) (\<lambda>r.
          if \<not> ex_success r then Inr False
          else (case ex_canonical_event r of
              Some (Shipment s) \<Rightarrow> id_agrees (jget out ''entity_external_id'') (sh_external_id s)
            | Some (Invoice i) \<Rightarrow> id_agrees (jget out ''entity_external_id'') (in_external_id i)
            | _ \<Rightarrow> Inr True)))"

section \<open>Storing it\<close>

definition persist_schema ::
  "db \<Rightarrow> string \<Rightarrow> string \<Rightarrow> jobject \<Rightarrow> string \<Rightarrow> db \<times> int result" where
  "persist_schema d vendor fp doc eid =
     (let k = (vendor, fp, 1);
          d1 = d\<lparr>next_schema_id := next_schema_id d + 1\<rparr>;
          written = (\<lambda>d2 i. if event_exists d eid then (d2, Inr i) else (d1, Inl ForeignKeyViolation)) in
      (case tbl_get (vendor_schemas d) k of
          None \<Rightarrow>
            written (d1\<lparr>vendor_schemas := tbl_insert k
               \<lparr>vs_id = next_schema_id d, vs_schema_doc = doc, vs_status = Provisional,
                vs_created_by = ''schema_discoverer'', vs_source_event_id = eid,
                vs_success_count = 0, vs_failure_count = 0\<rparr> (vendor_schemas d)\<rparr>) (next_schema_id d)
        | Some r \<Rightarrow>
            if vs_status r = Provisional then
              written (d1\<lparr>vendor_schemas := tbl_update k
                 (\<lambda>r. r\<lparr>vs_schema_doc := doc, vs_source_event_id := eid\<rparr>) (vendor_schemas d)\<rparr>) (vs_id r)
            else (d1, Inl TypeError)))"

definition persist_discovered_type :: "db \<Rightarrow> string \<Rightarrow> string \<Rightarrow> string \<Rightarrow> string \<Rightarrow> db" where
  "persist_discovered_type d vendor raw cls state =
     d\<lparr>vendor_event_type_map := tbl_insert (vendor, raw)
       \<lparr>tm_canonical_state = state, tm_classification = cls, tm_confidence = 85/100,
        tm_source = ''schema_discoverer'', tm_reviewed_by_human = False\<rparr> (vendor_event_type_map d)\<rparr>"

text \<open>The statements commit one by one: an exception leaves what was stored before it.\<close>

definition discover_and_persist ::
  "externals \<Rightarrow> db \<Rightarrow> string \<Rightarrow> json \<Rightarrow> jobject \<Rightarrow> string \<Rightarrow> db \<times> int option result" where
  "discover_and_persist X d vid payload out eid =
     (let cls = jget out ''classification'' in
      if \<not> truthy cls then (d, Inr None)
      else (case infer_schema_doc X payload out cls of
          Inl e \<Rightarrow> (d, Inl e)
        | Inr None \<Rightarrow> (d, Inr None)
        | Inr (Some doc) \<Rightarrow>
            (case validate_schema X payload eid vid doc out of
               Inl e \<Rightarrow> (d, Inl e)
             | Inr False \<Rightarrow> (d, Inr None)
             | Inr True \<Rightarrow>
                 (case persist_schema d vid (structural_fingerprint X payload []) doc eid of
                    (d1, Inl e) \<Rightarrow> (d1, Inl e)
                  | (d1, Inr schema_id) \<Rightarrow>
                      (case find_raw_event_type payload doc of
                         Inl e \<Rightarrow> (d1, Inl e)
                       | Inr raw \<Rightarrow>
                           let event_type = jget out ''event_type'' in
                           if truthy event_type \<and> truthy raw \<and> cls \<in> {JStr ''shipment'', JStr ''invoice''}
                           then (case event_type of
                               JStr state \<Rightarrow>
                                 (persist_discovered_type d1 vid (pstr X raw) (pstr X cls) state,
                                  Inr (Some schema_id))
                             | _ \<Rightarrow> (d1, Inl DataError))
                           else (d1, Inr (Some schema_id)))))))"

section \<open>Found paths resolve\<close>

text \<open>Payloads in which every position has a path: plain keys, none twice, and no array directly in
  an array.\<close>

fun addressable :: "json \<Rightarrow> bool" where
  "addressable (JObj kvs) =
     (distinct (map fst kvs) \<and> list_all (\<lambda>(k, v). plain_key k \<and> addressable v) kvs)"
| "addressable (JArr xs) =
     list_all (\<lambda>x. addressable x \<and> (case x of JArr _ \<Rightarrow> False | _ \<Rightarrow> True)) xs"
| "addressable v = True"

definition is_arr :: "json \<Rightarrow> bool" where
  "is_arr v \<longleftrightarrow> (case v of JArr _ \<Rightarrow> True | _ \<Rightarrow> False)"

lemma leaf_paths_steps:
  "addressable v \<Longrightarrow> (p, l) \<in> set (leaf_paths v path) \<Longrightarrow>
     \<exists>s. ok_steps s \<and> p = path @ render s \<and> get_steps v s = Some l \<and> (starts_idx s \<longrightarrow> is_arr v)"
  "list_all (\<lambda>x. addressable x \<and> \<not> is_arr x) xs \<Longrightarrow> (p, l) \<in> set (elem_paths i xs path) \<Longrightarrow>
     \<exists>j s. j < length xs \<and> ok_steps s \<and> \<not> starts_idx s \<and> p = path @ idx_text (i + j) @ render s \<and>
       get_steps (xs ! j) s = Some l"
proof (induction v path and i xs path arbitrary: p l and p l rule: leaf_paths_elem_paths.induct)
  case (1 kvs path)
  from 1(3) obtain k w where kw: "(k, w) \<in> set kvs" "(p, l) \<in> set (leaf_paths w (path @ ''.'' @ k))"
    by auto
  from 1(2) kw(1) have plain: "plain_key k" "addressable w" and get: "map_of kvs k = Some w"
    by (auto simp: list_all_iff)
  from 1(1) [OF kw(1) refl plain(2) kw(2)] obtain s where s: "ok_steps s"
      "p = (path @ ''.'' @ k) @ render s" "get_steps w s = Some l" by auto
  show ?case
    by (rule exI [of _ "Key k # s"]) (use s plain(1) get in simp)
next
  case (2 xs path)
  have "list_all (\<lambda>x. addressable x \<and> \<not> is_arr x) xs"
    using 2(2) by (auto simp: list_all_iff is_arr_def split: json.splits)
  moreover have "(p, l) \<in> set (elem_paths 0 xs path)" using 2(3) by simp
  ultimately obtain j s where "j < length xs" "ok_steps s" "\<not> starts_idx s"
      "p = path @ idx_text (0 + j) @ render s" "get_steps (xs ! j) s = Some l" using 2(1) by blast
  then show ?case by (intro exI [of _ "Idx j # s"]) (simp add: is_arr_def)
next
  case (5 i x xs path)
  show ?case
  proof (cases "(p, l) \<in> set (leaf_paths x (path @ ''['' @ nat_str i @ '']''))")
    case True
    with 5(1) 5(3) obtain s where "ok_steps s" "p = (path @ ''['' @ nat_str i @ '']'') @ render s"
        "get_steps x s = Some l" "\<not> starts_idx s" by auto
    then show ?thesis by (intro exI [of _ 0] exI [of _ s]) (simp add: idx_text_def)
  next
    case False
    have "list_all (\<lambda>x. addressable x \<and> \<not> is_arr x) xs" "(p, l) \<in> set (elem_paths (i + 1) xs path)"
      using False 5(3,4) by simp_all
    with 5(2) obtain j s where "j < length xs" "ok_steps s" "\<not> starts_idx s"
        "p = path @ idx_text (i + 1 + j) @ render s" "get_steps (xs ! j) s = Some l" by blast
    then show ?thesis by (intro exI [of _ "Suc j"] exI [of _ s]) simp
  qed
qed (auto intro: exI [of _ "[]"])

lemma leaf_paths_resolve:
  assumes "addressable payload" "(p, v) \<in> set (leaf_paths payload ''$'')"
  shows "resolve_path payload (JStr p) = Inr v"
proof -
  from leaf_paths_steps(1) [OF assms] obtain s where s: "ok_steps s" "p = ''$'' @ render s"
      "get_steps payload s = Some v" by auto
  then show ?thesis
    using parse_path_render [OF s(1)] walk_segments [OF s(1), of payload]
    by (simp add: resolve_path_def)
qed

lemma first_of_sorted:
  assumes "first_of (sort_key f xs) = Some x"
  shows "x \<in> set xs" "\<forall>y \<in> set xs. f x \<le> f y"
proof -
  from assms obtain ys where ys: "sort_key f xs = x # ys"
    by (auto simp: first_of_def split: list.splits)
  then have "set (x # ys) = set xs" by (metis set_sort)
  moreover have "sorted (map f (x # ys))" using ys by (metis sorted_sort_key)
  ultimately show "x \<in> set xs" "\<forall>y \<in> set xs. f x \<le> f y" by auto
qed

lemma find_value_path_sound:
  assumes "find_value_path X payload value = Some p"
  shows "\<exists>v. (p, v) \<in> set (leaf_paths payload ''$'') \<and> v \<noteq> JNull \<and>
     strip (pstr X v) = strip (pstr X value)"
  using assms first_of_sorted(1)
  by (fastforce simp: find_value_path_def Let_def split: if_splits)

text \<open>C37: in an addressable payload a discovered path finds its value again.  When no key of the payload is
  empty, is \<open>$\<close>, occurs twice in its object or contains a dot or a bracket, no array lies directly in an array, and the discoverer writes down
  a path for an extracted value, the extractor resolves that path to a leaf of the
  payload whose text is the extracted one up to surrounding white space, and no leaf with that
  text has a shorter path.\<close>

theorem discovered_path_resolves_to_value:
  assumes "addressable payload" "find_value_path X payload value = Some p"
  shows "\<exists>v. resolve_path payload (JStr p) = Inr v \<and> v \<noteq> JNull \<and>
     strip (pstr X v) = strip (pstr X value) \<and>
     (\<forall>q w. (q, w) \<notin> set (leaf_paths payload ''$'') \<or> w = JNull \<or>
        strip (pstr X w) \<noteq> strip (pstr X value) \<or> length p \<le> length q)"
proof -
  from find_value_path_sound [OF assms(2)] obtain v where v:
    "(p, v) \<in> set (leaf_paths payload ''$'')" "v \<noteq> JNull" "strip (pstr X v) = strip (pstr X value)" by blast
  have "length p \<le> length q"
    if "(q, w) \<in> set (leaf_paths payload ''$'')" "w \<noteq> JNull" "strip (pstr X w) = strip (pstr X value)"
    for q w
    using assms(2) that first_of_sorted(2)
    by (fastforce simp: find_value_path_def Let_def split: if_splits)
  with v leaf_paths_resolve [OF assms(1) v(1)] show ?thesis by blast
qed

lemma discovered_path_resolves_to_value_witness:
  "\<exists>v. resolve_path sample_payload (JStr ''$.transport_doc.parts[0]'') = Inr v \<and>
     strip (pstr sample_X v) = ''3''"
proof -
  have "find_value_path sample_X sample_payload (JStr '' 3'') = Some ''$.transport_doc.parts[0]''"
    by code_simp
  moreover have "addressable sample_payload" by code_simp
  moreover have "strip (pstr sample_X (JStr '' 3'')) = ''3''" by code_simp
  ultimately show ?thesis using discovered_path_resolves_to_value by metis
qed

text \<open>The discoverer offers paths it cannot follow.  For a value directly inside an array inside
  an array it finds a path with two indices in a row, and the extractor resolves that path to
  nothing, so the stored schema misses the field.\<close>

lemma nested_array_path_is_lost:
  "find_value_path X (JObj [(''a'', JArr [JArr [JStr ''v'']])]) (JStr ''v'') = Some ''$.a[0][0]'' \<and>
   resolve_path (JObj [(''a'', JArr [JArr [JStr ''v'']])]) (JStr ''$.a[0][0]'') = Inr JNull"
proof
  have "nat_str 0 = ''0''" by code_simp
  then show "find_value_path X (JObj [(''a'', JArr [JArr [JStr ''v'']])]) (JStr ''v'') = Some ''$.a[0][0]''"
    by (simp add: find_value_path_def first_of_def)
  show "resolve_path (JObj [(''a'', JArr [JArr [JStr ''v'']])]) (JStr ''$.a[0][0]'') = Inr JNull"
    by code_simp
qed

section \<open>Learning\<close>

lemma persist_schema_get:
  assumes "persist_schema d vendor fp doc eid = (d1, Inr i)"
  shows "\<exists>r. tbl_get (vendor_schemas d1) (vendor, fp, 1) = Some r \<and> vs_schema_doc r = doc \<and>
      vs_status r = Provisional \<and> vs_id r = i"
    and "k \<noteq> (vendor, fp, 1) \<Longrightarrow> tbl_get (vendor_schemas d1) k = tbl_get (vendor_schemas d) k"
    and "raw_events d1 = raw_events d" "vendor_event_type_map d1 = vendor_event_type_map d"
  using assms
  by (auto simp: persist_schema_def Let_def table_simps split: option.split_asm if_split_asm)

lemma discover_Some:
  assumes "discover_and_persist X d vid payload out eid = (d', Inr (Some i))"
  obtains doc d1 where "infer_schema_doc X payload out (jget out ''classification'') = Inr (Some doc)"
    "validate_schema X payload eid vid doc out = Inr True"
    "persist_schema d vid (structural_fingerprint X payload []) doc eid = (d1, Inr i)"
    "vendor_schemas d' = vendor_schemas d1" "raw_events d' = raw_events d"
proof -
  let ?cls = "jget out ''classification''" and ?fp = "structural_fingerprint X payload []"
  from assms obtain doc where doc: "infer_schema_doc X payload out ?cls = Inr (Some doc)"
    by (auto simp: discover_and_persist_def Let_def
        split: if_split_asm sum.split_asm option.split_asm)
  from assms doc have val: "validate_schema X payload eid vid doc out = Inr True"
    by (auto simp: discover_and_persist_def Let_def split: if_split_asm sum.split_asm bool.split_asm)
  obtain d1 r where p: "persist_schema d vid ?fp doc eid = (d1, r)" by (cases "persist_schema d vid ?fp doc eid")
  from assms doc val p obtain j where j: "r = Inr j"
    by (cases r) (auto simp: discover_and_persist_def Let_def split: if_split_asm)
  from assms doc val p j have "j = i \<and> vendor_schemas d' = vendor_schemas d1 \<and> raw_events d' = raw_events d1"
    by (auto simp: discover_and_persist_def Let_def persist_discovered_type_def
        split: if_split_asm sum.split_asm json.split_asm)
  with doc val p j persist_schema_get(3) [of d vid ?fp doc eid d1 i] that show ?thesis by auto
qed

lemma persist_schema_ok:
  assumes "schemas_ok d" "persist_schema d vendor fp doc eid = (d1, x)"
  shows "schemas_ok d1"
proof -
  let ?k = "(vendor, fp, 1 :: int)"
  let ?d1 = "d\<lparr>next_schema_id := next_schema_id d + 1\<rparr>"
  let ?row = "\<lparr>vs_id = next_schema_id d, vs_schema_doc = doc, vs_status = Provisional,
      vs_created_by = ''schema_discoverer'', vs_source_event_id = eid,
      vs_success_count = 0, vs_failure_count = 0\<rparr>"
  let ?f = "\<lambda>r. r\<lparr>vs_schema_doc := doc, vs_source_event_id := eid\<rparr>"
  have skip: "schemas_ok ?d1" using assms(1) by (fastforce simp: schemas_ok_def)
  have ins: "schemas_ok (?d1\<lparr>vendor_schemas := tbl_insert ?k ?row (vendor_schemas d)\<rparr>)"
    if "tbl_get (vendor_schemas d) ?k = None"
  proof -
    have "next_schema_id d \<notin> (\<lambda>(k, r). vs_id r) ` set (vendor_schemas d)"
      using assms(1) by (fastforce simp: schemas_ok_def)
    with skip that assms(1) show ?thesis
      by (auto simp: schemas_ok_def tbl_insert_def tbl_get_None_iff)
  qed
  have upd: "schemas_ok (?d1\<lparr>vendor_schemas := tbl_update ?k ?f (vendor_schemas d)\<rparr>)"
  proof -
    have "map (\<lambda>(k, r). vs_id r) (tbl_update ?k ?f t) = map (\<lambda>(k, r). vs_id r) t"
      for t :: "((string \<times> string \<times> int) \<times> vendor_schema_row) list"
      by (auto simp: tbl_update_def)
    moreover have "\<forall>((v, f, n), r) \<in> set (tbl_update ?k ?f (vendor_schemas d)). n = 1 \<and> vs_id r < next_schema_id d + 1"
      using assms(1) by (fastforce simp: schemas_ok_def tbl_update_def)
    ultimately show ?thesis using skip by (simp add: schemas_ok_def)
  qed
  show ?thesis
    using assms(2) skip ins upd
    by (auto simp: persist_schema_def Let_def split: option.split_asm if_split_asm)
qed

lemma discover_schemas_ok:
  assumes "schemas_ok d" "discover_and_persist X d vid payload out eid = (d', x)"
  shows "schemas_ok d'"
proof -
  have keep: "schemas_ok (persist_discovered_type e v raw cls st) = schemas_ok e" for e v raw cls st
    by (simp add: persist_discovered_type_def schemas_ok_def)
  show ?thesis
    using assms persist_schema_ok [OF assms(1)]
    by (auto simp: discover_and_persist_def Let_def keep
        split: if_split_asm sum.split_asm option.split_asm bool.split_asm prod.split_asm json.split_asm)
qed

lemma validate_schema_extracts:
  assumes "validate_schema X payload eid vid doc out = Inr True"
  shows "\<exists>state r. extract_event X payload eid vid doc state None = Inr r \<and> ex_success r"
  using assms
  by (auto simp: validate_schema_def Let_def bindE_eq_Inr split: if_split_asm)

text \<open>C36: a shape is learned once.  When discovery reports a schema id for a payload, the registry
  returns that schema for every later payload of the same shape from the same vendor, and the
  stored document has already extracted an event from the payload it was learned from.\<close>

theorem learned_schema_is_used:
  assumes "schemas_ok d" "discover_and_persist X d vid payload out eid = (d', Inr (Some i))"
    and "same_shape payload payload'"
  shows "\<exists>m. lookup_schema X d' vid payload' = Some m \<and> sm_schema_id m = i \<and>
     (\<exists>state r. extract_event X payload eid vid (sm_schema_doc m) state None = Inr r \<and> ex_success r)"
proof -
  let ?fp = "structural_fingerprint X payload []"
  from discover_Some [OF assms(2)] obtain doc d1
    where val: "validate_schema X payload eid vid doc out = Inr True"
      and p: "persist_schema d vid ?fp doc eid = (d1, Inr i)"
      and v: "vendor_schemas d' = vendor_schemas d1" by metis
  have "structural_paths payload [] = structural_paths payload' []"
    using same_shape_walk [OF assms(3)] by (simp add: structural_paths_eq)
  then have fp: "structural_fingerprint X payload' [] = ?fp" by (simp add: structural_fingerprint_def)
  from persist_schema_get(1) [OF p] obtain r where r: "tbl_get (vendor_schemas d') (vid, ?fp, 1) = Some r"
      "vs_schema_doc r = doc" "vs_status r = Provisional" "vs_id r = i" by (auto simp: v)
  have "lookup_schema X d' vid payload' = Some \<lparr>sm_schema_id = vs_id r, sm_vendor_id = vid,
      sm_schema_doc = vs_schema_doc r, sm_schema_version = 1, sm_status = vs_status r\<rparr>"
    by (rule lookup_schema_unique [OF discover_schemas_ok [OF assms(1,2)]]) (use r fp in simp_all)
  with r validate_schema_extracts [OF val] show ?thesis by auto
qed

text \<open>What an LLM answers for the sample payload.\<close>

lemma sample_discovery:
  "discover_and_persist sample_X sample_db ''maersk'' sample_payload sample_answer ''e1'' =
     (fst (discover_and_persist sample_X sample_db ''maersk'' sample_payload sample_answer ''e1''), Inr (Some 1))"
proof -
  have "snd (discover_and_persist sample_X sample_db ''maersk'' sample_payload sample_answer ''e1'') = Inr (Some 1)"
    by code_simp
  then show ?thesis by (metis prod.collapse)
qed

lemma sample_db_schemas_ok: "schemas_ok sample_db"
  by code_simp

lemma learned_schema_is_used_witness:
  "map_option sm_schema_id (lookup_schema sample_X
     (fst (discover_and_persist sample_X sample_db ''maersk'' sample_payload sample_answer ''e1''))
     ''maersk'' sample_payload) = Some 1"
  using learned_schema_is_used [OF sample_db_schemas_ok sample_discovery same_shape_refl] by auto

text \<open>A failed discovery stores nothing.  When \<open>discover_and_persist\<close> returns \<open>None\<close>, because
  there is no classification, the required fields were not found or the validation run failed, the
  database is unchanged.\<close>

lemma failed_discovery_stores_nothing:
  assumes "discover_and_persist X d vid payload out eid = (d', Inr None)"
  shows "d' = d"
  using assms
  by (auto simp: discover_and_persist_def Let_def
      split: if_split_asm sum.split_asm option.split_asm bool.split_asm prod.split_asm json.split_asm)

lemma failed_discovery_stores_nothing_witness:
  "fst (discover_and_persist sample_X sample_db ''maersk'' (JObj []) sample_answer ''e1'') = sample_db"
proof -
  have "snd (discover_and_persist sample_X sample_db ''maersk'' (JObj []) sample_answer ''e1'') = Inr None"
    by code_simp
  then have "discover_and_persist sample_X sample_db ''maersk'' (JObj []) sample_answer ''e1'' =
      (fst (discover_and_persist sample_X sample_db ''maersk'' (JObj []) sample_answer ''e1''), Inr None)"
    by (metis prod.collapse)
  then show ?thesis by (rule failed_discovery_stores_nothing)
qed

text \<open>A retired shape is never learned again.  Once the schema of a vendor and shape has been
  promoted or deprecated, discovery for that shape never stores a schema: the upsert returns no row
  and the code fails on it with \<open>TypeError\<close>.  For a deprecated schema, which the registry no longer
  returns, every later event of the shape therefore goes to the LLM.\<close>

lemma retired_shape_is_never_relearned:
  assumes "tbl_get (vendor_schemas d) (vid, structural_fingerprint X payload [], 1) = Some r"
    "vs_status r \<noteq> Provisional"
    and "discover_and_persist X d vid payload out eid = (d', x)"
  shows "(x = Inr None \<or> (\<exists>e. x = Inl e)) \<and> vendor_schemas d' = vendor_schemas d \<and>
     vendor_event_type_map d' = vendor_event_type_map d"
proof -
  have p: "persist_schema d vid (structural_fingerprint X payload []) doc eid =
      (d\<lparr>next_schema_id := next_schema_id d + 1\<rparr>, Inl TypeError)" for doc
    using assms(1,2) by (simp add: persist_schema_def Let_def)
  show ?thesis
    using assms(3)
    by (auto simp: discover_and_persist_def Let_def p
        split: if_split_asm sum.split_asm option.split_asm bool.split_asm)
qed

definition retired_db :: db where
  "retired_db = sample_db\<lparr>vendor_schemas :=
     [((''maersk'', structural_fingerprint sample_X sample_payload [], 1),
       \<lparr>vs_id = 1, vs_schema_doc = [], vs_status = Deprecated, vs_created_by = ''ops'',
        vs_source_event_id = ''e1'', vs_success_count = 0, vs_failure_count = 9\<rparr>)]\<rparr>"

lemma retired_shape_is_never_relearned_witness:
  "vendor_schemas (fst (discover_and_persist sample_X retired_db ''maersk'' sample_payload sample_answer ''e1'')) =
     vendor_schemas retired_db"
proof -
  obtain d' x where run: "discover_and_persist sample_X retired_db ''maersk'' sample_payload sample_answer ''e1'' = (d', x)"
    by (metis surj_pair)
  have "vendor_schemas d' = vendor_schemas retired_db"
    using retired_shape_is_never_relearned [OF _ _ run]
    by (simp add: retired_db_def tbl_get_Cons)
  with run show ?thesis by simp
qed

end
