(* ===== verification/Pipeline.thy ===== *)
theory Pipeline
  imports LLMUniversal SchemaDiscoverer
begin

text \<open>
  \<open>app/workers/pipeline.py\<close> and \<open>app/workers/processor.py\<close>: what the worker does with one event
  id.  Statements outside a transaction commit one by one, so every function that runs several of
  them returns the world it leaves behind together with its result, an exception included; a
  transaction that raises leaves the database as it found it.  Log lines, timings and the
  \<open>detail\<close> that is only logged are left out; the counters are in \<open>Metrics\<close>.
\<close>

text \<open>Sequencing of steps on a state: an exception stops, what was done stays.\<close>

definition andthen ::
  "'a result \<times> 's \<Rightarrow> ('a \<Rightarrow> 's \<Rightarrow> 'b result \<times> 's) \<Rightarrow> 'b result \<times> 's" where
  "andthen m f = (case m of (Inl e, w) \<Rightarrow> (Inl e, w) | (Inr x, w) \<Rightarrow> f x w)"

text \<open>A statement, or a transaction, on the database.\<close>

definition on_db :: "(db \<Rightarrow> db result) \<Rightarrow> world \<Rightarrow> unit result \<times> world" where
  "on_db stmt w = (case stmt (wdb w) of
       Inl e \<Rightarrow> (Inl e, w) | Inr d \<Rightarrow> (Inr (), w\<lparr>wdb := d\<rparr>))"

datatype process_outcome = NotFound | RequiresReview | PendingLLM | Applied ApplyOutcome

section \<open>Status of a raw event\<close>

definition set_raw :: "string \<Rightarrow> (raw_row \<Rightarrow> raw_row) \<Rightarrow> db \<Rightarrow> db" where
  "set_raw eid f d = d\<lparr>raw_events := tbl_update eid f (raw_events d)\<rparr>"

definition mark_status :: "string \<Rightarrow> processing_status \<Rightarrow> string option \<Rightarrow> db \<Rightarrow> db" where
  "mark_status eid st err d =
     set_raw eid (\<lambda>r. r\<lparr>rw_status := st, rw_error := err, rw_processed_at := Some (clock d)\<rparr>) d"

definition mark_review :: "string \<Rightarrow> string \<Rightarrow> jobject \<Rightarrow> db \<Rightarrow> db result" where
  "mark_review eid reason detail d =
     (if \<not> event_exists d eid then Inl ForeignKeyViolation
      else Inr (mark_status eid Review (Some reason)
        (d\<lparr>requires_human_review := tbl_insert eid
             \<lparr>hr_reason = reason, hr_detail = detail, hr_captured_at = clock d\<rparr>
             (requires_human_review d)\<rparr>)))"

definition mark_pending_llm :: "string \<Rightarrow> string \<Rightarrow> db \<Rightarrow> db" where
  "mark_pending_llm eid reason d = mark_status eid PendingLlm (Some reason) d"

text \<open>As all statements, it reaches the database here; a lost connection is an exception that nobody catches.\<close>

definition mark_failed :: "string \<Rightarrow> string \<Rightarrow> db \<Rightarrow> db" where
  "mark_failed eid error d = mark_status eid Failed (Some (take 500 error)) d"

section \<open>Applying an event\<close>

definition upsert_canonical_event :: "CanonicalEvent \<Rightarrow> db \<Rightarrow> db result" where
  "upsert_canonical_event canonical d =
     (if \<not> (0 \<le> confidence canonical \<and> confidence canonical \<le> 1) then Inl CheckViolation
      else if \<not> event_exists d (event_id canonical) then Inl ForeignKeyViolation
      else
        let row = \<lparr>cn_event = canonical, cn_normalized_at = clock d\<rparr> in
        Inr (d\<lparr>canonical_events :=
          tbl_update (event_id canonical) (\<lambda>_. row)
            (tbl_insert (event_id canonical) row (canonical_events d))\<rparr>))"

text \<open>The transaction at the end of \<open>_finalize\<close>.\<close>

definition apply_canonical :: "string \<Rightarrow> CanonicalEvent \<Rightarrow> db \<Rightarrow> (db \<times> ApplyOutcome) result" where
  "apply_canonical eid canonical d =
     bindE (upsert_canonical_event canonical d) (\<lambda>d1.
     bindE (apply_event d1 canonical) (\<lambda>(d2, outcome).
     Inr (set_raw eid (\<lambda>r. r\<lparr>rw_vendor_id := coalesce (rw_vendor_id r) (Some (vendor_id canonical)),
            rw_status := Processed, rw_error := None, rw_processed_at := Some (clock d2)\<rparr>) d2,
          outcome)))"

definition override_vendor :: "string \<Rightarrow> CanonicalEvent \<Rightarrow> CanonicalEvent" where
  "override_vendor vid canonical =
     (if vid \<noteq> [] \<and> vid \<noteq> ''unknown'' \<and> vendor_id canonical \<noteq> vid
      then with_vendor_id vid canonical else canonical)"

definition finalize ::
  "externals \<Rightarrow> string \<Rightarrow> string \<Rightarrow> CanonicalEvent \<Rightarrow> world \<Rightarrow> process_outcome result \<times> world" where
  "finalize X eid vid canonical w =
     (case normalize (override_vendor vid canonical) of
        Inl e \<Rightarrow>
          if e = NormalizationError
          then andthen (on_db (mark_review eid ''normalization_failed''
                  [(''error'', JStr (x_exn_text X e))]) w) (\<lambda>_ w. (Inr RequiresReview, w))
          else (Inl e, w)
      | Inr canonical' \<Rightarrow>
          (case apply_canonical eid canonical' (wdb w) of
             Inl e \<Rightarrow> (Inl e, w)
           | Inr (d, outcome) \<Rightarrow> (Inr (Applied outcome), w\<lparr>wdb := d\<rparr>)))"

section \<open>Path A\<close>

text \<open>A text parameter of a statement: asyncpg refuses a value that is not a string.\<close>

definition text_param :: "json \<Rightarrow> string result" where
  "text_param v = (case v of JStr s \<Rightarrow> Inr s | _ \<Rightarrow> Inl DataError)"

definition classify_and_persist ::
  "externals \<Rightarrow> fallback \<Rightarrow> string \<Rightarrow> string \<Rightarrow> world \<Rightarrow> (string \<times> string) option result \<times> world" where
  "classify_and_persist X F vid raw w =
     andthen (classify_event_type X F vid raw w) (\<lambda>found w1.
     case found of
       None \<Rightarrow> (Inr None, w1)
     | Some (cls, state, conf) \<Rightarrow>
         (case (text_param cls, text_param state) of
            (Inr c, Inr s) \<Rightarrow>
              andthen (on_db (\<lambda>d. persist_event_type d vid raw c s conf ''llm'') w1)
                (\<lambda>_ w2. (Inr (Some (c, s)), w2))
          | _ \<Rightarrow> (Inl DataError, w1)))"

definition resolve_event_type ::
  "externals \<Rightarrow> fallback \<Rightarrow> string \<Rightarrow> string \<Rightarrow> world \<Rightarrow> (string \<times> string) option result \<times> world" where
  "resolve_event_type X F vid raw w =
     (case lookup_event_type (wdb w) vid raw of
        Some m \<Rightarrow> (Inr (Some m), w)
      | None \<Rightarrow> classify_and_persist X F vid raw w)"

definition lift_result :: "'a result \<Rightarrow> world \<Rightarrow> 'a result \<times> world" where
  "lift_result r w = (r, w)"

definition process_via_schema ::
  "externals \<Rightarrow> fallback \<Rightarrow> string \<Rightarrow> string \<Rightarrow> json \<Rightarrow> SchemaMatch \<Rightarrow> world \<Rightarrow>
     CanonicalEvent option result \<times> world" where
  "process_via_schema X F eid vid payload m w =
     (let doc = sm_schema_doc m;
          success = (\<lambda>r. andthen (on_db (increment_success (sm_schema_id m)) r)) in
      andthen (lift_result (extract_event X payload eid vid doc None None) w) (\<lambda>first w.
      if jget doc ''classification'' = JStr ''unclassified'' \<and> ex_success first then
        success w (\<lambda>_ w. (Inr (ex_canonical_event first), w))
      else
        (case ex_raw_event_type first of
           None \<Rightarrow> (Inr None, w)
         | Some raw \<Rightarrow>
             if raw = [] then (Inr None, w)
             else
               andthen (resolve_event_type X F vid raw w) (\<lambda>mapping w.
               case mapping of
                 None \<Rightarrow> (Inr None, w)
               | Some (cls, state) \<Rightarrow>
                   andthen (lift_result (extract_event X payload eid vid doc (Some state) (Some cls)) w) (\<lambda>second w.
                   if \<not> ex_success second then (Inr None, w)
                   else success w (\<lambda>_ w. (Inr (ex_canonical_event second), w)))))))"

section \<open>Path B\<close>

text \<open>Discovery after a fresh answer; its exceptions are logged, what it stored stays.\<close>

definition discover_after ::
  "externals \<Rightarrow> string \<Rightarrow> string \<Rightarrow> json \<Rightarrow> AdapterResult \<Rightarrow> world \<Rightarrow> world" where
  "discover_after X eid vid payload r w =
     (case jget (ar_detail r) ''llm_output'' of
        JObj out \<Rightarrow>
          if out \<noteq> [] \<and> jget (ar_detail r) ''llm_source'' \<noteq> JStr ''llm_cache''
          then w\<lparr>wdb := fst (discover_and_persist X (wdb w) vid payload out eid)\<rparr>
          else w
      | _ \<Rightarrow> w)"

definition reason_of :: "string \<Rightarrow> jobject \<Rightarrow> string" where
  "reason_of dflt detail = (case map_of detail ''reason'' of Some (JStr s) \<Rightarrow> s | _ \<Rightarrow> dflt)"

definition process_via_llm ::
  "externals \<Rightarrow> fallback \<Rightarrow> string \<Rightarrow> string \<Rightarrow> json \<Rightarrow> world \<Rightarrow> process_outcome result \<times> world" where
  "process_via_llm X F eid vid payload w =
     andthen (normalize_llm X F payload eid vid w) (\<lambda>r w1.
     case (ar_status r, ar_canonical_event r) of
       (Ok, Some canonical) \<Rightarrow> finalize X eid vid canonical (discover_after X eid vid payload r w1)
     | (Deferred, _) \<Rightarrow>
         (Inr PendingLLM,
          w1\<lparr>wdb := mark_pending_llm eid (reason_of ''llm_deferred'' (ar_detail r)) (wdb w1)\<rparr>)
     | _ \<Rightarrow>
         andthen (on_db (mark_review eid (reason_of ''unsupported'' (ar_detail r)) (ar_detail r)) w1)
           (\<lambda>_ w2. (Inr RequiresReview, w2)))"

section \<open>One event\<close>

definition infer_vendor_id :: "externals \<Rightarrow> json \<Rightarrow> string result" where
  "infer_vendor_id X payload = (case payload of
       JObj kvs \<Rightarrow>
         let s = (\<lambda>k. pstr X (jget_or kvs k (JStr []))) in
         Inr (if upper (s ''carrier_scac'') = ''MAEU'' then ''maersk''
              else if upper (s ''carrier_scac'') = ''ONEY'' then ''ocean_network_express''
              else if occurs_in ''ocean network express'' (lower (s ''carrier'')) then ''ocean_network_express''
              else if lower (s ''source'') = ''globalfreightpay.api'' then ''globalfreightpay''
              else if lower (s ''issuer'') = ''marine-traffic-advisory'' then ''marine_traffic_advisory''
              else ''unknown'')
     | _ \<Rightarrow> Inl AttributeError)"

text \<open>\<open>row["vendor_id"] or _infer_vendor_id(payload, headers)\<close>.\<close>

definition event_vendor :: "externals \<Rightarrow> raw_row \<Rightarrow> string result" where
  "event_vendor X row = (case rw_vendor_id row of
       Some v \<Rightarrow> if v \<noteq> [] then Inr v else infer_vendor_id X (rw_payload row)
     | None \<Rightarrow> infer_vendor_id X (rw_payload row))"

definition process_known ::
  "externals \<Rightarrow> fallback \<Rightarrow> string \<Rightarrow> string \<Rightarrow> json \<Rightarrow> world \<Rightarrow> process_outcome result \<times> world" where
  "process_known X F eid vid payload w =
     (case lookup_schema X (wdb w) vid payload of
        None \<Rightarrow> process_via_llm X F eid vid payload w
      | Some m \<Rightarrow>
          andthen (process_via_schema X F eid vid payload m w) (\<lambda>r w.
          case r of
            Some canonical \<Rightarrow> finalize X eid vid canonical w
          | None \<Rightarrow>
              andthen (on_db (increment_failure (sm_schema_id m)) w) (\<lambda>_ w.
              process_via_llm X F eid vid payload w)))"

definition process_event ::
  "externals \<Rightarrow> fallback \<Rightarrow> string \<Rightarrow> world \<Rightarrow> process_outcome result \<times> world" where
  "process_event X F eid w =
     (case tbl_get (raw_events (wdb w)) eid of
        None \<Rightarrow> (Inr NotFound, w)
      | Some row \<Rightarrow>
          andthen (lift_result (event_vendor X row) w) (\<lambda>vid w.
          process_known X F eid vid (rw_payload row) w))"

text \<open>The job of \<open>processor.py\<close>: an exception marks the event and is raised again.\<close>

definition process_webhook ::
  "externals \<Rightarrow> fallback \<Rightarrow> string \<Rightarrow> world \<Rightarrow> process_outcome result \<times> world" where
  "process_webhook X F eid w =
     (case process_event X F eid w of
        (Inr outcome, w') \<Rightarrow> (Inr outcome, w')
      | (Inl e, w') \<Rightarrow> (Inl e, w'\<lparr>wdb := mark_failed eid (x_exn_text X e) (wdb w')\<rparr>))"

section \<open>Relations that hold along a run\<close>

text \<open>A relation between the state before and the state after, as a contract of the steps: if every
  step keeps it, so does a sequence.\<close>

locale step_relation =
  fixes rel :: "'s \<Rightarrow> 's \<Rightarrow> bool"
  assumes rel_refl: "rel w w"
    and rel_trans: "rel w v \<Longrightarrow> rel v u \<Longrightarrow> rel w u"
begin

definition keeps :: "'s \<Rightarrow> 'a result \<times> 's \<Rightarrow> bool" where
  "keeps w m \<longleftrightarrow> rel w (snd m)"

lemma keepsI: "rel w w' \<Longrightarrow> keeps w (r, w')"
  by (simp add: keeps_def)

lemma keeps_same: "keeps w (r, w)"
  by (simp add: keeps_def rel_refl)

lemma keeps_from: "rel w v \<Longrightarrow> keeps v m \<Longrightarrow> keeps w m"
  by (auto simp: keeps_def intro: rel_trans)

lemma keeps_andthen:
  assumes "keeps w m" "\<And>x v. m = (Inr x, v) \<Longrightarrow> keeps v (f x v)"
  shows "keeps w (andthen m f)"
proof (cases m)
  case (Pair r v)
  then show ?thesis
    using assms by (cases r) (auto simp: andthen_def keeps_def intro: rel_trans)
qed

lemma keeps_lift: "(\<And>x. r = Inr x \<Longrightarrow> keeps w (f x w)) \<Longrightarrow> keeps w (andthen (r, w) f)"
  by (cases r) (auto simp: andthen_def keeps_same)

lemma keeps_run: "keeps w m \<Longrightarrow> m = (r, w') \<Longrightarrow> rel w w'"
  by (simp add: keeps_def)

end

section \<open>What a worker keeps\<close>

text \<open>The part of a raw event that is never written again, and the tables of the projection.\<close>

definition raw_core :: "raw_row \<Rightarrow> int \<times> jobject \<times> json \<times> bool" where
  "raw_core r = (rw_received_at r, rw_headers r, rw_payload r, rw_signature_verified r)"

definition raw_log :: "db \<Rightarrow> (string \<times> int \<times> jobject \<times> json \<times> bool) list" where
  "raw_log d = map (\<lambda>(k, r). (k, raw_core r)) (raw_events d)"

definition worker_ok :: "db \<Rightarrow> bool" where
  "worker_ok d \<longleftrightarrow> db_ok d \<and> schemas_ok d \<and> cache_ok d"

text \<open>A step of the worker on one event: it writes no other raw event.\<close>

definition db_step :: "string \<Rightarrow> db \<Rightarrow> db \<Rightarrow> bool" where
  "db_step eid d d' \<longleftrightarrow> raw_log d' = raw_log d \<and> (worker_ok d \<longrightarrow> worker_ok d') \<and>
     (\<forall>e. e \<noteq> eid \<longrightarrow> tbl_get (raw_events d') e = tbl_get (raw_events d) e)"

lemma event_exists_log: "event_exists d e \<longleftrightarrow> e \<in> fst ` set (raw_log d)"
  by (force simp: event_exists_def raw_log_def tbl_get_None_iff)

definition projection_of where
  "projection_of d = (entities d, next_entity_id d, shipments d, invoices d, applied_events d, stale_event_log d)"

definition rest_of where
  "rest_of d = (clock d, raw_events d, canonical_events d, requires_human_review d, llm_cache d,
     llm_audit d, vendor_schemas d, next_schema_id d, vendor_event_type_map d)"

lemma db_ok_cong:
  assumes "projection_of d' = projection_of d" "raw_log d' = raw_log d"
  shows "db_ok d' = db_ok d"
proof -
  have ev: "event_exists d' = event_exists d" using assms(2) by (simp add: fun_eq_iff event_exists_log)
  have en: "entity_exists d' = entity_exists d"
    using assms(1) by (simp add: fun_eq_iff entity_exists_def projection_of_def)
  show ?thesis using assms(1) by (simp add: db_ok_defs ev en projection_of_def)
qed

lemma db_step_refl: "db_step eid d d"
  by (simp add: db_step_def)

lemma db_step_trans: "db_step eid d e \<Longrightarrow> db_step eid e f \<Longrightarrow> db_step eid d f"
  by (simp add: db_step_def)

interpretation steps: step_relation "\<lambda>w v. db_step eid (wdb w) (wdb v)" for eid
  by unfold_locales (auto intro: db_step_refl db_step_trans)

text \<open>A step that changes neither the projection nor the learned schemas nor the cache.\<close>

lemma db_step_frame:
  assumes "projection_of d' = projection_of d" "raw_events d' = raw_events d"
    and "schemas_ok d \<Longrightarrow> schemas_ok d'" "cache_ok d \<Longrightarrow> cache_ok d'"
  shows "db_step eid d d'"
proof -
  have log: "raw_log d' = raw_log d" using assms(2) by (simp add: raw_log_def)
  with assms db_ok_cong [OF assms(1) log] show ?thesis by (simp add: db_step_def worker_ok_def)
qed

lemma schemas_ok_cong:
  "vendor_schemas d' = vendor_schemas d \<Longrightarrow> next_schema_id d' = next_schema_id d \<Longrightarrow> schemas_ok d' = schemas_ok d"
  by (simp add: schemas_ok_def)

lemma cache_ok_cong: "llm_cache d' = llm_cache d \<Longrightarrow> cache_ok d' = cache_ok d"
  by (simp add: cache_ok_def)

lemmas db_frame_defs = projection_of_def raw_log_def schemas_ok_def cache_ok_def

lemma raw_log_set_raw:
  assumes "\<And>r. raw_core (f r) = raw_core r"
  shows "raw_log (set_raw eid f d) = raw_log d"
  using assms by (auto simp: raw_log_def set_raw_def tbl_update_def)

lemma db_step_set_raw:
  assumes "\<And>r. raw_core (f r) = raw_core r"
  shows "db_step eid d (set_raw eid f d)"
proof -
  have log: "raw_log (set_raw eid f d) = raw_log d" using assms by (rule raw_log_set_raw)
  have "projection_of (set_raw eid f d) = projection_of d" by (simp add: set_raw_def projection_of_def)
  from db_ok_cong [OF this log] log show ?thesis
    by (simp add: db_step_def worker_ok_def set_raw_def schemas_ok_def cache_ok_def tbl.get_upd_other)
qed

lemma db_step_mark_status: "db_step eid d (mark_status eid st err d)"
  unfolding mark_status_def by (rule db_step_set_raw) (simp add: raw_core_def)

lemma db_step_mark_review: "mark_review eid reason detail d = Inr d' \<Longrightarrow> db_step eid d d'"
proof -
  assume "mark_review eid reason detail d = Inr d'"
  then obtain t where d': "d' = mark_status eid Review (Some reason) (d\<lparr>requires_human_review := t\<rparr>)"
    by (auto simp: mark_review_def split: if_splits)
  have "db_step eid d (d\<lparr>requires_human_review := t\<rparr>)"
    by (rule db_step_frame) (simp_all add: db_frame_defs)
  then show ?thesis unfolding d' by (rule db_step_trans) (rule db_step_mark_status)
qed

lemma db_step_llm: "llm_only d d' \<Longrightarrow> (cache_ok d \<Longrightarrow> cache_ok d') \<Longrightarrow> db_step eid d d'"
proof -
  assume a: "llm_only d d'" and c: "cache_ok d \<Longrightarrow> cache_ok d'"
  obtain x y where "d' = d\<lparr>llm_cache := x, llm_audit := y\<rparr>" using a by (auto simp: llm_only_def)
  then show ?thesis
    by (intro db_step_frame) (use c in \<open>simp_all add: projection_of_def raw_log_def schemas_ok_def\<close>)
qed

lemma map_schemas_fields:
  "projection_of (map_schemas i f d) = projection_of d" "raw_events (map_schemas i f d) = raw_events d"
  "cache_ok (map_schemas i f d) = cache_ok d"
  by (simp_all add: map_schemas_def db_frame_defs)

lemma db_step_increment:
  "increment_success i d = Inr d' \<Longrightarrow> db_step eid d d'"
  "increment_failure i d = Inr d' \<Longrightarrow> db_step eid d d'"
  by (rule db_step_frame; auto dest: increment_ok
      simp: increment_success_def increment_failure_def map_schemas_fields split: if_splits)+

lemma db_step_persist: "persist_event_type d vid raw c s conf src = Inr d' \<Longrightarrow> db_step eid d d'"
  by (rule db_step_frame) (auto simp: persist_event_type_def bindE_eq_Inr Let_def db_frame_defs)

lemma persist_schema_frame:
  assumes "persist_schema d vendor fp doc eid = (d', r)"
  shows "projection_of d' = projection_of d" "llm_cache d' = llm_cache d"
    "llm_audit d' = llm_audit d" "raw_events d' = raw_events d" "clock d' = clock d"
  using assms
  by (auto simp: persist_schema_def Let_def projection_of_def raw_log_def split: option.splits if_splits)

lemma discover_frame:
  assumes "discover_and_persist X d vid payload out eid = (d', r)"
  shows "projection_of d' = projection_of d \<and> llm_cache d' = llm_cache d \<and>
     llm_audit d' = llm_audit d \<and> raw_events d' = raw_events d \<and> clock d' = clock d"
proof -
  have f: "projection_of (persist_discovered_type d v raw cls st) = projection_of d"
      "llm_cache (persist_discovered_type d v raw cls st) = llm_cache d"
      "llm_audit (persist_discovered_type d v raw cls st) = llm_audit d"
      "raw_events (persist_discovered_type d v raw cls st) = raw_events d"
      "clock (persist_discovered_type d v raw cls st) = clock d" for d v raw cls st
    by (simp_all add: persist_discovered_type_def projection_of_def)
  show ?thesis
    using assms
    by (auto simp: discover_and_persist_def Let_def f dest: persist_schema_frame
        split: if_split_asm sum.split_asm option.split_asm bool.split_asm prod.split_asm json.split_asm)
qed

lemma db_step_discover:
  "discover_and_persist X d vid payload out eid = (d', r) \<Longrightarrow> db_step eid d d'"
  using discover_frame [of X d vid payload out eid d' r] discover_schemas_ok [of d X vid payload out eid d' r]
    cache_ok_cong [of d' d]
  by (intro db_step_frame) simp_all

section \<open>The transaction\<close>

lemma get_or_create_rest: "get_or_create_entity d v t x = Inr (d', i) \<Longrightarrow> rest_of d' = rest_of d"
  by (auto simp: get_or_create_eq with_entity_def rest_of_def split: option.splits)

lemma insert_applied_rest: "insert_applied d i e s = Inr (d', b) \<Longrightarrow> rest_of d' = rest_of d"
  by (auto simp: insert_applied_def rest_of_def split: if_splits)

lemma insert_row_rest:
  "insert_shipment d i r = Inr (d', b) \<Longrightarrow> rest_of d' = rest_of d"
  "insert_invoice d i q = Inr (d', b) \<Longrightarrow> rest_of d' = rest_of d"
  by (auto simp: insert_shipment_def insert_invoice_def rest_of_def split: if_splits)

lemma log_stale_rest: "log_stale d i e rs sd = Inr d' \<Longrightarrow> rest_of d' = rest_of d"
  by (auto simp: log_stale_def rest_of_def split: if_splits)

lemma update_row_rest:
  "update_shipment d i n f = Inr d' \<Longrightarrow> rest_of d' = rest_of d"
  "update_invoice d i n g = Inr d' \<Longrightarrow> rest_of d' = rest_of d"
  by (auto simp: update_shipment_def update_invoice_def bindE_eq_Inr rest_of_def
      split: option.splits if_splits)

lemmas handler_statements_rest =
  get_or_create_rest insert_applied_rest insert_row_rest log_stale_rest update_row_rest

lemma apply_shipment_rest: "apply_shipment d ev = Inr (d', out) \<Longrightarrow> rest_of d' = rest_of d"
  by (auto simp: apply_shipment_def Let_def bindE_eq_Inr split: if_split_asm option.split_asm
      dest!: handler_statements_rest)

lemma apply_invoice_rest: "apply_invoice d ev = Inr (d', out) \<Longrightarrow> rest_of d' = rest_of d"
  by (auto simp: apply_invoice_def Let_def bindE_eq_Inr split: if_split_asm option.split_asm
      dest!: handler_statements_rest)

lemma apply_event_rest: "apply_event d ev = Inr (d', out) \<Longrightarrow> rest_of d' = rest_of d"
  by (cases ev) (auto dest: apply_shipment_rest apply_invoice_rest)

lemma db_step_apply_event: "apply_event d ev = Inr (d', out) \<Longrightarrow> db_step eid d d'"
proof -
  assume a: "apply_event d ev = Inr (d', out)"
  from apply_event_rest [OF a] have "raw_log d' = raw_log d" "raw_events d' = raw_events d" "schemas_ok d' = schemas_ok d" "cache_ok d' = cache_ok d"
    by (simp_all add: rest_of_def raw_log_def schemas_ok_def cache_ok_def)
  with db_ok_apply_event [OF _ a] show ?thesis by (auto simp: db_step_def worker_ok_def)
qed

lemma upsert_canonical_cases:
  assumes "upsert_canonical_event canonical d = Inr d'"
  obtains t where "d' = d\<lparr>canonical_events := t\<rparr>"
    "\<And>k. tbl_get t k = (if k = event_id canonical
       then Some \<lparr>cn_event = canonical, cn_normalized_at = clock d\<rparr> else tbl_get (canonical_events d) k)"
    "event_exists d (event_id canonical)"
proof (rule that)
  let ?row = "\<lparr>cn_event = canonical, cn_normalized_at = clock d\<rparr>"
  let ?t = "tbl_update (event_id canonical) (\<lambda>_. ?row) (tbl_insert (event_id canonical) ?row (canonical_events d))"
  show "d' = d\<lparr>canonical_events := ?t\<rparr>" "event_exists d (event_id canonical)"
    using assms by (auto simp: upsert_canonical_event_def Let_def split: if_splits)
  show "tbl_get ?t k = (if k = event_id canonical then Some ?row else tbl_get (canonical_events d) k)" for k
    by (auto simp: table_simps split: option.splits)
qed

lemma apply_canonical_cases:
  assumes "apply_canonical eid canonical d = Inr (d', out)"
  obtains d1 d2 where "upsert_canonical_event canonical d = Inr d1" "apply_event d1 canonical = Inr (d2, out)"
    "d' = set_raw eid (\<lambda>r. r\<lparr>rw_vendor_id := coalesce (rw_vendor_id r) (Some (vendor_id canonical)),
            rw_status := Processed, rw_error := None, rw_processed_at := Some (clock d)\<rparr>) d2"
proof -
  from assms obtain d1 d2 where u: "upsert_canonical_event canonical d = Inr d1"
    and a: "apply_event d1 canonical = Inr (d2, out)"
    and d': "d' = set_raw eid (\<lambda>r. r\<lparr>rw_vendor_id := coalesce (rw_vendor_id r) (Some (vendor_id canonical)),
            rw_status := Processed, rw_error := None, rw_processed_at := Some (clock d2)\<rparr>) d2"
    by (auto simp: apply_canonical_def bindE_eq_Inr)
  have "clock d1 = clock d" using u by (rule upsert_canonical_cases) simp
  with apply_event_rest [OF a] have "clock d2 = clock d" by (simp add: rest_of_def)
  with u a d' that show thesis by simp
qed

lemma db_step_apply_canonical: "apply_canonical eid canonical d = Inr (d', out) \<Longrightarrow> db_step eid d d'"
proof (erule apply_canonical_cases)
  fix d1 d2
  assume u: "upsert_canonical_event canonical d = Inr d1" and a: "apply_event d1 canonical = Inr (d2, out)"
    and d': "d' = set_raw eid (\<lambda>r. r\<lparr>rw_vendor_id := coalesce (rw_vendor_id r) (Some (vendor_id canonical)),
            rw_status := Processed, rw_error := None, rw_processed_at := Some (clock d)\<rparr>) d2"
  have "db_step eid d d1" using u
    by (rule upsert_canonical_cases) (rule db_step_frame, simp_all add: db_frame_defs)
  then have "db_step eid d d2" by (rule db_step_trans) (rule db_step_apply_event [OF a])
  then show "db_step eid d d'" unfolding d' by (rule db_step_trans) (rule db_step_set_raw, simp add: raw_core_def)
qed

section \<open>Every path is a step\<close>

lemma keeps_on_db: "(\<And>d. stmt (wdb w) = Inr d \<Longrightarrow> db_step eid (wdb w) d) \<Longrightarrow> steps.keeps eid w (on_db stmt w)"
  by (auto simp: on_db_def steps.keeps_def db_step_refl split: sum.splits)

lemma keeps_finalize: "steps.keeps eid w (finalize X eid vid canonical w)"
  by (auto simp: finalize_def intro!: steps.keeps_same steps.keeps_andthen keeps_on_db steps.keepsI
      intro: db_step_mark_review db_step_apply_canonical split: sum.splits prod.splits)

lemma keeps_classify_and_persist: "steps.keeps eid w (classify_and_persist X F vid raw w)"
proof -
  have "steps.keeps eid w (classify_event_type X F vid raw w)"
    unfolding steps.keeps_def
    using classify_event_type_only [of X F vid raw w] by (auto simp: prod_eq_iff intro!: db_step_llm)
  then show ?thesis
    unfolding classify_and_persist_def
    by (rule steps.keeps_andthen)
      (auto intro!: steps.keeps_same steps.keeps_andthen keeps_on_db intro: db_step_persist
        split: option.splits prod.splits sum.splits)
qed

lemma keeps_resolve: "steps.keeps eid w (resolve_event_type X F vid raw w)"
  by (simp add: resolve_event_type_def steps.keeps_same keeps_classify_and_persist split: option.splits)

lemma keeps_via_schema: "steps.keeps eid w (process_via_schema X F eid vid payload m w)"
  unfolding process_via_schema_def Let_def lift_result_def
  by (auto intro!: steps.keeps_lift steps.keeps_same steps.keeps_andthen keeps_on_db keeps_resolve
      db_step_increment(1) split: option.splits prod.splits)

lemma keeps_normalize_llm: "steps.keeps eid w (normalize_llm X F payload eid hint w)"
  unfolding steps.keeps_def
  using normalize_llm_only [of X F payload eid hint w] by (auto simp: prod_eq_iff intro!: db_step_llm)

lemma discover_after_step: "db_step eid (wdb w) (wdb (discover_after X eid vid payload r w))"
  using db_step_discover [OF surjective_pairing]
  by (auto simp: discover_after_def db_step_refl split: json.splits)

lemma keeps_via_llm: "steps.keeps eid w (process_via_llm X F eid vid payload w)"
  unfolding process_via_llm_def
proof (rule steps.keeps_andthen [OF keeps_normalize_llm])
  fix r w1
  have fin: "steps.keeps eid w1 (finalize X eid vid canonical (discover_after X eid vid payload r w1))" for canonical
    by (rule steps.keeps_from [OF discover_after_step keeps_finalize])
  have rev: "steps.keeps eid w1 (andthen (on_db (mark_review eid (reason_of ''unsupported'' (ar_detail r)) (ar_detail r)) w1)
           (\<lambda>_ w2. (Inr RequiresReview, w2)))"
    by (auto intro!: steps.keeps_andthen keeps_on_db steps.keeps_same intro: db_step_mark_review)
  have pend: "steps.keeps eid w1 (Inr PendingLLM, w1\<lparr>wdb := mark_pending_llm eid reason (wdb w1)\<rparr>)" for reason
    by (auto intro!: steps.keepsI simp: mark_pending_llm_def db_step_mark_status)
  show "steps.keeps eid w1 (case (ar_status r, ar_canonical_event r) of
       (Ok, Some canonical) \<Rightarrow> finalize X eid vid canonical (discover_after X eid vid payload r w1)
     | (Deferred, _) \<Rightarrow>
         (Inr PendingLLM,
          w1\<lparr>wdb := mark_pending_llm eid (reason_of ''llm_deferred'' (ar_detail r)) (wdb w1)\<rparr>)
     | _ \<Rightarrow>
         andthen (on_db (mark_review eid (reason_of ''unsupported'' (ar_detail r)) (ar_detail r)) w1)
           (\<lambda>_ w2. (Inr RequiresReview, w2)))"
    using fin rev pend by (auto split: AdapterStatus.splits option.splits)
qed

lemma keeps_known: "steps.keeps eid w (process_known X F eid vid payload w)"
  by (auto simp: process_known_def intro!: steps.keeps_andthen keeps_via_schema keeps_via_llm keeps_finalize
      keeps_on_db db_step_increment(2) split: option.splits)

lemma keeps_process_event: "steps.keeps eid w (process_event X F eid w)"
  by (auto simp: process_event_def lift_result_def intro!: steps.keeps_same steps.keeps_lift keeps_known
      split: option.splits)

lemma keeps_process_webhook: "steps.keeps eid w (process_webhook X F eid w)"
  using keeps_process_event [of eid w X F] db_step_mark_status db_step_trans
  by (auto simp: process_webhook_def steps.keeps_def mark_failed_def split: prod.splits sum.splits)

section \<open>The verdict on an event\<close>

definition status_of :: "db \<Rightarrow> string \<Rightarrow> processing_status option" where
  "status_of d eid = map_option rw_status (tbl_get (raw_events d) eid)"

fun verdict :: "process_outcome result \<Rightarrow> processing_status" where
  "verdict (Inr (Applied out)) = Processed"
| "verdict (Inr RequiresReview) = Review"
| "verdict (Inr PendingLLM) = PendingLlm"
| "verdict (Inr NotFound) = Queued"
| "verdict (Inl e) = Failed"

lemma status_set_raw: "event_exists d eid \<Longrightarrow> (\<And>r. rw_status (f r) = st) \<Longrightarrow> status_of (set_raw eid f d) eid = Some st"
  by (auto simp: status_of_def set_raw_def event_exists_def table_simps)

lemma status_mark: "event_exists d eid \<Longrightarrow> status_of (mark_status eid st err d) eid = Some st"
  unfolding mark_status_def by (rule status_set_raw) simp_all

lemma db_step_exists: "db_step eid d d' \<Longrightarrow> event_exists d' e = event_exists d e"
  by (simp add: db_step_def event_exists_log)

lemma mark_review_status:
  assumes "mark_review eid reason detail d = Inr d'"
  shows "status_of d' eid = Some Review \<and> tbl_get (requires_human_review d') eid \<noteq> None"
proof -
  have "event_exists d eid"
    and d': "d' = mark_status eid Review (Some reason) (d\<lparr>requires_human_review := tbl_insert eid
             \<lparr>hr_reason = reason, hr_detail = detail, hr_captured_at = clock d\<rparr> (requires_human_review d)\<rparr>)"
    using assms by (auto simp: mark_review_def split: if_splits)
  have "event_exists (d\<lparr>requires_human_review := t\<rparr>) eid" for t
    using \<open>event_exists d eid\<close> by (simp add: event_exists_def)
  from status_mark [OF this] have "status_of d' eid = Some Review" by (simp add: d')
  moreover have "tbl_get (requires_human_review d') eid \<noteq> None"
    using tbl.get_ins_present by (simp add: d' mark_status_def set_raw_def del: not_None_eq)
  ultimately show ?thesis by simp
qed

text \<open>What a finished run has left about its event: its status, and the row that goes with it.\<close>

definition concluded :: "string \<Rightarrow> process_outcome \<Rightarrow> db \<Rightarrow> bool" where
  "concluded eid out d \<longleftrightarrow> out \<noteq> NotFound \<and> status_of d eid = Some (verdict (Inr out)) \<and>
     (out = RequiresReview \<longrightarrow> tbl_get (requires_human_review d) eid \<noteq> None) \<and>
     (\<forall>a. out = Applied a \<longrightarrow> (\<exists>row. tbl_get (canonical_events d) eid = Some row \<and>
        event_id (cn_event row) = eid \<and> (\<exists>ev. normalize ev = Inr (cn_event row))))"

lemma apply_canonical_concludes:
  assumes "apply_canonical eid ev d = Inr (d', out)" "event_id ev = eid" "normalize ev0 = Inr ev"
  shows "concluded eid (Applied out) d'"
  using assms(1)
proof (rule apply_canonical_cases)
  fix d1 d2
  assume u: "upsert_canonical_event ev d = Inr d1" and a: "apply_event d1 ev = Inr (d2, out)"
    and d': "d' = set_raw eid (\<lambda>r. r\<lparr>rw_vendor_id := coalesce (rw_vendor_id r) (Some (vendor_id ev)),
            rw_status := Processed, rw_error := None, rw_processed_at := Some (clock d)\<rparr>) d2"
  from u obtain t where t: "d1 = d\<lparr>canonical_events := t\<rparr>"
      "tbl_get t eid = Some \<lparr>cn_event = ev, cn_normalized_at = clock d\<rparr>" "event_exists d eid"
    using assms(2) by (auto elim!: upsert_canonical_cases)
  have "event_exists d2 eid" "canonical_events d2 = t"
    using apply_event_rest [OF a] t by (auto simp: rest_of_def event_exists_def)
  then show ?thesis
    using t(2) assms(2,3) status_set_raw [of d2 eid _ Processed] unfolding concluded_def d'
    by (auto simp: set_raw_def [where d = d2])
qed

lemma normalize_event_id: "normalize ev = Inr ev' \<Longrightarrow> event_id ev' = event_id ev"
  by (cases ev) (auto simp: bindE_eq_Inr normalize_shipment_def normalize_invoice_def
      normalize_unclassified_def new_event_defs split: if_splits)

lemma override_event_id [simp]: "event_id (override_vendor vid ev) = event_id ev"
  by (cases ev) (simp_all add: override_vendor_def)

lemma finalize_concludes:
  assumes "finalize X eid vid ev w = (Inr out, w')" "event_id ev = eid"
  shows "concluded eid out (wdb w')"
  using assms
  by (auto simp: finalize_def andthen_def on_db_def concluded_def [where out = RequiresReview]
      dest: mark_review_status normalize_event_id intro!: apply_canonical_concludes
      split: sum.splits prod.splits if_splits)

lemma build_canonical_event_id:
  assumes "build_canonical X eid v src = Inr ev"
  shows "event_id ev = eid"
  using assms
  by (auto simp: build_canonical_def bindE_eq_Inr build_shipment_def build_invoice_def build_unclassified_def
      new_event_defs Let_def split: json.splits if_splits)

lemma via_llm_concludes:
  assumes run: "process_via_llm X F eid vid payload w = (Inr out, w')" and ev: "event_exists (wdb w) eid"
  shows "concluded eid out (wdb w')"
proof -
  obtain r w1 where n: "normalize_llm X F payload eid vid w = (Inr r, w1)"
    using run by (auto simp: process_via_llm_def andthen_def split: prod.splits sum.splits)
  have ev1: "event_exists (wdb w1) eid"
    using keeps_normalize_llm [of eid w X F payload vid] n ev db_step_exists by (auto simp: steps.keeps_def)
  from normalize_llm_status [OF n] show ?thesis
  proof (elim disjE conjE exE)
    fix c
    assume c: "ar_status r = Ok" "ar_canonical_event r = Some c"
    from n have "event_id c = eid"
    proof (cases rule: normalize_llm_cases)
      case (answered o)
      from shape_outcome_ok [OF answered(2) [symmetric]] c build_canonical_event_id show ?thesis by auto
    next
      case (refused e)
      then show ?thesis using c by (auto simp: adapter_problem_def split: if_splits)
    qed
    with run n c finalize_concludes show ?thesis by (simp add: process_via_llm_def andthen_def)
  next
    assume c: "ar_status r = Deferred"
    with run n ev1 status_mark show ?thesis
      by (auto simp: process_via_llm_def andthen_def mark_pending_llm_def concluded_def)
  next
    assume c: "ar_status r = Unsupported"
    with run n show ?thesis
      by (auto simp: process_via_llm_def andthen_def on_db_def concluded_def dest: mark_review_status
          split: sum.splits)
  qed
qed

lemma extract_event_id:
  assumes "extract_event X payload eid vid doc st cls = Inr r" "ex_canonical_event r = Some ev"
  shows "event_id ev = eid"
proof -
  have "ex_success r" using extract_event_failure [OF assms(1)] assms(2) by auto
  from extract_event_success [OF assms(1) this] assms(2) show ?thesis
    by (cases ev) (auto simp: deterministic_event_def)
qed

lemma via_schema_event_id:
  assumes "process_via_schema X F eid vid payload m w = (Inr (Some ev), w')"
  shows "event_id ev = eid"
  using assms
  by (auto simp: process_via_schema_def Let_def andthen_def lift_result_def
      intro: extract_event_id split: prod.splits sum.splits option.splits if_splits)

lemma known_concludes:
  assumes run: "process_known X F eid vid payload w = (Inr out, w')" and ev: "event_exists (wdb w) eid"
  shows "concluded eid out (wdb w')"
proof (cases "lookup_schema X (wdb w) vid payload")
  case None
  with run ev via_llm_concludes show ?thesis by (simp add: process_known_def)
next
  case (Some m)
  obtain c w1 where s: "process_via_schema X F eid vid payload m w = (Inr c, w1)"
    using run Some by (auto simp: process_known_def andthen_def split: prod.splits sum.splits)
  have ev1: "event_exists (wdb w1) eid"
    using keeps_via_schema [of eid w X F vid payload m] s ev db_step_exists by (auto simp: steps.keeps_def)
  show ?thesis
  proof (cases c)
    case None
    then obtain w2 where i: "on_db (increment_failure (sm_schema_id m)) w1 = (Inr (), w2)"
        "process_via_llm X F eid vid payload w2 = (Inr out, w')"
      using run Some s by (auto simp: process_known_def andthen_def split: prod.splits sum.splits)
    have "steps.keeps eid w1 (on_db (increment_failure (sm_schema_id m)) w1)"
      by (rule keeps_on_db) (rule db_step_increment(2))
    with i(1) ev1 have "event_exists (wdb w2) eid" by (simp add: steps.keeps_def db_step_exists)
    with i(2) show ?thesis by (rule via_llm_concludes)
  next
    case (Some ev')
    with run \<open>lookup_schema X (wdb w) vid payload = Some m\<close> s via_schema_event_id finalize_concludes
    show ?thesis by (simp add: process_known_def andthen_def)
  qed
qed

lemma process_event_concludes:
  assumes "process_event X F eid w = (Inr out, w')" "event_exists (wdb w) eid"
  shows "concluded eid out (wdb w')"
  using assms
  by (auto simp: process_event_def event_exists_def andthen_def lift_result_def
      intro: known_concludes split: option.splits sum.splits prod.splits)

end
