(* ===== verification/Resumptions.thy ===== *)
theory Resumptions
  imports Pipeline
begin

text \<open>
  Jobs that can be interrupted.  A coroutine of the worker gives way to other jobs, of the same or of
  another process, at every \<open>await\<close>; what it runs between two of them is one action on the shared
  state, a statement, a transaction or a call of the provider.  A job is therefore a tree of
  actions: each acts on the state it finds and says how to go on.  \<open>run\<close> runs a job alone.  The
  locale \<open>interference\<close> reasons about a job whose actions alternate with arbitrary transitions of an
  environment, each action being accounted for in a ghost state.
\<close>

section \<open>Jobs\<close>

datatype ('s, 'a) job = Return "'a result" | Act "'s \<Rightarrow> ('s, 'a) job \<times> 's"

primrec run :: "('s, 'a) job \<Rightarrow> 's \<Rightarrow> 'a result \<times> 's" where
  "run (Return r) = (\<lambda>w. (r, w))"
| "run (Act f) = (\<lambda>w. (\<lambda>(g, v). g v) (map_prod run id (f w)))"

definition ret :: "'a \<Rightarrow> ('s, 'a) job" where
  "ret x = Return (Inr x)"

definition raises :: "exn \<Rightarrow> ('s, 'a) job" where
  "raises e = Return (Inl e)"

text \<open>One action that has a result or raises.\<close>

definition atomically :: "('s \<Rightarrow> 'a result \<times> 's) \<Rightarrow> ('s, 'a) job" where
  "atomically m = Act (\<lambda>w. (Return (fst (m w)), snd (m w)))"

text \<open>Sequence, and \<open>try ... except\<close>; neither is an interruption.\<close>

primrec bindj :: "('s, 'a) job \<Rightarrow> ('a \<Rightarrow> ('s, 'b) job) \<Rightarrow> ('s, 'b) job" where
  "bindj (Return r) k = (case r of Inl e \<Rightarrow> Return (Inl e) | Inr x \<Rightarrow> k x)"
| "bindj (Act f) k = Act (\<lambda>w. map_prod (\<lambda>j. bindj j k) id (f w))"

primrec catchj :: "('s, 'a) job \<Rightarrow> (exn \<Rightarrow> ('s, 'a) job) \<Rightarrow> ('s, 'a) job" where
  "catchj (Return r) h = (case r of Inl e \<Rightarrow> h e | Inr x \<Rightarrow> Return (Inr x))"
| "catchj (Act f) h = Act (\<lambda>w. map_prod (\<lambda>j. catchj j h) id (f w))"

lemma job_induct [case_names Return Act]:
  assumes "\<And>r. P (Return r)" "\<And>f. (\<And>w. P (fst (f w))) \<Longrightarrow> P (Act f)"
  shows "P j"
proof (induction j)
  case (Act f)
  have "P (fst (f w))" for w by (rule Act [of "f w"]) (auto simp: fsts.simps)
  then show ?case by (rule assms(2))
qed (rule assms(1))

lemma run_Act: "run (Act f) w = run (fst (f w)) (snd (f w))"
  by (simp add: map_prod_def split_beta)

declare run.simps(2) [simp del]

lemma run_ret [simp]: "run (ret x) = Pair (Inr x)" "run (raises e) = Pair (Inl e)"
  by (simp_all add: ret_def raises_def fun_eq_iff)

lemma run_atomically [simp]: "run (atomically m) w = m w"
  by (simp add: atomically_def run_Act)

lemma run_bindj: "run (bindj j k) w = andthen (run j w) (\<lambda>x. run (k x))"
proof (induction j arbitrary: w rule: job_induct)
  case (Return r)
  then show ?case by (cases r) (simp_all add: andthen_def)
next
  case (Act f)
  then show ?case by (simp add: run_Act)
qed

lemma run_catchj:
  "run (catchj j h) w = (case run j w of (Inl e, v) \<Rightarrow> run (h e) v | (Inr x, v) \<Rightarrow> (Inr x, v))"
proof (induction j arbitrary: w rule: job_induct)
  case (Return r)
  then show ?case by (cases r) simp_all
next
  case (Act f)
  then show ?case by (simp add: run_Act)
qed

lemma andthen_simps [simp]: "andthen (Inl e, w) f = (Inl e, w)" "andthen (Inr x, w) f = f x w"
  by (simp_all add: andthen_def)

section \<open>Running under interference\<close>

text \<open>
  \<open>env\<close> is what the environment may do between two actions; \<open>guar w c w' c'\<close> what an action that finds
  \<open>w\<close> and leaves \<open>w'\<close> must satisfy, when the ghost state goes from \<open>c\<close> to \<open>c'\<close>.  \<open>secures j Q w c\<close>: started
  in \<open>w\<close> with ghost state \<open>c\<close>, every action of \<open>j\<close> satisfies \<open>guar\<close> and, if \<open>j\<close> ends, its result and
  the states after its end satisfy \<open>Q\<close>, whatever the environment does.
\<close>

locale interference =
  fixes env :: "'s \<Rightarrow> 's \<Rightarrow> bool" and guar :: "'s \<Rightarrow> 'g \<Rightarrow> 's \<Rightarrow> 'g \<Rightarrow> bool"
  assumes env_refl: "env w w"
    and env_trans: "env w v \<Longrightarrow> env v u \<Longrightarrow> env w u"
begin

primrec secures :: "('s, 'a) job \<Rightarrow> ('a result \<Rightarrow> 's \<Rightarrow> 'g \<Rightarrow> bool) \<Rightarrow> 's \<Rightarrow> 'g \<Rightarrow> bool" where
  "secures (Return r) = (\<lambda>Q w c. \<forall>v. env w v \<longrightarrow> Q r v c)"
| "secures (Act f) = (\<lambda>Q w c. \<forall>v. env w v \<longrightarrow>
     (\<exists>c'. guar v c (snd (f v)) c' \<and> fst (map_prod secures id (f v)) Q (snd (f v)) c'))"

lemma secures_Act: "secures (Act f) Q w c \<longleftrightarrow>
    (\<forall>v. env w v \<longrightarrow> (\<exists>c'. guar v c (snd (f v)) c' \<and> secures (fst (f v)) Q (snd (f v)) c'))"
  by simp

declare secures.simps(2) [simp del]

text \<open>The environment cannot break it, and an action takes it on to what is left.\<close>

lemma secures_env: "secures j Q w c \<Longrightarrow> env w v \<Longrightarrow> secures j Q v c"
  by (cases j) (auto simp: secures_Act intro: env_trans)

lemma secures_step:
  assumes "secures (Act f) Q w c"
  obtains c' where "guar w c (snd (f w)) c'" "secures (fst (f w)) Q (snd (f w)) c'"
  using assms env_refl by (auto simp: secures_Act)

lemma secures_end: "secures (Return r) Q w c \<Longrightarrow> Q r w c"
  using env_refl by simp

lemma secures_ret: "(\<And>v. env w v \<Longrightarrow> Q (Inr x) v c) \<Longrightarrow> secures (ret x) Q w c"
  by (simp add: ret_def)

lemma secures_raises: "(\<And>v. env w v \<Longrightarrow> Q (Inl e) v c) \<Longrightarrow> secures (raises e) Q w c"
  by (simp add: raises_def)

lemma secures_atomically:
  assumes "\<And>v. env w v \<Longrightarrow> \<exists>c'. guar v c (snd (m v)) c' \<and> (\<forall>u. env (snd (m v)) u \<longrightarrow> Q (fst (m v)) u c')"
  shows "secures (atomically m) Q w c"
  using assms by (simp add: atomically_def secures_Act)

lemma secures_bindj:
  assumes "secures j (\<lambda>r v c. case r of Inl e \<Rightarrow> Q (Inl e) v c | Inr x \<Rightarrow> secures (k x) Q v c) w c"
  shows "secures (bindj j k) Q w c"
  using assms
proof (induction j arbitrary: w c rule: job_induct)
  case (Return r)
  then show ?case using env_refl by (cases r) auto
next
  case (Act f)
  show ?case
    unfolding bindj.simps secures_Act
  proof (intro allI impI)
    fix v assume "env w v"
    with Act(2) obtain c' where g: "guar v c (snd (f v)) c'"
      "secures (fst (f v)) (\<lambda>r v c. case r of Inl e \<Rightarrow> Q (Inl e) v c | Inr x \<Rightarrow> secures (k x) Q v c) (snd (f v)) c'"
      unfolding secures_Act by blast
    have "secures (bindj (fst (f v)) k) Q (snd (f v)) c'"
      by (rule Act(1) [OF g(2)])
    with g(1) show "\<exists>c'. guar v c (snd (map_prod (\<lambda>j. bindj j k) id (f v))) c' \<and>
        secures (fst (map_prod (\<lambda>j. bindj j k) id (f v))) Q (snd (map_prod (\<lambda>j. bindj j k) id (f v))) c'"
      by (auto simp: map_prod_def split_beta)
  qed
qed

lemma secures_catchj:
  assumes "secures j (\<lambda>r v c. case r of Inl e \<Rightarrow> secures (h e) Q v c | Inr x \<Rightarrow> Q (Inr x) v c) w c"
  shows "secures (catchj j h) Q w c"
  using assms
proof (induction j arbitrary: w c rule: job_induct)
  case (Return r)
  then show ?case using env_refl by (cases r) auto
next
  case (Act f)
  show ?case
    unfolding catchj.simps secures_Act
  proof (intro allI impI)
    fix v assume "env w v"
    with Act(2) obtain c' where g: "guar v c (snd (f v)) c'"
      "secures (fst (f v)) (\<lambda>r v c. case r of Inl e \<Rightarrow> secures (h e) Q v c | Inr x \<Rightarrow> Q (Inr x) v c) (snd (f v)) c'"
      unfolding secures_Act by blast
    have "secures (catchj (fst (f v)) h) Q (snd (f v)) c'"
      by (rule Act(1) [OF g(2)])
    with g(1) show "\<exists>c'. guar v c (snd (map_prod (\<lambda>j. catchj j h) id (f v))) c' \<and>
        secures (fst (map_prod (\<lambda>j. catchj j h) id (f v))) Q (snd (map_prod (\<lambda>j. catchj j h) id (f v))) c'"
      by (auto simp: map_prod_def split_beta)
  qed
qed

lemma secures_mono:
  assumes "secures j Q w c" "\<And>r v c. Q r v c \<Longrightarrow> Q' r v c"
  shows "secures j Q' w c"
  using assms(1)
proof (induction j arbitrary: w c rule: job_induct)
  case (Return r)
  then show ?case using assms(2) by simp
next
  case (Act f)
  show ?case
    unfolding secures_Act
  proof (intro allI impI)
    fix v assume "env w v"
    with Act(2) obtain c' where g: "guar v c (snd (f v)) c'" "secures (fst (f v)) Q (snd (f v)) c'"
      unfolding secures_Act by blast
    have "secures (fst (f v)) Q' (snd (f v)) c'" by (rule Act(1) [OF g(2)])
    with g(1) show "\<exists>c'. guar v c (snd (f v)) c' \<and> secures (fst (f v)) Q' (snd (f v)) c'" by blast
  qed
qed

text \<open>What neither the environment nor an action can undo may be used after each action.\<close>

lemma secures_keep:
  assumes env: "\<And>w v. env w v \<Longrightarrow> I w \<Longrightarrow> I v" and guar: "\<And>w c v c'. guar w c v c' \<Longrightarrow> I w \<Longrightarrow> I v"
    and "I w" "secures j (\<lambda>r v c. I v \<longrightarrow> Q r v c) w c"
  shows "secures j Q w c"
  using assms(3,4)
proof (induction j arbitrary: w c rule: job_induct)
  case (Return r)
  then show ?case using env by simp
next
  case (Act f)
  show ?case
    unfolding secures_Act
  proof (intro allI impI)
    fix v assume "env w v"
    with Act(3) obtain c' where g: "guar v c (snd (f v)) c'"
      "secures (fst (f v)) (\<lambda>r v c. I v \<longrightarrow> Q r v c) (snd (f v)) c'"
      unfolding secures_Act by blast
    have "I (snd (f v))" using env [OF \<open>env w v\<close> Act(2)] guar [OF g(1)] by simp
    with Act(1) g show "\<exists>c'. guar v c (snd (f v)) c' \<and> secures (fst (f v)) Q (snd (f v)) c'" by blast
  qed
qed

text \<open>A sequence, with such an \<open>I\<close> and with what the first part says of its result and ghost state.\<close>

lemma secures_seq:
  assumes "\<And>w v. env w v \<Longrightarrow> I w \<Longrightarrow> I v" "\<And>w c v c'. guar w c v c' \<Longrightarrow> I w \<Longrightarrow> I v" "I w"
    and first: "secures j (\<lambda>r v c. \<forall>x. r = Inr x \<longrightarrow> P x c) w c"
    and rest: "\<And>x v c. P x c \<Longrightarrow> I v \<Longrightarrow> secures (k x) Q v c"
    and raised: "\<And>e v c. Q (Inl e) v c"
  shows "secures (bindj j k) Q w c"
proof (rule secures_bindj, rule secures_keep [where I = I, OF assms(1-3)])
  show "secures j (\<lambda>r v c. I v \<longrightarrow> (case r of Inl e \<Rightarrow> Q (Inl e) v c | Inr x \<Rightarrow> secures (k x) Q v c)) w c"
    by (rule secures_mono [OF first]) (use rest raised in \<open>auto split: sum.splits\<close>)
qed

end

end
