(* ===== verification/Worker.thy ===== *)
theory Worker
  imports Pipeline
begin

text \<open>
  What the worker guarantees: every job ends with a verdict on its event, the database invariants
  and the log of raw events survive any job, events of a known shape and type never reach the model
  provider, and processing such an event again changes no projection.
\<close>

section \<open>Path A in one step\<close>

text \<open>The shape of the payload and its event type are known: which schema applies and what it
  extracts.\<close>

definition path_a ::
  "externals \<Rightarrow> db \<Rightarrow> string \<Rightarrow> string \<Rightarrow> json \<Rightarrow> SchemaMatch \<Rightarrow> CanonicalEvent \<Rightarrow> bool" where
  "path_a X d eid vid payload m ev \<longleftrightarrow>
     lookup_schema X d vid payload = Some m \<and>
     (\<exists>first. extract_event X payload eid vid (sm_schema_doc m) None None = Inr first \<and>
        (if jget (sm_schema_doc m) ''classification'' = JStr ''unclassified'' \<and> ex_success first
         then ex_canonical_event first = Some ev
         else \<exists>raw cls state second. ex_raw_event_type first = Some raw \<and> raw \<noteq> [] \<and>
           lookup_event_type d vid raw = Some (cls, state) \<and>
           extract_event X payload eid vid (sm_schema_doc m) (Some state) (Some cls) = Inr second \<and>
           ex_success second \<and> ex_canonical_event second = Some ev))"

lemma path_a_schema:
  assumes "path_a X (wdb w) eid vid payload m ev"
  shows "process_via_schema X F eid vid payload m w =
     (case increment_success (sm_schema_id m) (wdb w) of
        Inl e \<Rightarrow> (Inl e, w) | Inr d \<Rightarrow> (Inr (Some ev), w\<lparr>wdb := d\<rparr>))"
  using assms
  by (auto simp: path_a_def process_via_schema_def Let_def lift_result_def andthen_def on_db_def
      resolve_event_type_def split: if_splits sum.splits)

lemma path_a_known:
  assumes "path_a X (wdb w) eid vid payload m ev"
  shows "process_known X F eid vid payload w =
     (case increment_success (sm_schema_id m) (wdb w) of
        Inl e \<Rightarrow> (Inl e, w) | Inr d \<Rightarrow> finalize X eid vid ev (w\<lparr>wdb := d\<rparr>))"
proof -
  have "lookup_schema X (wdb w) vid payload = Some m" using assms by (simp add: path_a_def)
  then show ?thesis
    by (simp add: process_known_def path_a_schema [OF assms] andthen_def split: sum.splits)
qed

lemma path_a_event:
  assumes "path_a X d eid vid payload m ev"
  shows "deterministic_event eid vid ev"
proof -
  obtain st cls r where "extract_event X payload eid vid (sm_schema_doc m) st cls = Inr r" "ex_success r"
      "ex_canonical_event r = Some ev"
    using assms by (auto simp: path_a_def split: if_splits)
  with extract_event_success [OF this(1,2)] show ?thesis by auto
qed

text \<open>The parts of the world \<open>_finalize\<close> leaves alone.\<close>

definition learned where
  "learned d = (llm_cache d, llm_audit d, vendor_schemas d, next_schema_id d, vendor_event_type_map d)"

lemma learned_set_raw [simp]: "learned (set_raw eid f d) = learned d"
  by (simp add: learned_def set_raw_def)

lemma apply_canonical_learned:
  assumes "apply_canonical eid c d = Inr (d', out)"
  shows "learned d' = learned d"
  using assms
proof (rule apply_canonical_cases)
  fix d1 d2
  assume u: "upsert_canonical_event c d = Inr d1" and a: "apply_event d1 c = Inr (d2, out)"
    and d': "d' = set_raw eid (\<lambda>r. r\<lparr>rw_vendor_id := coalesce (rw_vendor_id r) (Some (vendor_id c)),
          rw_status := Processed, rw_error := None, rw_processed_at := Some (clock d)\<rparr>) d2"
  have "learned d1 = learned d" using u by (rule upsert_canonical_cases) (simp add: learned_def)
  with apply_event_rest [OF a] have "learned d2 = learned d" by (simp add: rest_of_def learned_def)
  then show "learned d' = learned d" by (simp add: d')
qed

lemma finalize_learned:
  assumes "finalize X eid vid ev w = (r, w')"
  shows "learned (wdb w') = learned (wdb w) \<and> wcalls w' = wcalls w"
proof -
  have rev: "learned d' = learned d" if "mark_review eid reason detail d = Inr d'" for reason detail d d'
    using that by (auto simp: mark_review_def mark_status_def learned_def set_raw_def split: if_splits)
  show ?thesis
    using assms
    by (auto simp: finalize_def andthen_def on_db_def dest: rev apply_canonical_learned split: sum.splits prod.splits if_splits)
qed

section \<open>Verdicts and invariants\<close>

lemma job_verdict:
  assumes "event_exists (wdb w) eid" "process_webhook X F eid w = (r, w')"
  shows "status_of (wdb w') eid = Some (verdict r) \<and> verdict r \<noteq> Queued \<and>
     (case r of Inl e \<Rightarrow> True | Inr out \<Rightarrow> concluded eid out (wdb w'))"
proof -
  obtain q v where run: "process_event X F eid w = (q, v)" by fastforce
  have ev: "event_exists (wdb v) eid"
    using keeps_process_event [of eid w X F] run assms(1) by (simp add: steps.keeps_def db_step_exists)
  show ?thesis
  proof (cases q)
    case (Inl e)
    then show ?thesis
      using assms(2) run status_mark [OF ev] by (auto simp: process_webhook_def mark_failed_def)
  next
    case (Inr out)
    with assms run have "concluded eid out (wdb v)" "r = Inr out" "w' = v"
      by (auto simp: process_webhook_def intro: process_event_concludes)
    then show ?thesis by (cases out) (auto simp: concluded_def)
  qed
qed

text \<open>C8: a job that runs to its end gives a verdict.  When \<open>process_webhook\<close> on a stored event returns or
  ends by an exception that \<open>except Exception\<close> sees, and the database can be reached, the event
  is no longer queued: an exception leaves it failed; otherwise it is processed and its normalised
  canonical event is stored under its id, or it is in review and a review row exists, or it is
  waiting for the LLM budget.\<close>

theorem every_job_reaches_a_verdict:
  assumes "event_exists (wdb w) eid" "process_webhook X F eid w = (r, w')"
  shows "status_of (wdb w') eid = Some (verdict r) \<and> verdict r \<noteq> Queued \<and>
     (case r of Inl e \<Rightarrow> True | Inr out \<Rightarrow> concluded eid out (wdb w'))"
  using assms by (rule job_verdict)

text \<open>Jobs keep the database.  A job on an event, failed or not, leaves the identity, payload,
  headers, time of receipt and signature flag of every raw event as they were, does not touch the
  row of any other raw event, and preserves the invariants of the projection, of the learned schemas
  and of the answer cache.\<close>

lemma jobs_keep_the_database:
  assumes "worker_ok (wdb w)" "process_webhook X F eid w = (r, w')"
  shows "raw_log (wdb w') = raw_log (wdb w) \<and> worker_ok (wdb w') \<and>
     (\<forall>e. e = eid \<or> tbl_get (raw_events (wdb w')) e = tbl_get (raw_events (wdb w)) e)"
  using steps.keeps_run [OF keeps_process_webhook assms(2)] assms(1) by (auto simp: db_step_def)

section \<open>Known shapes\<close>

lemma process_event_known:
  assumes "tbl_get (raw_events (wdb w)) eid = Some row" "event_vendor X row = Inr vid"
  shows "process_event X F eid w = process_known X F eid vid (rw_payload row) w"
  using assms by (simp add: process_event_def lift_result_def andthen_def)

text \<open>C12: an event that path A can extract needs no model.  When the registry has a schema for the
  payload, the type it extracts is mapped and the extraction succeeds (\<open>path_a\<close>; otherwise path B follows), processing the event calls no
  provider, reads and writes neither cache nor audit log, and does the same whatever provider is
  configured.\<close>

theorem known_shapes_need_no_model:
  assumes "tbl_get (raw_events (wdb w)) eid = Some row" "event_vendor X row = Inr vid"
    and "path_a X (wdb w) eid vid (rw_payload row) m ev"
    and "process_event X F eid w = (r, w')"
  shows "wcalls w' = wcalls w \<and> llm_cache (wdb w') = llm_cache (wdb w) \<and>
     llm_audit (wdb w') = llm_audit (wdb w) \<and> (\<forall>F'. process_event X F' eid w = (r, w'))"
proof -
  have any: "process_event X F' eid w =
      (case increment_success (sm_schema_id m) (wdb w) of
        Inl e \<Rightarrow> (Inl e, w) | Inr d \<Rightarrow> finalize X eid vid ev (w\<lparr>wdb := d\<rparr>))" for F'
    using process_event_known [OF assms(1,2)] path_a_known [OF assms(3)] by simp
  show ?thesis
  proof (cases "increment_success (sm_schema_id m) (wdb w)")
    case (Inl e)
    then show ?thesis using any assms(4) by auto
  next
    case (Inr d)
    have "llm_cache d = llm_cache (wdb w)" "llm_audit d = llm_audit (wdb w)"
      using Inr by (auto simp: increment_success_def map_schemas_def split: if_splits)
    moreover have fin: "finalize X eid vid ev (w\<lparr>wdb := d\<rparr>) = (r, w')" using any [of F] assms(4) Inr by simp
    ultimately show ?thesis using any Inr finalize_learned [OF fin] by (simp add: learned_def)
  qed
qed

section \<open>Processing twice\<close>

text \<open>Counting a success changes no answer of the registry.\<close>

lemma foldl_map_entries:
  assumes "\<And>a b. entry_before (g a) (g b) = entry_before a b"
  shows "foldl (\<lambda>best c. if entry_before c best then c else best) (g e) (map g es) =
     g (foldl (\<lambda>best c. if entry_before c best then c else best) e es)"
  using assms by (induction es arbitrary: e) auto

lemma first_entry_map:
  assumes "\<And>a b. entry_before (g a) (g b) = entry_before a b"
  shows "first_entry (map g es) = map_option g (first_entry es)"
  using foldl_map_entries [of g, OF assms] by (cases es) (simp_all add: first_entry_def)

lemma lookup_schema_map:
  assumes "\<And>r. vs_status (f r) = vs_status r \<and> vs_id (f r) = vs_id r \<and> vs_schema_doc (f r) = vs_schema_doc r"
  shows "lookup_schema X (map_schemas i f d) vid payload = lookup_schema X d vid payload"
proof -
  define g :: "schema_entry \<Rightarrow> schema_entry" where "g = (\<lambda>(k, r). (k, if vs_id r = i then f r else r))"
  have g: "vs_status (snd (g e)) = vs_status (snd e)" "fst (g e) = fst e" "to_match (g e) = to_match e" for e
  proof -
    obtain v fp n r where e: "e = ((v, fp, n), r)" by (metis prod_cases3 surj_pair)
    show "vs_status (snd (g e)) = vs_status (snd e)" "fst (g e) = fst e" "to_match (g e) = to_match e"
      using assms by (simp_all add: g_def e)
  qed
  have "vendor_schemas (map_schemas i f d) = map g (vendor_schemas d)"
    by (simp add: map_schemas_def g_def)
  then have "schema_candidates (map_schemas i f d) vid fp = map g (schema_candidates d vid fp)" for fp
    using g by (simp add: schema_candidates_def filter_map comp_def split_def)
  moreover have "entry_version (g e) = entry_version e" for e
    using g(2) [of e] by (cases e; cases "g e") auto
  then have "entry_before (g a) (g b) = entry_before a b" for a b
    unfolding entry_before_def g(1) by simp
  then have "first_entry (map g es) = map_option g (first_entry es)" for es by (rule first_entry_map)
  moreover have "map_option to_match (map_option g e) = map_option to_match e" for e
    using g(3) by (cases e) auto
  ultimately show ?thesis by (simp add: lookup_schema_def)
qed

lemma lookup_schema_cong:
  "vendor_schemas d' = vendor_schemas d \<Longrightarrow> lookup_schema X d' vid payload = lookup_schema X d vid payload"
  by (simp add: lookup_schema_def schema_candidates_def)

lemma increment_success_lookup:
  assumes "increment_success i d = Inr d'"
  shows "lookup_schema X d' vid payload = lookup_schema X d vid payload"
    "vendor_event_type_map d' = vendor_event_type_map d" "raw_events d' = raw_events d"
    "projection_of d' = projection_of d" "raw_log d' = raw_log d"
  using assms lookup_schema_map [of "\<lambda>r. r\<lparr>vs_success_count := vs_success_count r + 1\<rparr>" X i d vid payload]
  by (auto simp: increment_success_def map_schemas_fields split: if_splits)
    (simp_all add: map_schemas_def raw_log_def)

lemma path_a_cong:
  assumes "path_a X d eid vid payload m ev" "lookup_schema X d' vid payload = lookup_schema X d vid payload"
    and "vendor_event_type_map d' = vendor_event_type_map d"
  shows "path_a X d' eid vid payload m ev"
proof -
  have types: "lookup_event_type d' = lookup_event_type d"
    using assms(3) by (simp add: fun_eq_iff lookup_event_type_def)
  show ?thesis using assms(1) unfolding path_a_def assms(2) types .
qed

lemma in_seen_cong:
  assumes "projection_of d' = projection_of d"
  shows "in_seen d' ev = in_seen d ev"
proof -
  have f: "entities d' = entities d" "shipments d' = shipments d" "invoices d' = invoices d"
      "seen_events d' i = seen_events d i" for i
    using assms by (simp_all add: projection_of_def seen_events_def)
  show ?thesis unfolding in_seen_def shipment_life_def invoice_life_def f ..
qed

lemma projection_of_set_raw [simp]: "projection_of (set_raw eid f d) = projection_of d"
  by (simp add: projection_of_def set_raw_def)

lemma in_seen_set_raw [simp]: "in_seen (set_raw eid f d) ev = in_seen d ev"
  by (rule in_seen_cong) simp

lemma apply_canonical_again:
  assumes ok: "db_ok d" and conf: "0 \<le> confidence ev \<and> confidence ev \<le> 1"
    and seen: "in_seen d ev" and ex: "event_exists d (event_id ev)"
  shows "\<exists>d'. apply_canonical eid ev d = Inr (d', repeat_outcome ev) \<and> projection_of d' = projection_of d"
proof -
  obtain u where u: "upsert_canonical_event ev d = Inr u"
    using ex conf by (simp add: upsert_canonical_event_def Let_def)
  from u obtain t where t: "u = d\<lparr>canonical_events := t\<rparr>" by (rule upsert_canonical_cases)
  have "db_ok u" "in_seen u ev" "projection_of u = projection_of d"
    using ok seen db_ok_cong [of u d] in_seen_cong [of u d]
    by (simp_all add: t projection_of_def raw_log_def)
  from apply_event_seen [OF this(1,2)] this(3) u show ?thesis
    by (simp add: apply_canonical_def)
qed

lemma apply_canonical_seen:
  assumes "db_ok d" "apply_canonical eid ev d = Inr (d', out)"
  shows "in_seen d' ev"
  using assms(2)
proof (rule apply_canonical_cases)
  fix d1 d2
  assume u: "upsert_canonical_event ev d = Inr d1" and a: "apply_event d1 ev = Inr (d2, out)"
    and d': "d' = set_raw eid (\<lambda>r. r\<lparr>rw_vendor_id := coalesce (rw_vendor_id r) (Some (vendor_id ev)),
            rw_status := Processed, rw_error := None, rw_processed_at := Some (clock d)\<rparr>) d2"
  from u obtain t where "d1 = d\<lparr>canonical_events := t\<rparr>" by (rule upsert_canonical_cases)
  then have "db_ok d1" using assms(1) db_ok_cong [of d1 d] by (simp add: projection_of_def raw_log_def)
  from apply_event_seen_after(1) [OF this a] show "in_seen d' ev" by (simp add: d')
qed

lemma finalize_Applied:
  assumes "finalize X eid vid ev w = (Inr (Applied out), w')"
  obtains ev' where "normalize (override_vendor vid ev) = Inr ev'"
    "apply_canonical eid ev' (wdb w) = Inr (wdb w', out)" "w' = w\<lparr>wdb := wdb w'\<rparr>"
  using assms
  by (auto simp: finalize_def andthen_def on_db_def split: sum.splits prod.splits if_splits)

text \<open>The vendor of the event is the same after the event has been applied.\<close>

lemma vendor_after:
  assumes "event_vendor X row = Inr vid" "strip vid = vid \<or> rw_vendor_id row = Some vid"
    and "tbl_get (raw_events d') eid = Some row'" "rw_payload row' = rw_payload row"
    and "rw_vendor_id row' = coalesce (rw_vendor_id row) (Some (strip vid))" "vid \<noteq> []"
  shows "event_vendor X row' = Inr vid"
  using assms by (cases "rw_vendor_id row") (auto simp: event_vendor_def coalesce_def split: if_splits)

lemma infer_vendor_stripped:
  assumes "infer_vendor_id X payload = Inr vid"
  shows "strip vid = vid \<and> vid \<noteq> []"
proof -
  have known: "strip v = v \<and> v \<noteq> []"
    if "v \<in> {''maersk'', ''ocean_network_express'', ''globalfreightpay'', ''marine_traffic_advisory'', ''unknown''}" for v
    using that by (auto simp: strip_def strip_if_def is_space_def)
  show ?thesis
    by (rule known) (use assms in \<open>auto simp: infer_vendor_id_def Let_def split: json.splits if_splits\<close>)
qed

lemma event_vendor_stable:
  assumes "event_vendor X row = Inr vid"
  shows "vid \<noteq> [] \<and> (strip vid = vid \<or> rw_vendor_id row = Some vid)"
  using assms infer_vendor_stripped by (auto simp: event_vendor_def split: option.splits if_splits)

lemma normalize_vendor: "normalize ev = Inr ev' \<Longrightarrow> vendor_id ev' = strip (vendor_id ev)"
  by (cases ev) (auto simp: bindE_eq_Inr normalize_shipment_def normalize_invoice_def
      normalize_unclassified_def new_event_defs split: if_splits)

lemma apply_canonical_row:
  assumes "apply_canonical eid ev d = Inr (d', out)" "tbl_get (raw_events d) eid = Some row"
  shows "\<exists>row'. tbl_get (raw_events d') eid = Some row' \<and> rw_payload row' = rw_payload row \<and>
     rw_vendor_id row' = coalesce (rw_vendor_id row) (Some (vendor_id ev))"
  using assms(1)
proof (rule apply_canonical_cases)
  fix d1 d2
  assume u: "upsert_canonical_event ev d = Inr d1" and a: "apply_event d1 ev = Inr (d2, out)"
    and d': "d' = set_raw eid (\<lambda>r. r\<lparr>rw_vendor_id := coalesce (rw_vendor_id r) (Some (vendor_id ev)),
            rw_status := Processed, rw_error := None, rw_processed_at := Some (clock d)\<rparr>) d2"
  from u obtain t where "d1 = d\<lparr>canonical_events := t\<rparr>" by (rule upsert_canonical_cases)
  with apply_event_rest [OF a] have "raw_events d2 = raw_events d" by (simp add: rest_of_def)
  with assms(2) d' show ?thesis by (simp add: set_raw_def table_simps)
qed

text \<open>An event is settled when its shape and type are known and its canonical event has been seen.\<close>

definition settled_by :: "externals \<Rightarrow> db \<Rightarrow> string \<Rightarrow> SchemaMatch \<Rightarrow> bool" where
  "settled_by X d eid m \<longleftrightarrow> (\<exists>row vid ev ev'. tbl_get (raw_events d) eid = Some row \<and>
     event_vendor X row = Inr vid \<and> path_a X d eid vid (rw_payload row) m ev \<and>
     normalize (override_vendor vid ev) = Inr ev' \<and> in_seen d ev' \<and>
     0 \<le> confidence ev' \<and> confidence ev' \<le> 1)"

text \<open>The run of a known event up to the transaction.\<close>

lemma known_run_cases:
  assumes get: "tbl_get (raw_events (wdb w)) eid = Some row" and vendor: "event_vendor X row = Inr vid"
    and path: "path_a X (wdb w) eid vid (rw_payload row) m ev"
    and n: "normalize (override_vendor vid ev) = Inr ev'"
    and run: "process_event X F eid w = (r, w')"
  obtains
    (full) e where "increment_success (sm_schema_id m) (wdb w) = Inl e" "r = Inl e" "w' = w"
  | (rejected) d e where "increment_success (sm_schema_id m) (wdb w) = Inr d"
      "apply_canonical eid ev' d = Inl e" "r = Inl e" "w' = w\<lparr>wdb := d\<rparr>"
  | (applied) d out where "increment_success (sm_schema_id m) (wdb w) = Inr d"
      "apply_canonical eid ev' d = Inr (wdb w', out)" "r = Inr (Applied out)" "w' = w\<lparr>wdb := wdb w'\<rparr>"
  using process_event_known [OF get vendor] path_a_known [OF path] run n that
  by (fastforce simp: finalize_def split: sum.splits prod.splits)

lemma known_run_rest:
  assumes path: "path_a X (wdb w) eid vid (rw_payload row) m ev"
    and inc: "increment_success (sm_schema_id m) (wdb w) = Inr d"
    and ap: "apply_canonical eid ev' d = Inr (d1, out)"
  shows "lookup_schema X d1 v p = lookup_schema X (wdb w) v p"
    "vendor_event_type_map d1 = vendor_event_type_map (wdb w)"
proof -
  have "learned d1 = learned d" by (rule apply_canonical_learned [OF ap])
  then show "lookup_schema X d1 v p = lookup_schema X (wdb w) v p"
    "vendor_event_type_map d1 = vendor_event_type_map (wdb w)"
    using increment_success_lookup(1,2) [OF inc] lookup_schema_cong [of d1 d]
    by (simp_all add: learned_def)
qed

text \<open>The event's own row after the run names the same vendor.\<close>

lemma known_run_row:
  assumes get: "tbl_get (raw_events (wdb w)) eid = Some row" and vendor: "event_vendor X row = Inr vid"
    and path: "path_a X (wdb w) eid vid (rw_payload row) m ev"
    and n: "normalize (override_vendor vid ev) = Inr ev'"
    and inc: "increment_success (sm_schema_id m) (wdb w) = Inr d"
    and ap: "apply_canonical eid ev' d = Inr (d1, out)"
  shows "event_id ev' = eid"
    "\<exists>row'. tbl_get (raw_events d1) eid = Some row' \<and> event_vendor X row' = Inr vid \<and> rw_payload row' = rw_payload row"
proof -
  have det: "deterministic_event eid vid ev" by (rule path_a_event [OF path])
  then have no_override: "override_vendor vid ev = ev"
    by (simp add: override_vendor_def deterministic_event_def)
  show "event_id ev' = eid"
    using det normalize_event_id [OF n] by (simp add: deterministic_event_def no_override)
  have "vendor_id ev' = strip vid"
    using det normalize_vendor [OF n] by (simp add: deterministic_event_def no_override)
  then obtain row' where row': "tbl_get (raw_events d1) eid = Some row'" "rw_payload row' = rw_payload row"
      "rw_vendor_id row' = coalesce (rw_vendor_id row) (Some (strip vid))"
    using apply_canonical_row [OF ap, of row] get increment_success_lookup(3) [OF inc] by auto
  then show "\<exists>row'. tbl_get (raw_events d1) eid = Some row' \<and> event_vendor X row' = Inr vid \<and> rw_payload row' = rw_payload row"
    using vendor_after [OF vendor _ row'] event_vendor_stable [OF vendor] by blast
qed

lemma settled_after:
  assumes ok: "db_ok (wdb w)" and known: "tbl_get (raw_events (wdb w)) eid = Some row"
    "event_vendor X row = Inr vid" "path_a X (wdb w) eid vid (rw_payload row) m ev"
    and run: "process_event X F eid w = (Inr (Applied out), w1)"
  shows "settled_by X (wdb w1) eid m"
proof -
  obtain d where inc: "increment_success (sm_schema_id m) (wdb w) = Inr d"
    and fin: "finalize X eid vid ev (w\<lparr>wdb := d\<rparr>) = (Inr (Applied out), w1)"
    using run process_event_known [OF known(1,2)] path_a_known [OF known(3)] by (auto split: sum.splits)
  from fin obtain ev' where n: "normalize (override_vendor vid ev) = Inr ev'"
    and ap: "apply_canonical eid ev' d = Inr (wdb w1, out)" by (auto elim: finalize_Applied)
  have "db_ok d" using ok db_ok_cong [OF increment_success_lookup(4,5) [OF inc]] by simp
  moreover have "0 \<le> confidence ev' \<and> confidence ev' \<le> 1"
    using ap by (auto simp: apply_canonical_def upsert_canonical_event_def bindE_eq_Inr split: if_splits)
  ultimately show ?thesis
    using apply_canonical_seen [OF _ ap] known_run_row(2) [OF known n inc ap]
      path_a_cong [OF known(3) known_run_rest [OF known(3) inc ap]] n
    unfolding settled_by_def by metis
qed

text \<open>A settled event stays settled when its row keeps vendor and payload and the registry its answers.\<close>

lemma settled_cong:
  assumes "settled_by X d e m" "\<And>v p. lookup_schema X d' v p = lookup_schema X d v p"
    and "vendor_event_type_map d' = vendor_event_type_map d" "projection_of d' = projection_of d"
    and "\<And>row v. tbl_get (raw_events d) e = Some row \<Longrightarrow> event_vendor X row = Inr v \<Longrightarrow>
      \<exists>row'. tbl_get (raw_events d') e = Some row' \<and> event_vendor X row' = Inr v \<and> rw_payload row' = rw_payload row"
  shows "settled_by X d' e m"
proof -
  obtain row v ev ev' where s: "tbl_get (raw_events d) e = Some row" "event_vendor X row = Inr v"
      "path_a X d e v (rw_payload row) m ev" "normalize (override_vendor v ev) = Inr ev'" "in_seen d ev'"
      "0 \<le> confidence ev' \<and> confidence ev' \<le> 1"
    using assms(1) by (auto simp: settled_by_def)
  then show ?thesis
    using assms(5) [OF s(1,2)] path_a_cong [OF s(3) assms(2,3)] in_seen_cong [OF assms(4)]
    unfolding settled_by_def by metis
qed

lemma settled_run:
  assumes ok: "worker_ok (wdb w)" and settled: "settled_by X (wdb w) eid m"
    and run: "process_event X F eid w = (r, w')"
  shows "wcalls w' = wcalls w" "projection_of (wdb w') = projection_of (wdb w)"
    "settled_by X (wdb w) e m' \<Longrightarrow> settled_by X (wdb w') e m'"
    "(case increment_success (sm_schema_id m) (wdb w) of Inl err \<Rightarrow> r = Inl err
      | Inr d \<Rightarrow> r \<in> {Inr (Applied AlreadyApplied), Inr (Applied UnclassifiedRecorded)})"
proof -
  obtain row vid ev ev' where s: "tbl_get (raw_events (wdb w)) eid = Some row" "event_vendor X row = Inr vid"
      "path_a X (wdb w) eid vid (rw_payload row) m ev" "normalize (override_vendor vid ev) = Inr ev'"
      "in_seen (wdb w) ev'" "0 \<le> confidence ev' \<and> confidence ev' \<le> 1"
    using settled by (auto simp: settled_by_def)
  have others: "e \<noteq> eid \<Longrightarrow> tbl_get (raw_events (wdb w')) e = tbl_get (raw_events (wdb w)) e" for e
    using steps.keeps_run [OF keeps_process_event run] by (simp add: db_step_def)
  have again: "\<exists>d'. apply_canonical eid ev' d = Inr (d', repeat_outcome ev') \<and> projection_of d' = projection_of (wdb w)"
    if inc: "increment_success (sm_schema_id m) (wdb w) = Inr d" for d
  proof -
    note inc_simps = increment_success_lookup [OF inc]
    have "event_id ev' = eid"
      using path_a_event [OF s(3)] normalize_event_id [OF s(4)] by (simp add: deterministic_event_def)
    then have "event_exists d (event_id ev')" using s(1) inc_simps(3) by (simp add: event_exists_def)
    moreover have "db_ok d" using ok db_ok_cong [OF inc_simps(4,5)] by (simp add: worker_ok_def)
    moreover have "in_seen d ev'" using s(5) in_seen_cong [OF inc_simps(4)] by simp
    ultimately show ?thesis using apply_canonical_again s(6) inc_simps(4) by metis
  qed
  have "wcalls w' = wcalls w \<and> projection_of (wdb w') = projection_of (wdb w) \<and>
    (settled_by X (wdb w) e m' \<longrightarrow> settled_by X (wdb w') e m') \<and>
    (case increment_success (sm_schema_id m) (wdb w) of Inl err \<Rightarrow> r = Inl err
      | Inr d \<Rightarrow> r \<in> {Inr (Applied AlreadyApplied), Inr (Applied UnclassifiedRecorded)})"
    using s(1,2,3,4) run
  proof (cases rule: known_run_cases)
    case (full err)
    then show ?thesis by simp
  next
    case (rejected d err)
    with again [OF rejected(1)] show ?thesis by auto
  next
    case (applied d out)
    obtain d' where d': "apply_canonical eid ev' d = Inr (d', repeat_outcome ev')" "projection_of d' = projection_of (wdb w)"
      using again [OF applied(1)] by blast
    then have eq: "wdb w' = d'" "out = repeat_outcome ev'" using applied(2) by auto
    have "out \<in> {AlreadyApplied, UnclassifiedRecorded}"
      by (simp add: eq repeat_outcome_def split: CanonicalEvent.splits)
    moreover have "settled_by X (wdb w') e m'" if "settled_by X (wdb w) e m'"
      using that known_run_rest [OF s(3) applied(1,2)]
    proof (rule settled_cong)
      show "projection_of (wdb w') = projection_of (wdb w)" by (simp add: eq d')
      fix row' v assume *: "tbl_get (raw_events (wdb w)) e = Some row'" "event_vendor X row' = Inr v"
      show "\<exists>r. tbl_get (raw_events (wdb w')) e = Some r \<and> event_vendor X r = Inr v \<and> rw_payload r = rw_payload row'"
      proof (cases "e = eid")
        case True
        with known_run_row(2) [OF s(1-4) applied(1,2)] s(1,2) * show ?thesis by auto
      qed (use * others in auto)
    qed
    ultimately show ?thesis using applied d' by (auto simp: eq)
  qed
  then show "wcalls w' = wcalls w" "projection_of (wdb w') = projection_of (wdb w)"
    "settled_by X (wdb w) e m' \<Longrightarrow> settled_by X (wdb w') e m'"
    "(case increment_success (sm_schema_id m) (wdb w) of Inl err \<Rightarrow> r = Inl err
      | Inr d \<Rightarrow> r \<in> {Inr (Applied AlreadyApplied), Inr (Applied UnclassifiedRecorded)})"
    by simp_all
qed

text \<open>Processing an event of a known shape again changes no projection.  After such an event has
  been applied, running the job again, with whatever provider, makes no call, answers that the
  event was already applied (or recorded, when it is unclassified), and leaves entities, shipments,
  invoices, applied events and the stale log exactly as they were.  (The counter of the schema must
  have room.)\<close>

lemma known_events_are_applied_once:
  assumes "worker_ok (wdb w)" "tbl_get (raw_events (wdb w)) eid = Some row"
    and "event_vendor X row = Inr vid" "path_a X (wdb w) eid vid (rw_payload row) m ev"
    and "process_event X F eid w = (Inr (Applied out), w1)"
    and "is_ok (increment_success (sm_schema_id m) (wdb w1))"
  shows "\<exists>w2 out2. process_event X F' eid w1 = (Inr (Applied out2), w2) \<and> wcalls w2 = wcalls w1 \<and>
     out2 \<in> {AlreadyApplied, UnclassifiedRecorded} \<and> projection_of (wdb w2) = projection_of (wdb w1)"
proof -
  have settled: "settled_by X (wdb w1) eid m"
    using settled_after [OF _ assms(2-5)] assms(1) by (simp add: worker_ok_def)
  have ok: "worker_ok (wdb w1)"
    using steps.keeps_run [OF keeps_process_event assms(5)] assms(1) by (simp add: db_step_def)
  obtain r w2 where run: "process_event X F' eid w1 = (r, w2)" by fastforce
  from settled_run [OF ok settled run] assms(6) run show ?thesis by (auto simp: is_ok_iff)
qed

section \<open>Examples\<close>

definition known_db :: db where
  "known_db = sample_db\<lparr>
     raw_events := [(''e1'', sample_raw\<lparr>rw_payload := sample_payload, rw_vendor_id := Some ''maersk''\<rparr>)],
     vendor_schemas := [((''maersk'', structural_fingerprint sample_LX sample_payload [], 1),
       \<lparr>vs_id = 1, vs_schema_doc = sample_schema, vs_status = Active, vs_created_by = ''ops'',
        vs_source_event_id = ''e1'', vs_success_count = 0, vs_failure_count = 0\<rparr>)],
     next_schema_id := 2,
     vendor_event_type_map := [((''maersk'', ''GTOT''),
       \<lparr>tm_canonical_state = ''shipment.in_transit'', tm_classification = ''shipment'',
        tm_confidence = 9/10, tm_source = ''ops'', tm_reviewed_by_human = True\<rparr>)]\<rparr>"

definition known_w :: world where
  "known_w = \<lparr>wdb = known_db, wcalls = 0\<rparr>"

definition any_F :: fallback where
  "any_F = sample_F ''answer'' ''answer''"

definition known_run :: "process_outcome result \<times> world" where
  "known_run = process_event sample_LX any_F ''e1'' known_w"

definition known_row :: raw_row where
  "known_row = sample_raw\<lparr>rw_payload := sample_payload, rw_vendor_id := Some ''maersk''\<rparr>"

definition known_match :: SchemaMatch where
  "known_match = \<lparr>sm_schema_id = 1, sm_vendor_id = ''maersk'', sm_schema_doc = sample_schema,
     sm_schema_version = 1, sm_status = Active\<rparr>"

definition known_event :: CanonicalEvent where
  "known_event = the (ex_canonical_event (projr
     (extract_event sample_LX sample_payload ''e1'' ''maersk'' sample_schema (Some ''shipment.in_transit'') (Some ''shipment''))))"

lemma known_lookup: "lookup_schema sample_LX known_db ''maersk'' sample_payload = Some known_match"
  by code_simp

lemma known_row_get:
  "tbl_get (raw_events (wdb known_w)) ''e1'' = Some known_row"
  "event_vendor sample_LX known_row = Inr ''maersk''" "rw_payload known_row = sample_payload"
  by (simp_all add: known_w_def known_db_def known_row_def tbl_get_def event_vendor_def)

lemma known_path_a: "path_a sample_LX (wdb known_w) ''e1'' ''maersk'' (rw_payload known_row) known_match known_event"
proof -
  let ?first = "extract_event sample_LX sample_payload ''e1'' ''maersk'' sample_schema None None"
  let ?second = "extract_event sample_LX sample_payload ''e1'' ''maersk'' sample_schema
      (Some ''shipment.in_transit'') (Some ''shipment'')"
  have "is_ok ?first" "ex_raw_event_type (projr ?first) = Some ''GTOT''" by code_simp+
  moreover have "is_ok ?second" "ex_success (projr ?second)" "ex_canonical_event (projr ?second) \<noteq> None"
    by code_simp+
  moreover have "lookup_event_type known_db ''maersk'' ''GTOT'' = Some (''shipment'', ''shipment.in_transit'')"
    by code_simp
  moreover have "jget sample_schema ''classification'' = JStr ''shipment''" by code_simp
  ultimately show ?thesis
    using known_lookup
    by (auto simp: path_a_def known_w_def known_row_get known_match_def known_event_def is_ok_iff)
qed

lemma known_run_eq: "process_event sample_LX any_F ''e1'' known_w = (Inr (Applied AppliedInitial), snd known_run)"
proof -
  have "fst known_run = Inr (Applied AppliedInitial)" by code_simp
  then show ?thesis unfolding known_run_def by (metis prod.collapse)
qed

lemma known_ok: "worker_ok (wdb known_w)"
  by code_simp

lemma known_shapes_need_no_model_witness: "wcalls (snd known_run) = 0"
  using known_shapes_need_no_model [OF known_row_get(1,2) known_path_a known_run_eq]
  by (simp add: known_w_def)

lemma known_events_are_applied_once_witness:
  "\<exists>out. fst (process_event sample_LX any_F ''e1'' (snd known_run)) = Inr (Applied out)"
proof -
  have "is_ok (increment_success (sm_schema_id known_match) (wdb (snd known_run)))" by code_simp
  from known_events_are_applied_once [OF known_ok known_row_get(1,2) known_path_a known_run_eq this, of any_F]
  show ?thesis by auto
qed

lemma every_job_reaches_a_verdict_witness:
  "status_of (wdb (snd (process_webhook sample_LX any_F ''e1'' known_w))) ''e1'' =
     Some (verdict (fst (process_webhook sample_LX any_F ''e1'' known_w)))"
proof -
  have "event_exists (wdb known_w) ''e1''" by code_simp
  from every_job_reaches_a_verdict [OF this, of sample_LX any_F "fst (process_webhook sample_LX any_F ''e1'' known_w)"
      "snd (process_webhook sample_LX any_F ''e1'' known_w)"] show ?thesis by simp
qed

lemma jobs_keep_the_database_witness: "worker_ok (wdb (snd (process_webhook sample_LX any_F ''e1'' known_w)))"
  using jobs_keep_the_database [OF known_ok surjective_pairing] by blast

end
