(* ===== verification/Receiver.thy ===== *)
theory Receiver
  imports Worker
begin

text \<open>
  \<open>app/api/receiver.py\<close> and the enqueueing of \<open>app/queue.py\<close>: the hot path from an HTTP request to a
  row of the raw log and a job.  The queue is arq's: a table of the jobs that wait, keyed by job id,
  the ids whose result is still kept (\<open>keep_result\<close>), and the counter of tries of each job, as the list
  of the ids of the jobs that were started.  As arq documents, a job with an id that waits or has a kept
  result is not enqueued again.  arq deletes the counter of a job that ends; here it is reset when the
  id is enqueued again, and nothing asks for it in between.  The queue may be unreachable when the receiver
  wants to enqueue (\<open>up\<close>).  Header names are in lower case, as the web framework delivers them.
\<close>

section \<open>State\<close>

record request =
  rq_body :: string
  rq_headers :: "(string \<times> string) list"
  rq_vendor :: "string option"

record receiver_settings =
  rs_max_bytes :: nat
  rs_secrets :: "(string \<times> string) list"
  rs_signature_header :: string
  rs_enforce :: bool

record response =
  rp_event_id :: string
  rp_deduplicated :: bool
  rp_trace_id :: string

record job_queue =
  jq_jobs :: "(string, string \<times> string option) table"
  jq_results :: "string list"
  jq_tries :: "string list"

record service =
  sv_world :: world
  sv_queue :: job_queue

abbreviation sv_db :: "service \<Rightarrow> db" where
  "sv_db s \<equiv> wdb (sv_world s)"

definition set_db :: "db \<Rightarrow> service \<Rightarrow> service" where
  "set_db d s = s\<lparr>sv_world := (sv_world s)\<lparr>wdb := d\<rparr>\<rparr>"

section \<open>Parts of a request\<close>

definition header :: "request \<Rightarrow> string \<Rightarrow> string option" where
  "header req name = map_of (rq_headers req) (lower name)"

text \<open>\<open>a or b\<close> on optional strings.\<close>

definition or_str :: "string option \<Rightarrow> string option \<Rightarrow> string option" where
  "or_str a b = (case a of Some s \<Rightarrow> if s \<noteq> [] then Some s else b | None \<Rightarrow> b)"

text \<open>A boolean is an \<open>int\<close> in Python.\<close>

definition safe_str :: "json \<Rightarrow> string option" where
  "safe_str v = (case v of
       JStr s \<Rightarrow> Some s
     | JInt i \<Rightarrow> Some (int_str i)
     | JBool b \<Rightarrow> Some (if b then ''True'' else ''False'')
     | _ \<Rightarrow> None)"

definition vendor_event_id :: "request \<Rightarrow> jobject \<Rightarrow> string option" where
  "vendor_event_id req payload =
     or_str (header req ''x-event-id'')
       (or_str (safe_str (jget payload ''event_msg_id''))
         (or_str (safe_str (jget payload ''event_id''))
           (or_str (safe_str (jget payload ''doc_ref''))
             (safe_str (jget payload ''advisory_id'')))))"

definition kept_headers :: "request \<Rightarrow> jobject" where
  "kept_headers req = fold (\<lambda>(k, v). AList.update (lower k) (JStr v))
     (filter (\<lambda>(k, v). lower k \<in> {''content-type'', ''user-agent'', ''x-event-id'', ''x-request-id'', ''x-forwarded-for''})
        (rq_headers req)) []"

section \<open>Signatures\<close>

text \<open>\<open>hmac.compare_digest\<close> of two texts: it refuses text that is not ASCII.\<close>

definition compare_digest :: "string \<Rightarrow> string \<Rightarrow> bool result" where
  "compare_digest a b =
     (if list_all (\<lambda>c. of_char c < (128 :: nat)) (a @ b) then Inr (a = b) else Inl TypeError)"

definition supplied_digest :: "string \<Rightarrow> string" where
  "supplied_digest s =
     (let t = strip s in if startswith (lower t) ''sha256='' then drop 7 t else t)"

definition verify_signature :: "externals \<Rightarrow> receiver_settings \<Rightarrow> request \<Rightarrow> bool result" where
  "verify_signature X S req =
     (case or_str (rq_vendor req) None of
        None \<Rightarrow> Inr False
      | Some vendor \<Rightarrow>
          (case or_str (map_of (rs_secrets S) vendor) None of
             None \<Rightarrow> Inr False
           | Some secret \<Rightarrow>
               (case or_str (header req (rs_signature_header S)) None of
                  None \<Rightarrow>
                    if rs_enforce S then Inl (HTTPException 401 ''missing signature'') else Inr False
                | Some supplied \<Rightarrow>
                    bindE (compare_digest (lower (supplied_digest supplied))
                             (lower (x_hmac X secret (rq_body req)))) (\<lambda>ok.
                    if \<not> ok \<and> rs_enforce S then Inl (HTTPException 401 ''invalid signature'')
                    else Inr ok))))"

section \<open>Storing and enqueueing\<close>

definition insert_raw :: "string \<Rightarrow> raw_row \<Rightarrow> db \<Rightarrow> db \<times> bool" where
  "insert_raw eid row d =
     (if event_exists d eid then (d, False)
      else (d\<lparr>raw_events := tbl_insert eid row (raw_events d)\<rparr>, True))"

definition job_id :: "string \<Rightarrow> string" where
  "job_id eid = ''webhook.process:'' @ eid"

definition enqueue_process :: "bool \<Rightarrow> string \<Rightarrow> string option \<Rightarrow> job_queue \<Rightarrow> job_queue result" where
  "enqueue_process up eid trace q =
     (if \<not> up then Inl ConnectionError
      else if job_id eid \<in> set (jq_results q) then Inr q
      else Inr (q\<lparr>jq_jobs := tbl_insert (job_id eid) (eid, trace) (jq_jobs q),
        jq_tries := if tbl_get (jq_jobs q) (job_id eid) = None then removeAll (job_id eid) (jq_tries q)
          else jq_tries q\<rparr>))"

definition parse_body :: "externals \<Rightarrow> receiver_settings \<Rightarrow> string \<Rightarrow> jobject result" where
  "parse_body X S raw =
     (if raw = [] then Inl (HTTPException 400 ''empty body'')
      else if length raw > rs_max_bytes S then Inl (HTTPException 413 ''payload too large'')
      else (case x_loads X raw of
          None \<Rightarrow> Inl (HTTPException 400 ''invalid json'')
        | Some (JObj payload) \<Rightarrow> Inr payload
        | Some _ \<Rightarrow> Inl (HTTPException 400 ''json object required'')))"

definition delivered_id :: "externals \<Rightarrow> request \<Rightarrow> jobject \<Rightarrow> string" where
  "delivered_id X req payload = compute_event_id X (JObj payload) (vendor_event_id req payload)"

definition new_raw :: "db \<Rightarrow> request \<Rightarrow> jobject \<Rightarrow> bool \<Rightarrow> raw_row" where
  "new_raw d req payload verified =
     \<lparr>rw_vendor_id = rq_vendor req, rw_received_at = clock d, rw_headers = kept_headers req,
      rw_payload = JObj payload, rw_signature_verified = verified, rw_status = Queued,
      rw_error = None, rw_processed_at = None\<rparr>"

definition ingest ::
  "externals \<Rightarrow> receiver_settings \<Rightarrow> bool \<Rightarrow> string \<Rightarrow> request \<Rightarrow> service \<Rightarrow> response result \<times> service" where
  "ingest X S up new_trace req s =
     (let trace = (case or_str (header req ''x-request-id'') None of Some t \<Rightarrow> t | None \<Rightarrow> new_trace) in
      case parse_body X S (rq_body req) of
        Inl e \<Rightarrow> (Inl e, s)
      | Inr payload \<Rightarrow>
          (case verify_signature X S req of
             Inl e \<Rightarrow> (Inl e, s)
           | Inr verified \<Rightarrow>
               let eid = delivered_id X req payload in
               (case insert_raw eid (new_raw (sv_db s) req payload verified) (sv_db s) of
                  (d, False) \<Rightarrow>
                    (Inr \<lparr>rp_event_id = eid, rp_deduplicated = True, rp_trace_id = trace\<rparr>, set_db d s)
                | (d, True) \<Rightarrow>
                    (case enqueue_process up eid (Some trace) (sv_queue s) of
                       Inl e \<Rightarrow> (Inl e, set_db d s)
                     | Inr q \<Rightarrow>
                         (Inr \<lparr>rp_event_id = eid, rp_deduplicated = False, rp_trace_id = trace\<rparr>,
                          (set_db d s)\<lparr>sv_queue := q\<rparr>)))))"

text \<open>The two routes.\<close>

definition receive_any where
  "receive_any X S up tr req s = ingest X S up tr (req\<lparr>rq_vendor := None\<rparr>) s"

definition receive_vendor where
  "receive_vendor X S up tr vendor req s = ingest X S up tr (req\<lparr>rq_vendor := Some vendor\<rparr>) s"

section \<open>The ways a request can go\<close>

lemma set_db_same [simp]: "set_db (sv_db s) s = s"
  by (simp add: set_db_def)

lemma set_db_sel [simp]: "sv_db (set_db d s) = d" "sv_queue (set_db d s) = sv_queue s"
  "sv_world (s\<lparr>sv_queue := q\<rparr>) = sv_world s"
  by (simp_all add: set_db_def)

definition with_raw :: "string \<Rightarrow> raw_row \<Rightarrow> db \<Rightarrow> db" where
  "with_raw eid row d = d\<lparr>raw_events := tbl_insert eid row (raw_events d)\<rparr>"

lemma enqueue_up: "\<exists>q'. enqueue_process True eid trace q = Inr q'"
  by (simp add: enqueue_process_def)

lemma ingest_cases:
  assumes "ingest X S up tr req s = (r, s')"
  obtains
    (refused) e where "r = Inl e" "s' = s"
      "parse_body X S (rq_body req) = Inl e \<or>
         (\<exists>payload. parse_body X S (rq_body req) = Inr payload \<and> verify_signature X S req = Inl e)"
  | (duplicate) payload v t where "parse_body X S (rq_body req) = Inr payload" "verify_signature X S req = Inr v"
      "event_exists (sv_db s) (delivered_id X req payload)" "s' = s"
      "r = Inr \<lparr>rp_event_id = delivered_id X req payload, rp_deduplicated = True, rp_trace_id = t\<rparr>"
  | (lost) payload v where "parse_body X S (rq_body req) = Inr payload" "verify_signature X S req = Inr v"
      "\<not> event_exists (sv_db s) (delivered_id X req payload)" "\<not> up" "r = Inl ConnectionError"
      "s' = set_db (with_raw (delivered_id X req payload) (new_raw (sv_db s) req payload v) (sv_db s)) s"
  | (accepted) payload v t q where "parse_body X S (rq_body req) = Inr payload" "verify_signature X S req = Inr v"
      "\<not> event_exists (sv_db s) (delivered_id X req payload)" "up"
      "r = Inr \<lparr>rp_event_id = delivered_id X req payload, rp_deduplicated = False, rp_trace_id = t\<rparr>"
      "enqueue_process True (delivered_id X req payload) (Some t) (sv_queue s) = Inr q"
      "s' = (set_db (with_raw (delivered_id X req payload) (new_raw (sv_db s) req payload v) (sv_db s)) s)
         \<lparr>sv_queue := q\<rparr>"
proof (cases "parse_body X S (rq_body req)")
  case (Inl e)
  then show thesis using assms refused by (auto simp: ingest_def Let_def)
next
  case (Inr payload)
  note body = this
  show thesis
  proof (cases "verify_signature X S req")
    case (Inl e)
    then show thesis using assms body refused by (auto simp: ingest_def Let_def)
  next
    case (Inr v)
    note sig = this
    let ?t = "case or_str (header req ''x-request-id'') None of Some t \<Rightarrow> t | None \<Rightarrow> tr"
    show thesis
    proof (cases "event_exists (sv_db s) (delivered_id X req payload)")
      case True
      show thesis
        by (rule duplicate [OF body sig True, of ?t])
          (use assms body sig True in \<open>auto simp: ingest_def insert_raw_def Let_def\<close>)
    next
      case False
      note ingest_simps = ingest_def insert_raw_def with_raw_def Let_def
      show thesis
      proof (cases up)
        case True
        obtain q where q: "enqueue_process True (delivered_id X req payload) (Some ?t) (sv_queue s) = Inr q"
          using enqueue_up by blast
        show thesis
          by (rule accepted [OF body sig False True _ q])
            (use assms body sig False True q in \<open>auto simp: ingest_simps\<close>)
      next
        case nup: False
        show thesis
          by (rule lost [OF body sig False nup])
            (use assms body sig False nup in \<open>auto simp: ingest_simps enqueue_process_def\<close>)
      qed
    qed
  qed
qed

lemma with_raw_get:
  "\<not> event_exists d eid \<Longrightarrow> tbl_get (raw_events (with_raw eid row d)) e =
     (if e = eid then Some row else tbl_get (raw_events d) e)"
  by (simp add: with_raw_def event_exists_def table_simps)

section \<open>Refusals\<close>

lemma parse_body_error:
  assumes "parse_body X S raw = Inl e"
  shows "\<exists>code why. e = HTTPException code why \<and> code \<in> {400, 413} \<and>
     (code = 413 \<longleftrightarrow> raw \<noteq> [] \<and> rs_max_bytes S < length raw)"
proof -
  consider "raw = []" | "raw \<noteq> []" "rs_max_bytes S < length raw" | "raw \<noteq> []" "\<not> rs_max_bytes S < length raw"
    by blast
  then show ?thesis
    using assms by cases (auto simp: parse_body_def split: option.splits json.splits)
qed

lemma parse_body_size: "parse_body X S raw = Inr p \<Longrightarrow> raw \<noteq> [] \<and> \<not> rs_max_bytes S < length raw"
  by (simp add: parse_body_def split: if_splits)

lemma verify_signature_error:
  assumes "verify_signature X S req = Inl (HTTPException code why)"
  shows "code = 401 \<and> rs_enforce S \<and> rq_vendor req \<noteq> None"
  using assms
  by (simp add: verify_signature_def bindE_eq_Inl compare_digest_def or_str_def
      split: if_splits option.splits)

text \<open>C32: a refused webhook leaves no trace.  An HTTP error of the receiver is a 400, a
  413 exactly for a body over the limit, or a 401 for a vendor-scoped request while signatures are
  enforced; database and queue are as they were.\<close>

theorem refused_webhooks_leave_no_trace:
  assumes "ingest X S up tr req s = (Inl (HTTPException code why), s')"
  shows "s' = s \<and> code \<in> {400, 401, 413} \<and>
     (code = 413 \<longleftrightarrow> rq_body req \<noteq> [] \<and> rs_max_bytes S < length (rq_body req)) \<and>
     (code = 401 \<longrightarrow> rs_enforce S \<and> rq_vendor req \<noteq> None)"
  using assms
proof (cases rule: ingest_cases)
  case (refused e)
  from refused(1) have e: "e = HTTPException code why" by simp
  from refused(3) show ?thesis
  proof (elim disjE exE conjE)
    assume "parse_body X S (rq_body req) = Inl e"
    from parse_body_error [OF this] obtain c y where "e = HTTPException c y" "c \<in> {400, 413}"
      "c = 413 \<longleftrightarrow> rq_body req \<noteq> [] \<and> rs_max_bytes S < length (rq_body req)" by blast
    moreover from this(1) e have "code = c" by simp
    moreover have "code \<noteq> 401" using calculation(2) \<open>code = c\<close> by auto
    ultimately show ?thesis using refused(2) by blast
  next
    fix payload
    assume "parse_body X S (rq_body req) = Inr payload" "verify_signature X S req = Inl e"
    from parse_body_size [OF this(1)] verify_signature_error [OF this(2) [unfolded e]] refused(2)
    show ?thesis by simp
  qed
qed simp_all

section \<open>What an accepted request has shown\<close>

lemma scoped_signature:
  assumes "verify_signature X S (req\<lparr>rq_vendor := Some vendor\<rparr>) = Inr v" "vendor \<noteq> []"
    and "map_of (rs_secrets S) vendor = Some secret" "secret \<noteq> []" "rs_enforce S"
  shows "v \<and> (\<exists>supplied. header req (rs_signature_header S) = Some supplied \<and>
     lower (supplied_digest supplied) = lower (x_hmac X secret (rq_body req)))"
  using assms
  by (auto simp: verify_signature_def or_str_def header_def compare_digest_def bindE_eq_Inr
      split: option.splits if_splits)

text \<open>C14: enforced signatures are checked.  With a non-empty secret configured for the vendor and enforcement
  on, a request to the vendor's path is answered only if its signature header holds, up to an \<open>sha256=\<close>
  prefix, white space and letter case, the HMAC of the exact body under that secret; when the request is new,
  the row that is stored is marked verified and carries the vendor.\<close>

theorem enforced_signatures_are_checked:
  assumes "receive_vendor X S up tr vendor req s = (Inr rp, s')" "vendor \<noteq> []"
    and "map_of (rs_secrets S) vendor = Some secret" "secret \<noteq> []" "rs_enforce S"
  shows "(\<exists>supplied. header req (rs_signature_header S) = Some supplied \<and>
       lower (supplied_digest supplied) = lower (x_hmac X secret (rq_body req))) \<and>
     (\<not> rp_deduplicated rp \<longrightarrow> (\<exists>row. tbl_get (raw_events (sv_db s')) (rp_event_id rp) = Some row \<and>
       rw_signature_verified row \<and> rw_vendor_id row = Some vendor))"
  using assms(1) unfolding receive_vendor_def
proof (cases rule: ingest_cases)
  case (duplicate payload v t)
  with scoped_signature [OF duplicate(2) assms(2-)] show ?thesis by simp
next
  case (accepted payload v t q)
  with scoped_signature [OF accepted(2) assms(2-)] show ?thesis
    by (simp add: with_raw_get new_raw_def)
qed simp_all

text \<open>The generic path verifies nothing.  A request without a vendor in its path is handled the
  same whatever secrets are configured and whether or not they are enforced; its row is stored
  unverified, and the vendor the worker will file it under is the one its body claims to come from.\<close>

lemma unscoped_webhooks_are_not_verified:
  assumes "parse_body X S (rq_body req) = Inr payload"
    and "\<not> event_exists (sv_db s) (delivered_id X (req\<lparr>rq_vendor := None\<rparr>) payload)"
    and "infer_vendor_id X (JObj payload) = Inr vid"
  shows "\<exists>rp s' row. receive_any X S True tr req s = (Inr rp, s') \<and> \<not> rp_deduplicated rp \<and>
     tbl_get (raw_events (sv_db s')) (rp_event_id rp) = Some row \<and> \<not> rw_signature_verified row \<and>
     rw_payload row = JObj payload \<and> event_vendor X row = Inr vid \<and>
     (\<forall>secrets b. receive_any X (S\<lparr>rs_secrets := secrets, rs_enforce := b\<rparr>) True tr req s = (Inr rp, s'))"
proof -
  let ?req = "req\<lparr>rq_vendor := None\<rparr>"
  have sig: "verify_signature X S' ?req = Inr False" for S' by (simp add: verify_signature_def or_str_def)
  have settings: "receive_any X (S\<lparr>rs_secrets := secrets, rs_enforce := b\<rparr>) True tr req s =
      receive_any X S True tr req s" for secrets b
    unfolding receive_any_def ingest_def sig by (simp add: parse_body_def)
  obtain r s' where run: "ingest X S True tr ?req s = (r, s')" by fastforce
  then show ?thesis
  proof (cases rule: ingest_cases)
    case (accepted payload' v t q)
    then have "tbl_get (raw_events (sv_db s')) (delivered_id X ?req payload) = Some (new_raw (sv_db s) ?req payload False)"
      using assms(1) sig by (simp add: with_raw_get)
    then show ?thesis
      using accepted assms(1,3) run settings
      by (simp add: receive_any_def new_raw_def event_vendor_def)
  qed (use assms sig in \<open>simp_all add: delivered_id_def vendor_event_id_def header_def\<close>)
qed

section \<open>A queue that is down\<close>

text \<open>A webhook whose enqueueing fails is stored and never enqueued.  When the queue is down after
  the row has been inserted, the sender gets an error, the row stays with status queued and there is
  no job for it; when the sender delivers again with the queue back up, it is told that the delivery
  was a duplicate, and there is still no job.\<close>

lemma lost_enqueue_is_not_repaired:
  assumes "parse_body X S (rq_body req) = Inr payload" "verify_signature X S req = Inr v"
    and "\<not> event_exists (sv_db s) (delivered_id X req payload)"
    and "ingest X S False tr req s = (r, s1)" "ingest X S True tr2 req s1 = (r2, s2)"
  shows "r = Inl ConnectionError \<and> status_of (sv_db s1) (delivered_id X req payload) = Some Queued \<and>
     sv_queue s1 = sv_queue s \<and> s2 = s1 \<and> (\<exists>rp. r2 = Inr rp \<and> rp_deduplicated rp)"
proof -
  have first: "r = Inl ConnectionError \<and>
      s1 = set_db (with_raw (delivered_id X req payload) (new_raw (sv_db s) req payload v) (sv_db s)) s"
    using assms(4) by (cases rule: ingest_cases) (use assms(1-3) in auto)
  then have row: "tbl_get (raw_events (sv_db s1)) (delivered_id X req payload) =
      Some (new_raw (sv_db s) req payload v)"
    using assms(3) by (simp add: with_raw_get)
  then have "event_exists (sv_db s1) (delivered_id X req payload)" by (simp add: event_exists_def)
  with assms(5) have "s2 = s1 \<and> (\<exists>rp. r2 = Inr rp \<and> rp_deduplicated rp)"
    by (cases rule: ingest_cases) (use assms(1,2) in auto)
  then show ?thesis using first row by (simp add: status_of_def new_raw_def)
qed

section \<open>Examples\<close>

text \<open>A decoder that reads any body as the text of one field.\<close>

definition sample_RX :: externals where
  "sample_RX = sample_X\<lparr>x_loads := \<lambda>s. Some (JObj [(''carrier_scac'', JStr s)])\<rparr>"

definition sample_S :: receiver_settings where
  "sample_S = \<lparr>rs_max_bytes = 100, rs_secrets = [(''maersk'', ''key'')],
     rs_signature_header = ''X-Signature'', rs_enforce = True\<rparr>"

definition sample_rq :: request where
  "sample_rq = \<lparr>rq_body = ''MAEU'', rq_headers = [(''x-signature'', ''sha256=keymaeu'')], rq_vendor = None\<rparr>"

definition sample_sv :: service where
  "sample_sv = \<lparr>sv_world = \<lparr>wdb = empty_db, wcalls = 0\<rparr>, sv_queue = \<lparr>jq_jobs = [], jq_results = [], jq_tries = []\<rparr>\<rparr>"

definition sample_accept :: "response result \<times> service" where
  "sample_accept = receive_vendor sample_RX sample_S True ''t'' ''maersk'' sample_rq sample_sv"

lemma refused_webhooks_leave_no_trace_witness:
  "snd (ingest sample_RX sample_S True ''t'' (sample_rq\<lparr>rq_vendor := Some ''maersk'', rq_headers := []\<rparr>) sample_sv) = sample_sv"
proof -
  let ?run = "ingest sample_RX sample_S True ''t'' (sample_rq\<lparr>rq_vendor := Some ''maersk'', rq_headers := []\<rparr>) sample_sv"
  have "fst ?run = Inl (HTTPException 401 ''missing signature'')" by code_simp
  then have "?run = (Inl (HTTPException 401 ''missing signature''), snd ?run)" by (metis prod.collapse)
  from refused_webhooks_leave_no_trace [OF this] show ?thesis by simp
qed

lemma enforced_signatures_are_checked_witness:
  "\<exists>rp. fst sample_accept = Inr rp \<and> (\<exists>row. tbl_get (raw_events (sv_db (snd sample_accept))) (rp_event_id rp) = Some row \<and>
     rw_signature_verified row)"
proof -
  have "is_ok (fst sample_accept)" "\<not> rp_deduplicated (projr (fst sample_accept))" by code_simp+
  then obtain rp where rp: "fst sample_accept = Inr rp" "\<not> rp_deduplicated rp" by (auto simp: is_ok_iff)
  then have "receive_vendor sample_RX sample_S True ''t'' ''maersk'' sample_rq sample_sv = (Inr rp, snd sample_accept)"
    by (metis prod.collapse sample_accept_def)
  from enforced_signatures_are_checked [OF this, of "''key''"] rp show ?thesis by (auto simp: sample_S_def)
qed

lemma unscoped_webhooks_are_not_verified_witness:
  "\<exists>rp s' row. receive_any sample_RX sample_S True ''t'' sample_rq sample_sv = (Inr rp, s') \<and>
     tbl_get (raw_events (sv_db s')) (rp_event_id rp) = Some row \<and> event_vendor sample_RX row = Inr ''maersk''"
proof -
  have "parse_body sample_RX sample_S (rq_body sample_rq) = Inr [(''carrier_scac'', JStr ''MAEU'')]"
    "\<not> event_exists (sv_db sample_sv) (delivered_id sample_RX (sample_rq\<lparr>rq_vendor := None\<rparr>) [(''carrier_scac'', JStr ''MAEU'')])"
    "infer_vendor_id sample_RX (JObj [(''carrier_scac'', JStr ''MAEU'')]) = Inr ''maersk''"
    by code_simp+
  from unscoped_webhooks_are_not_verified [OF this, of "''t''"] show ?thesis by blast
qed

lemma lost_enqueue_is_not_repaired_witness:
  "fst (ingest sample_RX sample_S False ''t'' sample_rq sample_sv) = Inl ConnectionError \<and>
   jq_jobs (sv_queue (snd (ingest sample_RX sample_S False ''t'' sample_rq sample_sv))) = []"
proof -
  let ?p = "[(''carrier_scac'', JStr ''MAEU'')]"
  have "parse_body sample_RX sample_S (rq_body sample_rq) = Inr ?p"
    "verify_signature sample_RX sample_S sample_rq = Inr False"
    "\<not> event_exists (sv_db sample_sv) (delivered_id sample_RX sample_rq ?p)"
    by code_simp+
  from lost_enqueue_is_not_repaired [OF this surjective_pairing surjective_pairing, of "''t''" "''t''"]
  show ?thesis by (simp add: sample_sv_def)
qed

end
