(* ===== verification/Service.thy ===== *)
theory Service
  imports Receiver
begin

text \<open>
  The running service: the receiver, the queue and the worker as one transition system.  A step is a
  delivery, a job that the worker runs to its end, a job whose worker dies before it has reported the
  end, the giving up of a job that has used up its tries, the expiry of a kept result, or the passing of
  time.  arq runs a job whose worker died again, as long as it was started fewer than
  \<open>max_tries\<close> times (\<open>WorkerSettings.max_tries\<close>, by default 5); after that it takes the job from the queue
  without running it.  Jobs are steps as a
  whole here; \<open>Interleaving\<close> takes them apart.  \<open>reliable\<close> says that the
  queue is up whenever the receiver enqueues.
\<close>

section \<open>Steps\<close>

definition end_job :: "string \<Rightarrow> job_queue \<Rightarrow> job_queue" where
  "end_job jid q = q\<lparr>jq_jobs := filter (\<lambda>(k, j). k \<noteq> jid) (jq_jobs q), jq_results := jid # jq_results q\<rparr>"

definition max_tries :: nat where
  "max_tries = 5"

definition tries :: "job_queue \<Rightarrow> string \<Rightarrow> nat" where
  "tries q jid = count_list (jq_tries q) jid"

definition start_job :: "string \<Rightarrow> job_queue \<Rightarrow> job_queue" where
  "start_job jid q = q\<lparr>jq_tries := jid # jq_tries q\<rparr>"

definition run_job :: "externals \<Rightarrow> fallback \<Rightarrow> string \<Rightarrow> service \<Rightarrow> service" where
  "run_job X F eid s = s\<lparr>sv_world := snd (process_webhook X F eid (sv_world s))\<rparr>"

definition work_job :: "externals \<Rightarrow> fallback \<Rightarrow> string \<Rightarrow> string \<Rightarrow> service \<Rightarrow> service" where
  "work_job X F jid eid s = (run_job X F eid s)\<lparr>sv_queue := end_job jid (start_job jid (sv_queue s))\<rparr>"

text \<open>The worker dies after the last statement of the job and before its report.\<close>

definition unreported_job :: "externals \<Rightarrow> fallback \<Rightarrow> string \<Rightarrow> string \<Rightarrow> service \<Rightarrow> service" where
  "unreported_job X F jid eid s = (run_job X F eid s)\<lparr>sv_queue := start_job jid (sv_queue s)\<rparr>"

definition reported :: "string \<Rightarrow> service \<Rightarrow> service" where
  "reported jid s = s\<lparr>sv_queue := end_job jid (sv_queue s)\<rparr>"

inductive service_step :: "externals \<Rightarrow> receiver_settings \<Rightarrow> fallback \<Rightarrow> bool \<Rightarrow> service \<Rightarrow> service \<Rightarrow> bool"
  for X S F reliable
where
  deliver: "ingest X S up tr req s = (r, s') \<Longrightarrow> (reliable \<Longrightarrow> up) \<Longrightarrow> service_step X S F reliable s s'"
| work: "tbl_get (jq_jobs (sv_queue s)) jid = Some (eid, tr) \<Longrightarrow> tries (sv_queue s) jid < max_tries \<Longrightarrow>
    service_step X S F reliable s (work_job X F jid eid s)"
| work_again: "tbl_get (jq_jobs (sv_queue s)) jid = Some (eid, tr) \<Longrightarrow> tries (sv_queue s) jid < max_tries \<Longrightarrow>
    service_step X S F reliable s (unreported_job X F jid eid s)"
| give_up: "tbl_get (jq_jobs (sv_queue s)) jid = Some (eid, tr) \<Longrightarrow> max_tries \<le> tries (sv_queue s) jid \<Longrightarrow>
    service_step X S F reliable s (reported jid s)"
| expire: "service_step X S F reliable s
    (s\<lparr>sv_queue := (sv_queue s)\<lparr>jq_results := removeAll jid (jq_results (sv_queue s))\<rparr>\<rparr>)"
| tick: "service_step X S F reliable s (set_db ((sv_db s)\<lparr>clock := clock (sv_db s) + int n\<rparr>) s)"

definition service_start :: "service \<Rightarrow> bool" where
  "service_start s \<longleftrightarrow> raw_events (sv_db s) = [] \<and> worker_ok (sv_db s) \<and>
     jq_jobs (sv_queue s) = [] \<and> jq_results (sv_queue s) = []"

definition service_reaches :: "externals \<Rightarrow> receiver_settings \<Rightarrow> fallback \<Rightarrow> bool \<Rightarrow> service \<Rightarrow> service \<Rightarrow> bool" where
  "service_reaches X S F reliable = (service_step X S F reliable)\<^sup>*\<^sup>*"

text \<open>A contract kept by every step is kept by every run.\<close>

locale run_relation = step_relation rel for rel :: "'s \<Rightarrow> 's \<Rightarrow> bool" +
  fixes step :: "'s \<Rightarrow> 's \<Rightarrow> bool"
  assumes step_rel: "step s s' \<Longrightarrow> rel s s'"
begin

lemma run_rel: "step\<^sup>*\<^sup>* s s' \<Longrightarrow> rel s s'"
  by (induction rule: rtranclp_induct) (auto intro: rel_refl rel_trans step_rel)

end

section \<open>Invariants\<close>

definition jobs_ok :: "db \<Rightarrow> job_queue \<Rightarrow> bool" where
  "jobs_ok d q \<longleftrightarrow> distinct (map fst (jq_jobs q)) \<and>
     (\<forall>(jid, (eid, tr)) \<in> set (jq_jobs q). jid = job_id eid \<and> event_exists d eid) \<and>
     (\<forall>jid \<in> set (jq_results q). \<exists>eid. jid = job_id eid \<and> event_exists d eid)"

definition service_ok :: "service \<Rightarrow> bool" where
  "service_ok s \<longleftrightarrow> worker_ok (sv_db s) \<and> jobs_ok (sv_db s) (sv_queue s)"

definition waiting :: "service \<Rightarrow> string \<Rightarrow> bool" where
  "waiting s eid \<longleftrightarrow> tbl_get (jq_jobs (sv_queue s)) (job_id eid) \<noteq> None"

abbreviation used_up :: "job_queue \<Rightarrow> string \<Rightarrow> bool" where
  "used_up q eid \<equiv> max_tries \<le> tries q (job_id eid)"

definition none_lost :: "service \<Rightarrow> bool" where
  "none_lost s \<longleftrightarrow> (\<forall>eid. status_of (sv_db s) eid = Some Queued \<longrightarrow> waiting s eid \<or> used_up (sv_queue s) eid)"

text \<open>What was stored stays: the rows of the log keep everything but their verdict.\<close>

definition log_extends :: "db \<Rightarrow> db \<Rightarrow> bool" where
  "log_extends d d' \<longleftrightarrow> (\<forall>e row. tbl_get (raw_events d) e = Some row \<longrightarrow>
     (\<exists>row'. tbl_get (raw_events d') e = Some row' \<and> raw_core row' = raw_core row))"

lemma job_id_eq [simp]: "job_id a = job_id b \<longleftrightarrow> a = b"
  by (simp add: job_id_def)

lemma log_extends_refl: "log_extends d d"
  by (simp add: log_extends_def)

lemma log_extends_trans: "log_extends d e \<Longrightarrow> log_extends e f \<Longrightarrow> log_extends d f"
  unfolding log_extends_def by metis

lemma log_extends_exists: "log_extends d d' \<Longrightarrow> event_exists d e \<Longrightarrow> event_exists d' e"
  by (fastforce simp: log_extends_def event_exists_def)

lemma raw_log_get: "map_of (raw_log d) e = map_option raw_core (tbl_get (raw_events d) e)"
proof -
  have "map_of (map (\<lambda>(k, r). (k, f r)) t) e = map_option f (map_of t e)" for f :: "'a \<Rightarrow> 'b" and t
    by (induction t) auto
  then show ?thesis by (simp add: raw_log_def tbl_get_def)
qed

lemma log_extends_same: "raw_log d' = raw_log d \<Longrightarrow> log_extends d d'"
  using raw_log_get [of d] raw_log_get [of d'] unfolding log_extends_def
  by (metis (no_types, lifting) map_option_eq_Some)

lemma with_raw_extends: "log_extends d (with_raw eid row d)"
  by (auto simp: log_extends_def with_raw_def table_simps split: option.splits)

lemma worker_ok_mono:
  assumes "worker_ok d" "log_extends d d'" "projection_of d' = projection_of d"
    "vendor_schemas d' = vendor_schemas d" "next_schema_id d' = next_schema_id d" "llm_cache d' = llm_cache d"
  shows "worker_ok d'"
proof -
  have "entity_exists d' = entity_exists d"
    using assms(3) by (simp add: fun_eq_iff entity_exists_def projection_of_def)
  then have "db_ok d'"
    using assms(1,3) log_extends_exists [OF assms(2)]
    by (auto simp: worker_ok_def db_ok_defs projection_of_def)
  then show ?thesis using assms schemas_ok_cong [OF assms(4,5)] cache_ok_cong [OF assms(6)]
    by (simp add: worker_ok_def)
qed

lemma worker_ok_with_raw: "worker_ok d \<Longrightarrow> worker_ok (with_raw eid row d)"
  by (rule worker_ok_mono [OF _ with_raw_extends]) (simp_all add: with_raw_def projection_of_def)

lemma jobs_ok_mono: "jobs_ok d q \<Longrightarrow> log_extends d d' \<Longrightarrow> jobs_ok d' q"
  using log_extends_exists unfolding jobs_ok_def by fastforce

lemma enqueue_jobs_ok:
  assumes "jobs_ok d q" "event_exists d eid" "enqueue_process up eid tr q = Inr q'"
  shows "jobs_ok d q'"
  using assms tbl_distinct_insert [of "jq_jobs q" "job_id eid" "(eid, tr)"]
  by (auto simp: jobs_ok_def enqueue_process_def tbl_insert_def split: if_splits)

section \<open>Every step keeps them\<close>

lemma run_job_db:
  "log_extends (sv_db s) (sv_db (run_job X F eid s))"
  "worker_ok (sv_db s) \<Longrightarrow> worker_ok (sv_db (run_job X F eid s))"
  "e \<noteq> eid \<Longrightarrow> status_of (sv_db (run_job X F eid s)) e = status_of (sv_db s) e"
  "sv_queue (run_job X F eid s) = sv_queue s"
proof -
  have step: "db_step eid (sv_db s) (sv_db (run_job X F eid s))"
    using keeps_process_webhook [of eid "sv_world s" X F] by (simp add: run_job_def steps.keeps_def)
  then show "log_extends (sv_db s) (sv_db (run_job X F eid s))"
    by (simp add: db_step_def log_extends_same)
  from step show "worker_ok (sv_db s) \<Longrightarrow> worker_ok (sv_db (run_job X F eid s))"
    "e \<noteq> eid \<Longrightarrow> status_of (sv_db (run_job X F eid s)) e = status_of (sv_db s) e"
    by (simp_all add: db_step_def status_of_def)
qed (simp add: run_job_def)

lemma run_job_status:
  assumes "event_exists (sv_db s) eid"
  shows "\<exists>st. status_of (sv_db (run_job X F eid s)) eid = Some st \<and> st \<noteq> Queued"
  using job_verdict [OF assms surjective_pairing] by (auto simp: run_job_def)

lemma end_job_ok:
  assumes "jobs_ok d q" "tbl_get (jq_jobs q) jid = Some (eid, tr)"
  shows "jobs_ok d (end_job jid q)"
  using assms(1) tbl_get_mem [OF assms(2)] distinct_map_filter [of fst "jq_jobs q" "\<lambda>(k, j). k \<noteq> jid"]
  by (fastforce simp: jobs_ok_def end_job_def)

lemma end_job_get: "tbl_get (jq_jobs (end_job jid q)) k = (if k = jid then None else tbl_get (jq_jobs q) k)"
proof -
  have "map_of (filter (\<lambda>(k, j). k \<noteq> jid) t) k = (if k = jid then None else map_of t k)"
    for t :: "(string \<times> string \<times> string option) list"
    by (induction t) auto
  then show ?thesis by (simp add: end_job_def tbl_get_def)
qed

lemma job_names_event:
  assumes "service_ok s" "tbl_get (jq_jobs (sv_queue s)) jid = Some (eid, tr)"
  shows "jid = job_id eid \<and> event_exists (sv_db s) eid"
  using assms(1) tbl_get_mem [OF assms(2)] by (auto simp: service_ok_def jobs_ok_def)

lemma count_list_removeAll: "count_list (removeAll a xs) k = (if k = a then 0 else count_list xs k)"
  by (induction xs) auto

lemma work_job_fields: "sv_world (work_job X F jid eid s) = sv_world (run_job X F eid s)"
  "sv_queue (work_job X F jid eid s) = end_job jid (start_job jid (sv_queue s))"
  "sv_world (unreported_job X F jid eid s) = sv_world (run_job X F eid s)"
  "sv_queue (unreported_job X F jid eid s) = start_job jid (sv_queue s)"
  by (simp_all add: work_job_def unreported_job_def)

lemma reported_fields: "sv_world (reported jid v) = sv_world v" "sv_queue (reported jid v) = end_job jid (sv_queue v)"
  by (simp_all add: reported_def)

lemma tries_simps [simp]:
  "tries (end_job jid q) k = tries q k"
  "tries (start_job jid q) k = (if k = jid then Suc (tries q k) else tries q k)"
  "jq_jobs (start_job jid q) = jq_jobs q" "jq_results (start_job jid q) = jq_results q"
  "jobs_ok d (start_job jid q) = jobs_ok d q"
  "tries (q\<lparr>jq_results := rs\<rparr>) k = tries q k"
  by (auto simp: tries_def end_job_def start_job_def jobs_ok_def)

lemma enqueue_tries: "enqueue_process up eid tr q = Inr q' \<Longrightarrow>
    tries q' k = (if k = job_id eid \<and> tbl_get (jq_jobs q) k = None \<and> k \<notin> set (jq_results q) then 0 else tries q k)"
  by (auto simp: enqueue_process_def tries_def count_list_removeAll split: if_splits)

definition service_rel :: "service \<Rightarrow> service \<Rightarrow> bool" where
  "service_rel s s' \<longleftrightarrow> log_extends (sv_db s) (sv_db s') \<and> (service_ok s \<longrightarrow> service_ok s')"

lemma service_rel_ingest:
  assumes "ingest X S up tr req s = (r, s')"
  shows "service_rel s s'"
  using assms
proof (cases rule: ingest_cases)
  case (lost payload v)
  then show ?thesis
    by (auto simp: service_rel_def service_ok_def with_raw_extends worker_ok_with_raw
        intro: jobs_ok_mono [OF _ with_raw_extends])
next
  case (accepted payload v t q)
  let ?d = "with_raw (delivered_id X req payload) (new_raw (sv_db s) req payload v) (sv_db s)"
  have "event_exists ?d (delivered_id X req payload)"
    using accepted(3) by (simp add: with_raw_get event_exists_def)
  then have "jobs_ok (sv_db s) (sv_queue s) \<Longrightarrow> jobs_ok ?d q"
    using enqueue_jobs_ok [OF jobs_ok_mono [OF _ with_raw_extends] _ accepted(6)] by blast
  then show ?thesis
    using accepted by (simp add: service_rel_def service_ok_def with_raw_extends worker_ok_with_raw)
qed (simp_all add: service_rel_def log_extends_refl)

lemma service_rel_step:
  assumes "service_step X S F reliable s s'"
  shows "service_rel s s'"
  using assms
proof cases
  case (deliver up tr req r)
  from service_rel_ingest [OF deliver(1)] show ?thesis .
next
  case (work jid eid tr)
  then show ?thesis
    using run_job_db(1) [of s X F eid] run_job_db(2) [of s X F eid]
    by (auto simp: service_rel_def service_ok_def work_job_fields
        intro!: end_job_ok [OF jobs_ok_mono] dest: jobs_ok_mono)
next
  case (work_again jid eid tr)
  then show ?thesis
    using run_job_db(1) [of s X F eid] run_job_db(2) [of s X F eid]
    by (auto simp: service_rel_def service_ok_def work_job_fields intro: jobs_ok_mono)
next
  case (give_up jid eid tr)
  then show ?thesis
    by (auto simp: service_rel_def service_ok_def reported_fields log_extends_refl intro: end_job_ok)
next
  case (expire jid)
  then show ?thesis by (auto simp: service_rel_def service_ok_def jobs_ok_def log_extends_refl)
next
  case (tick n)
  have "log_extends (sv_db s) ((sv_db s)\<lparr>clock := c\<rparr>)" "worker_ok (sv_db s) \<Longrightarrow> worker_ok ((sv_db s)\<lparr>clock := c\<rparr>)" for c
    by (simp add: log_extends_def)
      (rule worker_ok_mono, simp_all add: projection_of_def log_extends_def)
  with tick show ?thesis by (auto simp: service_rel_def service_ok_def intro: jobs_ok_mono)
qed

lemma service_rel_trans: "service_rel s t \<Longrightarrow> service_rel t u \<Longrightarrow> service_rel s u"
  unfolding service_rel_def using log_extends_trans by blast

interpretation runs: run_relation service_rel "service_step X S F reliable" for X S F reliable
proof (unfold_locales, goal_cases)
  case 1
  show ?case by (simp add: service_rel_def log_extends_refl)
next
  case 2
  then show ?case by (rule service_rel_trans)
next
  case 3
  then show ?case by (rule service_rel_step)
qed

lemma service_start_ok: "service_start s \<Longrightarrow> service_ok s \<and> none_lost s"
  by (simp add: service_start_def service_ok_def jobs_ok_def none_lost_def status_of_def)

lemma reaches_ok: "service_reaches X S F reliable s s' \<Longrightarrow> service_ok s \<Longrightarrow> service_ok s'"
  using runs.run_rel unfolding service_reaches_def by (metis service_rel_def)

section \<open>Nothing is lost while the queue is up\<close>

lemma accepted_job:
  assumes "jobs_ok d q" "\<not> event_exists d eid" "enqueue_process True eid tr q = Inr q'"
  shows "tbl_get (jq_jobs q') (job_id eid) = Some (eid, tr) \<and>
     (\<forall>k. k \<noteq> job_id eid \<longrightarrow> tbl_get (jq_jobs q') k = tbl_get (jq_jobs q) k)"
proof -
  have "job_id eid \<notin> set (jq_results q)" using assms(1,2) by (auto simp: jobs_ok_def)
  moreover have "tbl_get (jq_jobs q) (job_id eid) = None"
  proof (cases "tbl_get (jq_jobs q) (job_id eid)")
    case (Some j)
    with tbl_get_mem [OF Some] assms(1,2) show ?thesis by (cases j) (auto simp: jobs_ok_def)
  qed
  ultimately show ?thesis using assms(3) by (auto simp: enqueue_process_def table_simps)
qed

lemma status_with_raw: "\<not> event_exists d eid \<Longrightarrow>
    status_of (with_raw eid row d) e = (if e = eid then Some (rw_status row) else status_of d e)"
  by (simp add: status_of_def with_raw_get)

lemma none_lost_ingest:
  assumes "ingest X S True tr req s = (r, s')" "service_ok s" "none_lost s"
  shows "none_lost s'"
  using assms(1)
proof (cases rule: ingest_cases)
  case (accepted payload v t q)
  have "jobs_ok (sv_db s) (sv_queue s)" using assms(2) by (simp add: service_ok_def)
  from accepted_job [OF this accepted(3,6)] show ?thesis
    using accepted assms(3) enqueue_tries [OF accepted(6)]
    by (simp add: none_lost_def waiting_def status_with_raw)
qed (use assms(3) in simp_all)

lemma none_lost_work:
  assumes "service_ok s" "none_lost s" "tbl_get (jq_jobs (sv_queue s)) jid = Some (eid, tr)"
  shows "none_lost (work_job X F jid eid s)" "none_lost (unreported_job X F jid eid s)"
proof -
  note job = job_names_event [OF assms(1,3)]
  then obtain st where st: "status_of (sv_db (run_job X F eid s)) eid = Some st" "st \<noteq> Queued"
    using run_job_status by blast
  then have "status_of (sv_db (run_job X F eid s)) e = Some Queued \<Longrightarrow>
      e \<noteq> eid \<and> status_of (sv_db s) e = Some Queued" for e
    using run_job_db(3) by (cases "e = eid") auto
  then show "none_lost (work_job X F jid eid s)" "none_lost (unreported_job X F jid eid s)"
    using assms(2) job by (auto simp: none_lost_def waiting_def work_job_fields end_job_get)
qed

lemma none_lost_step:
  assumes "service_step X S F True s s'" "service_ok s" "none_lost s"
  shows "none_lost s'"
  using assms(1)
proof cases
  case (deliver up tr req r)
  with none_lost_ingest [OF _ assms(2,3)] show ?thesis by simp
next
  case (work jid eid tr)
  with none_lost_work(1) [OF assms(2,3)] show ?thesis by simp
next
  case (work_again jid eid tr)
  with none_lost_work(2) [OF assms(2,3)] show ?thesis by simp
next
  case (give_up jid eid tr)
  then show ?thesis
    using assms(3) job_names_event [OF assms(2) give_up(2)]
    by (auto simp: none_lost_def waiting_def reported_fields end_job_get)
qed (use assms(3) in \<open>simp_all add: none_lost_def waiting_def status_of_def\<close>)

definition lossless :: "service \<Rightarrow> service \<Rightarrow> bool" where
  "lossless s s' \<longleftrightarrow> (service_ok s \<and> none_lost s \<longrightarrow> service_ok s' \<and> none_lost s')"

interpretation reliable: run_relation lossless "service_step X S F True" for X S F
proof (unfold_locales, goal_cases)
  case (3 s s')
  then show ?case using none_lost_step service_rel_step by (auto simp: lossless_def service_rel_def)
qed (auto simp: lossless_def)

section \<open>Working off the queue\<close>

definition take_job :: "externals \<Rightarrow> fallback \<Rightarrow> string \<Rightarrow> string \<Rightarrow> service \<Rightarrow> service" where
  "take_job X F jid eid s =
     (if tries (sv_queue s) jid < max_tries then work_job X F jid eid s else reported jid s)"

definition drain :: "externals \<Rightarrow> fallback \<Rightarrow> service \<Rightarrow> service" where
  "drain X F s = fold (\<lambda>(jid, eid, tr). take_job X F jid eid) (jq_jobs (sv_queue s)) s"

text \<open>An event that is still queued afterwards was queued before, and its waiting job, if it had one, had
  used up its tries.\<close>

definition unattended :: "service \<Rightarrow> string \<Rightarrow> bool" where
  "unattended s eid \<longleftrightarrow> status_of (sv_db s) eid = Some Queued \<and> (waiting s eid \<longrightarrow> used_up (sv_queue s) eid)"

lemma take_job_queued:
  assumes "service_ok s" "tbl_get (jq_jobs (sv_queue s)) jid = Some (eid, tr)"
    and "unattended (take_job X F jid eid s) e"
  shows "unattended s e"
proof (cases "tries (sv_queue s) jid < max_tries")
  case True
  note job = job_names_event [OF assms(1,2)]
  then have "e \<noteq> eid"
    using assms(3) True run_job_status [of s eid X F] by (auto simp: unattended_def take_job_def work_job_fields)
  with assms(3) True job show ?thesis
    by (simp add: unattended_def take_job_def work_job_fields run_job_db(3) waiting_def end_job_get)
next
  case False
  with assms(3) job_names_event [OF assms(1,2)] show ?thesis
    by (auto simp: unattended_def take_job_def reported_fields waiting_def end_job_get split: if_splits)
qed

lemma take_job_step:
  assumes "tbl_get (jq_jobs (sv_queue s)) jid = Some (eid, tr)"
  shows "service_step X S F b s (take_job X F jid eid s)"
  using service_step.work [OF assms] service_step.give_up [OF assms] by (simp add: take_job_def)

lemma drain_run:
  assumes "jq_jobs (sv_queue s) = js" "distinct (map fst js)" "service_ok s"
  shows "(service_step X S F b)\<^sup>*\<^sup>* s (fold (\<lambda>(jid, eid, tr). take_job X F jid eid) js s) \<and>
     jq_jobs (sv_queue (fold (\<lambda>(jid, eid, tr). take_job X F jid eid) js s)) = [] \<and>
     (\<forall>e. status_of (sv_db (fold (\<lambda>(jid, eid, tr). take_job X F jid eid) js s)) e = Some Queued \<longrightarrow> unattended s e)"
  using assms
proof (induction js arbitrary: s)
  case (Cons j js)
  obtain jid eid tr where j: "j = (jid, eid, tr)" by (cases j)
  let ?s = "take_job X F jid eid s"
  have job: "tbl_get (jq_jobs (sv_queue s)) jid = Some (eid, tr)" by (simp add: Cons.prems(1) j tbl_get_def)
  note step = take_job_step [OF job, of X S F b]
  have "jq_jobs (sv_queue ?s) = js"
    using Cons.prems j by (force simp: take_job_def work_job_fields reported_fields end_job_def start_job_def intro: filter_True)
  moreover have "service_ok ?s" using service_rel_step [OF step] Cons.prems(3) by (simp add: service_rel_def)
  moreover have "distinct (map fst js)" using Cons.prems(2) by simp
  ultimately have ih: "(service_step X S F b)\<^sup>*\<^sup>* ?s (fold (\<lambda>(jid, eid, tr). take_job X F jid eid) js ?s)"
      "jq_jobs (sv_queue (fold (\<lambda>(jid, eid, tr). take_job X F jid eid) js ?s)) = []"
      "status_of (sv_db (fold (\<lambda>(jid, eid, tr). take_job X F jid eid) js ?s)) e = Some Queued \<Longrightarrow> unattended ?s e" for e
    using Cons.IH [of ?s] by blast+
  from ih(3) have "status_of (sv_db (fold (\<lambda>(jid, eid, tr). take_job X F jid eid) js ?s)) e = Some Queued \<Longrightarrow>
      unattended s e" for e
    using take_job_queued [OF Cons.prems(3) job] by blast
  with ih(1,2) step show ?case by (simp add: j converse_rtranclp_into_rtranclp)
qed (simp add: unattended_def waiting_def tbl_get_def)

lemma drained:
  assumes "service_ok s"
  shows "(service_step X S F b)\<^sup>*\<^sup>* s (drain X F s)" "jq_jobs (sv_queue (drain X F s)) = []"
    "status_of (sv_db (drain X F s)) eid = Some Queued \<Longrightarrow> unattended s eid"
  using drain_run [OF refl _ assms, of X S F b] assms by (simp_all add: drain_def service_ok_def jobs_ok_def)

section \<open>Guarantees of the service\<close>

text \<open>No webhook is lost while the queue is up.  From an empty log, whatever is delivered and in
  whatever order jobs run, are repeated or fail, every event that is still queued has a job that
  waits for it, and the job names that event, unless its job was started \<open>max_tries\<close> times.\<close>

lemma no_webhook_is_lost:
  assumes "service_start s0" "service_reaches X S F True s0 s" "status_of (sv_db s) eid = Some Queued"
  shows "(\<exists>tr. tbl_get (jq_jobs (sv_queue s)) (job_id eid) = Some (eid, tr)) \<or> used_up (sv_queue s) eid"
proof -
  have ok: "service_ok s \<and> none_lost s"
    using service_start_ok [OF assms(1)] reliable.run_rel [of X S F s0 s] assms(2)
    by (simp add: service_reaches_def lossless_def)
  then consider e tr where "tbl_get (jq_jobs (sv_queue s)) (job_id eid) = Some (e, tr)" | "used_up (sv_queue s) eid"
    using assms(3) by (auto simp: none_lost_def waiting_def)
  then show ?thesis
  proof cases
    case (1 e tr)
    with job_names_event [OF _ 1] ok show ?thesis by auto
  qed simp
qed

text \<open>The queue can always be worked off.  From any state the service reaches with the queue up, taking the
  waiting jobs one after the other is a run of the service that ends with an empty queue and a verdict on
  every stored event whose job had a try left.\<close>

lemma draining_leaves_nothing_queued:
  assumes "service_start s0" "service_reaches X S F True s0 s"
  shows "service_reaches X S F True s (drain X F s) \<and> jq_jobs (sv_queue (drain X F s)) = [] \<and>
     (\<forall>eid. event_exists (sv_db (drain X F s)) eid \<longrightarrow> \<not> used_up (sv_queue s) eid \<longrightarrow>
        (\<exists>st. status_of (sv_db (drain X F s)) eid = Some st \<and> st \<noteq> Queued))"
proof -
  have ok: "service_ok s \<and> none_lost s"
    using service_start_ok [OF assms(1)] reliable.run_rel [of X S F s0 s] assms(2)
    by (simp add: service_reaches_def lossless_def)
  then have "status_of (sv_db (drain X F s)) eid \<noteq> Some Queued" if "\<not> used_up (sv_queue s) eid" for eid
    using drained(3) [of s X F eid] ok that unfolding unattended_def none_lost_def by blast
  then show ?thesis
    using drained(1,2) ok by (auto simp: service_reaches_def event_exists_def status_of_def)
qed

text \<open>The log of raw events is append-only.  Whatever the service does, queue up or down, the
  payload, headers, time of receipt and signature flag of a stored event never change, the event
  never disappears, and the database invariants hold.\<close>

lemma the_log_is_append_only:
  assumes "service_reaches X S F reliable s s'" "service_ok s"
  shows "log_extends (sv_db s) (sv_db s') \<and> service_ok s'"
  using runs.run_rel assms unfolding service_reaches_def service_rel_def by blast

text \<open>C9: a redelivery is absorbed at any later time.  When a request has been answered, then after
  whatever the service has done since, a request whose document is the same up to the order of object
  keys and which carries the same vendor event id is answered with the same event id as a duplicate,
  and changes nothing.\<close>

theorem redelivery_is_absorbed:
  assumes "orjson_laws X" "ingest X S up tr req s = (Inr rp, s1)"
    and "service_reaches X S F reliable s1 s2"
    and "parse_body X S (rq_body req) = Inr p" "parse_body X S (rq_body req') = Inr q"
    and "reordered (JObj p) (JObj q)" "vendor_event_id req' q = vendor_event_id req p"
    and "verify_signature X S req' = Inr v"
  shows "\<exists>rp'. ingest X S up' tr' req' s2 = (Inr rp', s2) \<and> rp_deduplicated rp' \<and>
     rp_event_id rp' = rp_event_id rp"
proof -
  have id: "delivered_id X req' q = delivered_id X req p"
    using event_id_ignores_key_order [OF assms(1,6)] assms(7) by (simp add: delivered_id_def)
  have "rp_event_id rp = delivered_id X req p \<and> event_exists (sv_db s1) (delivered_id X req p)"
    using assms(2)
  proof (cases rule: ingest_cases)
    case (accepted payload v t q')
    then show ?thesis using assms(4) by (simp add: event_exists_def with_raw_get)
  qed (use assms(4) in auto)
  moreover have "log_extends (sv_db s1) (sv_db s2)"
    using runs.run_rel assms(3) unfolding service_reaches_def service_rel_def by blast
  ultimately have seen: "rp_event_id rp = delivered_id X req' q" "event_exists (sv_db s2) (delivered_id X req' q)"
    using log_extends_exists by (auto simp: id)
  obtain r s' where run: "ingest X S up' tr' req' s2 = (r, s')" by fastforce
  then show ?thesis by (cases rule: ingest_cases) (use run assms(5,8) seen in auto)
qed

text \<open>C13: an accepted webhook is stored and queued.  When the receiver accepts a request as new while
  the queue is up, the row under the answered id is exactly the delivery (document, kept headers,
  vendor of the path, time, queued), a job for it waits, and no other row or job has changed.\<close>

theorem accepted_webhook_is_stored_and_queued:
  assumes "service_ok s" "ingest X S True tr req s = (Inr rp, s')" "\<not> rp_deduplicated rp"
  shows "\<exists>payload v. x_loads X (rq_body req) = Some (JObj payload) \<and> verify_signature X S req = Inr v \<and>
     rp_event_id rp = delivered_id X req payload \<and>
     tbl_get (raw_events (sv_db s')) (rp_event_id rp) = Some (new_raw (sv_db s) req payload v) \<and>
     tbl_get (jq_jobs (sv_queue s')) (job_id (rp_event_id rp)) = Some (rp_event_id rp, Some (rp_trace_id rp)) \<and>
     (\<forall>e. e \<noteq> rp_event_id rp \<longrightarrow> tbl_get (raw_events (sv_db s')) e = tbl_get (raw_events (sv_db s)) e \<and>
        tbl_get (jq_jobs (sv_queue s')) (job_id e) = tbl_get (jq_jobs (sv_queue s)) (job_id e))"
  using assms(2)
proof (cases rule: ingest_cases)
  case (accepted payload v t q)
  have "jobs_ok (sv_db s) (sv_queue s)" using assms(1) by (simp add: service_ok_def)
  note job = accepted_job [OF this accepted(3,6)]
  have "x_loads X (rq_body req) = Some (JObj payload)"
    using accepted(1) by (auto simp: parse_body_def split: if_splits option.splits json.splits)
  with accepted job show ?thesis by (simp add: with_raw_get)
qed (use assms(3) in simp_all)

section \<open>Examples\<close>

definition accepted_rq :: request where
  "accepted_rq = sample_rq\<lparr>rq_vendor := Some ''maersk''\<rparr>"

definition accepted_sv :: service where
  "accepted_sv = snd (ingest sample_RX sample_S True ''t'' accepted_rq sample_sv)"

definition accepted_rp :: response where
  "accepted_rp = projr (fst (ingest sample_RX sample_S True ''t'' accepted_rq sample_sv))"

lemma accepted_run: "ingest sample_RX sample_S True ''t'' accepted_rq sample_sv = (Inr accepted_rp, accepted_sv)"
proof -
  have "is_ok (fst (ingest sample_RX sample_S True ''t'' accepted_rq sample_sv))" by code_simp
  then show ?thesis by (auto simp: is_ok_iff accepted_rp_def accepted_sv_def prod_eq_iff)
qed

lemma sample_start: "service_start sample_sv"
  by code_simp

lemma accepted_reached: "service_reaches sample_RX sample_S any_F True sample_sv accepted_sv"
  unfolding service_reaches_def by (rule r_into_rtranclp) (rule service_step.deliver [OF accepted_run])

lemma accepted_stored: "event_exists (sv_db accepted_sv) (rp_event_id accepted_rp)"
  "status_of (sv_db accepted_sv) (rp_event_id accepted_rp) = Some Queued" "\<not> rp_deduplicated accepted_rp"
  by code_simp+

lemma no_webhook_is_lost_witness:
  "(\<exists>tr. tbl_get (jq_jobs (sv_queue accepted_sv)) (job_id (rp_event_id accepted_rp)) =
     Some (rp_event_id accepted_rp, tr)) \<or> used_up (sv_queue accepted_sv) (rp_event_id accepted_rp)"
  by (rule no_webhook_is_lost [OF sample_start accepted_reached accepted_stored(2)])

lemma draining_leaves_nothing_queued_witness:
  "jq_jobs (sv_queue (drain sample_RX any_F accepted_sv)) = []"
  using draining_leaves_nothing_queued [OF sample_start accepted_reached] by blast

lemma the_log_is_append_only_witness: "service_ok accepted_sv \<and> log_extends (sv_db sample_sv) (sv_db accepted_sv)"
  using the_log_is_append_only [OF accepted_reached] service_start_ok [OF sample_start] by blast

lemma sample_RX_orjson: "orjson_laws sample_RX"
  using sample_X_orjson by (simp add: orjson_laws_def sample_RX_def)

lemma redelivery_is_absorbed_witness:
  "\<exists>rp. ingest sample_RX sample_S False ''u'' accepted_rq accepted_sv = (Inr rp, accepted_sv) \<and> rp_deduplicated rp"
proof -
  let ?p = "[(''carrier_scac'', JStr ''MAEU'')]"
  have "parse_body sample_RX sample_S (rq_body accepted_rq) = Inr ?p"
    "verify_signature sample_RX sample_S accepted_rq = Inr True" by code_simp+
  moreover have "service_reaches sample_RX sample_S any_F False accepted_sv accepted_sv"
    by (simp add: service_reaches_def)
  moreover have "reordered (JObj ?p) (JObj ?p)" by (auto intro!: reordered.intros)
  ultimately show ?thesis
    using redelivery_is_absorbed [OF sample_RX_orjson accepted_run] by blast
qed

lemma accepted_webhook_is_stored_and_queued_witness:
  "tbl_get (jq_jobs (sv_queue accepted_sv)) (job_id (rp_event_id accepted_rp)) \<noteq> None"
  using accepted_webhook_is_stored_and_queued [OF _ accepted_run accepted_stored(3)]
    service_start_ok [OF sample_start] by auto

end
