(* ===== verification/Replay.thy ===== *)
theory Replay
  imports Service
begin

text \<open>
  \<open>app/tools/replay.py\<close>: the slice of the raw log that a replay selects, the truncation of the
  projection, and the two modes, inline and through the queue.  \<open>since\<close> and \<open>until\<close> are instants.
  Postgres compares ids in an order that agrees with that of the bytes on the hexadecimal ids of this
  program.  The text Postgres gives a float, an array or an object is a parameter \<open>pg\<close>.
\<close>

section \<open>The slice\<close>

text \<open>\<open>v ->> k\<close> and \<open>v -> k\<close> on \<open>jsonb\<close>.\<close>

definition json_text :: "(json \<Rightarrow> string) \<Rightarrow> json \<Rightarrow> string option" where
  "json_text pg v = (case v of
       JNull \<Rightarrow> None | JStr s \<Rightarrow> Some s | JBool b \<Rightarrow> Some (if b then ''true'' else ''false'')
     | JInt i \<Rightarrow> Some (int_str i) | _ \<Rightarrow> Some (pg v))"

definition field_of :: "json \<Rightarrow> string \<Rightarrow> json" where
  "field_of v k = (case v of JObj kvs \<Rightarrow> jget kvs k | _ \<Rightarrow> JNull)"

definition field_text :: "(json \<Rightarrow> string) \<Rightarrow> json \<Rightarrow> string \<Rightarrow> string option" where
  "field_text pg v k = json_text pg (field_of v k)"

record replay_args =
  ra_vendor :: "string option"
  ra_since :: "int option"
  ra_until :: "int option"
  ra_external_id :: "string option"
  ra_truncate :: bool
  ra_mode :: string
  ra_limit :: "int option"

definition replay_matches :: "(json \<Rightarrow> string) \<Rightarrow> replay_args \<Rightarrow> raw_row \<Rightarrow> bool" where
  "replay_matches pg a row \<longleftrightarrow>
     (case ra_vendor a of None \<Rightarrow> True | Some v \<Rightarrow> rw_vendor_id row = Some v) \<and>
     (case ra_since a of None \<Rightarrow> True | Some t \<Rightarrow> t \<le> rw_received_at row) \<and>
     (case ra_until a of None \<Rightarrow> True | Some t \<Rightarrow> rw_received_at row < t) \<and>
     (case ra_external_id a of None \<Rightarrow> True
      | Some x \<Rightarrow>
          let p = rw_payload row in
          field_text pg (field_of p ''transport_doc'') ''number'' = Some x \<or>
          field_text pg p ''container'' = Some x \<or>
          field_text pg p ''house_bl'' = Some x \<or>
          field_text pg p ''master_bl'' = Some x \<or>
          field_text pg p ''doc_ref'' = Some x \<or>
          field_text pg p ''tracking_number'' = Some x)"

definition replay_order :: "string \<times> raw_row \<Rightarrow> int \<times> string" where
  "replay_order er = (rw_received_at (snd er), fst er)"

definition replay_slice :: "(json \<Rightarrow> string) \<Rightarrow> replay_args \<Rightarrow> db \<Rightarrow> (string \<times> raw_row) list" where
  "replay_slice pg a d = sort_key replay_order (filter (\<lambda>(e, row). replay_matches pg a row) (raw_events d))"

text \<open>A negative \<open>LIMIT\<close> is an error of Postgres.\<close>

definition select_replay :: "(json \<Rightarrow> string) \<Rightarrow> replay_args \<Rightarrow> db \<Rightarrow> string list result" where
  "select_replay pg a d = (case ra_limit a of
       None \<Rightarrow> Inr (map fst (replay_slice pg a d))
     | Some n \<Rightarrow> if n < 0 then Inl DataError else Inr (take (nat n) (map fst (replay_slice pg a d))))"

section \<open>Truncation\<close>

definition truncate_projections :: "db \<Rightarrow> db" where
  "truncate_projections d = d\<lparr>requires_human_review := [], canonical_events := [], stale_event_log := [],
     applied_events := [], shipments := [], invoices := [], entities := [],
     raw_events := map (\<lambda>(e, r). (e, r\<lparr>rw_status := Queued, rw_error := None, rw_processed_at := None\<rparr>))
       (raw_events d)\<rparr>"

section \<open>The two modes\<close>

fun replay_inline :: "externals \<Rightarrow> fallback \<Rightarrow> string list \<Rightarrow> world \<Rightarrow> unit result \<times> world" where
  "replay_inline X F [] w = (Inr (), w)"
| "replay_inline X F (e # es) w = andthen (process_event X F e w) (\<lambda>_ w. replay_inline X F es w)"

fun replay_enqueue :: "bool \<Rightarrow> string list \<Rightarrow> job_queue \<Rightarrow> unit result \<times> job_queue" where
  "replay_enqueue up [] q = (Inr (), q)"
| "replay_enqueue up (e # es) q = (case enqueue_process up e None q of
       Inl err \<Rightarrow> (Inl err, q) | Inr q' \<Rightarrow> replay_enqueue up es q')"

text \<open>The command.  Any mode but the two is refused only when the first event is enqueued on a queue
  that was never initialised.\<close>

definition replay_selected ::
  "externals \<Rightarrow> fallback \<Rightarrow> bool \<Rightarrow> string \<Rightarrow> string list \<Rightarrow> service \<Rightarrow> unit result \<times> service" where
  "replay_selected X F up mode es s =
     (if mode = ''inline'' then
        (case replay_inline X F es (sv_world s) of (r, w) \<Rightarrow> (r, s\<lparr>sv_world := w\<rparr>))
      else if mode = ''enqueue'' then
        (case replay_enqueue up es (sv_queue s) of (r, q) \<Rightarrow> (r, s\<lparr>sv_queue := q\<rparr>))
      else if es = [] then (Inr (), s)
      else (Inl RuntimeError, s))"

definition replay ::
  "externals \<Rightarrow> fallback \<Rightarrow> (json \<Rightarrow> string) \<Rightarrow> bool \<Rightarrow> replay_args \<Rightarrow> service \<Rightarrow> unit result \<times> service" where
  "replay X F pg up a s =
     (if ra_mode a = ''enqueue'' \<and> \<not> up then (Inl ConnectionError, s)
      else
        let s1 = (if ra_truncate a then set_db (truncate_projections (sv_db s)) s else s) in
        (case select_replay pg a (sv_db s1) of
           Inl e \<Rightarrow> (Inl e, s1)
         | Inr es \<Rightarrow> replay_selected X F up (ra_mode a) es s1))"

section \<open>What is selected\<close>

lemma take_sorted_before:
  assumes "sorted (map f xs)" "x \<in> set (take n xs)" "y \<in> set (drop n xs)"
  shows "f x \<le> f y"
proof -
  have "sorted (map f (take n xs) @ map f (drop n xs))"
    using assms(1) by (metis append_take_drop_id map_append)
  with assms(2,3) show ?thesis by (auto simp: sorted_append)
qed

definition replay_key :: "db \<Rightarrow> string \<Rightarrow> int \<times> string" where
  "replay_key d e = (case tbl_get (raw_events d) e of
       Some row \<Rightarrow> (rw_received_at row, e) | None \<Rightarrow> (0, e))"

text \<open>What the options of the tool promise: the vendor is the one of the row, the receipt lies in the
  half-open interval from \<open>since\<close> to \<open>until\<close>, and one of the six places of the document that may hold an
  external id holds the given one.\<close>

definition external_ids :: "(json \<Rightarrow> string) \<Rightarrow> json \<Rightarrow> string option set" where
  "external_ids pg payload = (\<lambda>path. json_text pg (foldl field_of payload path)) `
     {[''transport_doc'', ''number''], [''container''], [''house_bl''], [''master_bl''], [''doc_ref''], [''tracking_number'']}"

definition in_slice :: "(json \<Rightarrow> string) \<Rightarrow> replay_args \<Rightarrow> db \<Rightarrow> string \<Rightarrow> bool" where
  "in_slice pg a d e \<longleftrightarrow> (\<exists>row. tbl_get (raw_events d) e = Some row \<and>
     ra_vendor a \<in> {None, rw_vendor_id row} \<and>
     (\<forall>t \<in> set_option (ra_since a). t \<le> rw_received_at row) \<and>
     (\<forall>t \<in> set_option (ra_until a). rw_received_at row < t) \<and>
     (ra_external_id a = None \<or> ra_external_id a \<in> external_ids pg (rw_payload row)))"

lemma in_slice_matches: "in_slice pg a d e \<longleftrightarrow> (\<exists>row. tbl_get (raw_events d) e = Some row \<and> replay_matches pg a row)"
proof -
  have "replay_matches pg a row \<longleftrightarrow> ra_vendor a \<in> {None, rw_vendor_id row} \<and>
      (\<forall>t \<in> set_option (ra_since a). t \<le> rw_received_at row) \<and>
      (\<forall>t \<in> set_option (ra_until a). rw_received_at row < t) \<and>
      (ra_external_id a = None \<or> ra_external_id a \<in> external_ids pg (rw_payload row))" for row
    by (auto simp: replay_matches_def external_ids_def field_text_def Let_def split: option.splits)
  then show ?thesis by (simp add: in_slice_def)
qed

lemma raw_get_mem: "distinct (map fst (raw_events d)) \<Longrightarrow> (e, row) \<in> set (raw_events d) \<Longrightarrow>
    tbl_get (raw_events d) e = Some row"
  by (simp add: tbl_get_def)

lemma slice_keys:
  assumes "distinct (map fst (raw_events d))"
  shows "map (replay_key d) (map fst (replay_slice pg a d)) = map replay_order (replay_slice pg a d)"
  using raw_get_mem [OF assms]
  by (auto simp: replay_slice_def replay_key_def replay_order_def)

lemma slice_sorted:
  assumes "distinct (map fst (raw_events d))"
  shows "sorted (map (replay_key d) (map fst (replay_slice pg a d)))"
  unfolding slice_keys [OF assms] by (simp add: replay_slice_def)

lemma slice_distinct:
  assumes "distinct (map fst (raw_events d))"
  shows "distinct (map fst (replay_slice pg a d))"
proof -
  let ?fs = "filter (\<lambda>(e, row). replay_matches pg a row) (raw_events d)"
  have "distinct (map fst ?fs)" by (rule distinct_map_filter [OF assms])
  moreover have "mset (map fst (sort_key replay_order ?fs)) = mset (map fst ?fs)" by simp
  ultimately show ?thesis by (metis mset_eq_imp_distinct_iff replay_slice_def)
qed

lemma slice_set:
  assumes "distinct (map fst (raw_events d))"
  shows "e \<in> set (map fst (replay_slice pg a d)) \<longleftrightarrow> in_slice pg a d e"
  using raw_get_mem [OF assms, of e]
  by (auto simp: replay_slice_def in_slice_matches image_iff dest: tbl_get_mem)

text \<open>C21: a replay selects the oldest events of the slice.  The selected events are distinct, are in the
  slice that the options describe and come in the order of receipt, ties by id; they are never more than the
  limit, and an event of the slice is left out only because of the limit, which is then used up by events
  received before it.\<close>

theorem replay_selects_the_slice:
  assumes "distinct (map fst (raw_events d))" "select_replay pg a d = Inr es"
  shows "distinct es \<and> sorted (map (replay_key d) es) \<and> (\<forall>e \<in> set es. in_slice pg a d e) \<and>
     (\<forall>n. ra_limit a = Some n \<longrightarrow> int (length es) \<le> n) \<and>
     (\<forall>e. in_slice pg a d e \<and> e \<notin> set es \<longrightarrow>
        (\<exists>n. ra_limit a = Some n \<and> length es = nat n \<and> (\<forall>e' \<in> set es. replay_key d e' \<le> replay_key d e)))"
proof -
  let ?all = "map fst (replay_slice pg a d)"
  note slice = slice_sorted [OF assms(1), of pg a] slice_distinct [OF assms(1), of pg a] slice_set [OF assms(1)]
  show ?thesis
  proof (cases "ra_limit a")
    case None
    with assms(2) have "es = ?all" by (simp add: select_replay_def)
    with slice None show ?thesis by simp
  next
    case (Some n)
    with assms(2) have es: "es = take (nat n) ?all" "0 \<le> n" by (simp_all add: select_replay_def split: if_splits)
    then have "int (length es) \<le> n" by simp
    moreover have "sorted (map (replay_key d) es)"
      unfolding es(1) using slice(1) by (metis sorted_wrt_take take_map)
    moreover have "length es = nat n \<and> (\<forall>e' \<in> set es. replay_key d e' \<le> replay_key d e)"
      if "in_slice pg a d e" "e \<notin> set es" for e
    proof -
      have "e \<in> set (take (nat n) ?all) \<union> set (drop (nat n) ?all)"
        using slice(3) [of e pg a] that(1) by (metis append_take_drop_id set_append)
      then have e: "e \<in> set (drop (nat n) ?all)" using that(2) es(1) by auto
      then have "nat n < length ?all" by (cases "nat n < length ?all") auto
      with es(1) have "length es = nat n" by simp
      moreover have "replay_key d e' \<le> replay_key d e" if "e' \<in> set es" for e'
        using take_sorted_before [OF slice(1) _ e] that es(1) by blast
      ultimately show ?thesis by blast
    qed
    moreover have "\<forall>e \<in> set es. in_slice pg a d e"
      using slice(3) es(1) by (metis in_set_takeD)
    moreover have "distinct es" using slice(2) es(1) by (simp add: distinct_take)
    ultimately show ?thesis using Some by auto
  qed
qed

section \<open>What truncation keeps\<close>

lemma truncate_raw_get: "tbl_get (raw_events (truncate_projections d)) e =
    map_option (\<lambda>r. r\<lparr>rw_status := Queued, rw_error := None, rw_processed_at := None\<rparr>) (tbl_get (raw_events d) e)"
proof -
  have "map_of (map (\<lambda>(k, r). (k, f r)) t) e = map_option f (map_of t e)" for f :: "raw_row \<Rightarrow> raw_row" and t
    by (induction t) auto
  then show ?thesis by (simp add: truncate_projections_def tbl_get_def)
qed

lemma truncate_raw_log [simp]: "raw_log (truncate_projections d) = raw_log d"
  by (auto simp: raw_log_def truncate_projections_def raw_core_def)

lemma worker_ok_truncate: "worker_ok d \<Longrightarrow> worker_ok (truncate_projections d)"
  by (auto simp: worker_ok_def db_ok_defs truncate_projections_def schemas_ok_def cache_ok_def)

text \<open>Truncation leaves what a rebuild needs and nothing it must not find.  Everything that was
  received and everything that was learned (schemas, type map, cached answers, audit log) is kept, the
  vendor of each event too; every table of the projection is empty, no event counts as seen, every
  event is queued again, and the invariants hold.\<close>

lemma truncation_keeps_log_and_knowledge:
  assumes "worker_ok d"
  shows "raw_log (truncate_projections d) = raw_log d \<and> learned (truncate_projections d) = learned d \<and>
     worker_ok (truncate_projections d) \<and>
     projection_of (truncate_projections d) = ([], next_entity_id d, [], [], [], []) \<and>
     canonical_events (truncate_projections d) = [] \<and>
     (\<forall>e row. tbl_get (raw_events d) e = Some row \<longrightarrow>
        status_of (truncate_projections d) e = Some Queued \<and>
        map_option rw_vendor_id (tbl_get (raw_events (truncate_projections d)) e) = Some (rw_vendor_id row))"
  using worker_ok_truncate [OF assms]
  by (auto simp: status_of_def truncate_raw_get)
    (simp_all add: truncate_projections_def learned_def projection_of_def)

section \<open>What a replay keeps\<close>

lemma replay_inline_steps:
  assumes "replay_inline X F es w = (r, w')" "worker_ok (wdb w)"
  shows "raw_log (wdb w') = raw_log (wdb w) \<and> worker_ok (wdb w') \<and>
     (\<forall>e. e \<notin> set es \<longrightarrow> tbl_get (raw_events (wdb w')) e = tbl_get (raw_events (wdb w)) e)"
  using assms
proof (induction es arbitrary: w)
  case (Cons e es)
  obtain q v where run: "process_event X F e w = (q, v)" by fastforce
  have step: "db_step e (wdb w) (wdb v)" by (rule steps.keeps_run [OF keeps_process_event run])
  show ?case
  proof (cases q)
    case (Inl err)
    with Cons.prems run step show ?thesis by (auto simp: andthen_def db_step_def)
  next
    case (Inr x)
    with Cons.prems run have "replay_inline X F es v = (r, w')" by (simp add: andthen_def)
    from Cons.IH [OF this] step Cons.prems(2) show ?thesis by (simp add: db_step_def)
  qed
qed simp

lemma replay_enqueue_jobs_ok:
  assumes "replay_enqueue up es q = (r, q')" "jobs_ok d q" "\<forall>e \<in> set es. event_exists d e"
  shows "jobs_ok d q'"
  using assms
  by (induction es arbitrary: q) (auto split: sum.splits dest: enqueue_jobs_ok)

lemma selected_exist:
  assumes "select_replay pg a d = Inr es" "e \<in> set es"
  shows "event_exists d e"
proof -
  have "e \<in> fst ` set (raw_events d)"
    using assms by (auto simp: select_replay_def replay_slice_def dest!: in_set_takeD split: option.splits if_splits)
  then show ?thesis by (simp add: event_exists_def tbl_get_None_iff)
qed

lemma replay_selected_cases:
  assumes "replay_selected X F up mode es s = (r, s')"
  obtains (inline) w where "replay_inline X F es (sv_world s) = (r, w)" "s' = s\<lparr>sv_world := w\<rparr>"
    | (enqueue) q where "replay_enqueue up es (sv_queue s) = (r, q)" "s' = s\<lparr>sv_queue := q\<rparr>"
    | (neither) "s' = s"
proof (cases "mode = ''inline''")
  case True
  obtain q w where "replay_inline X F es (sv_world s) = (q, w)" by fastforce
  moreover from this have "r = q" "s' = s\<lparr>sv_world := w\<rparr>" using assms True by (simp_all add: replay_selected_def)
  ultimately show thesis by (auto intro: inline)
next
  case no_inline: False
  show thesis
  proof (cases "mode = ''enqueue''")
    case True
    obtain p q where "replay_enqueue up es (sv_queue s) = (p, q)" by fastforce
    moreover from this have "r = p" "s' = s\<lparr>sv_queue := q\<rparr>" using assms True by (simp_all add: replay_selected_def)
    ultimately show thesis by (auto intro: enqueue)
  next
    case False
    with no_inline assms have "s' = s" by (simp add: replay_selected_def split: if_splits)
    then show thesis by (rule neither)
  qed
qed

lemma replay_cases:
  assumes "replay X F pg up a s = (r, s')"
    and "s1 = (if ra_truncate a then set_db (truncate_projections (sv_db s)) s else s)"
  obtains (down) "s' = s" | (refused) "s' = s1"
    | (run) es where "select_replay pg a (sv_db s1) = Inr es" "replay_selected X F up (ra_mode a) es s1 = (r, s')"
proof (cases "ra_mode a = ''enqueue'' \<and> \<not> up")
  case True
  with assms(1) have "s' = s" by (simp add: replay_def)
  then show thesis by (rule down)
next
  case False
  then have eq: "(case select_replay pg a (sv_db s1) of Inl e \<Rightarrow> (Inl e, s1)
      | Inr es \<Rightarrow> replay_selected X F up (ra_mode a) es s1) = (r, s')"
    using assms(1) unfolding assms(2) replay_def Let_def by (simp only: if_False)
  show thesis
  proof (cases "select_replay pg a (sv_db s1)")
    case (Inl e)
    with eq have "s' = s1" by simp
    then show thesis by (rule refused)
  next
    case (Inr es)
    with eq have "replay_selected X F up (ra_mode a) es s1 = (r, s')" by simp
    with Inr show thesis by (rule run)
  qed
qed

lemma replay_selected_keeps:
  assumes "replay_selected X F up mode es s = (r, s')" "service_ok s" "\<forall>e \<in> set es. event_exists (sv_db s) e"
  shows "raw_log (sv_db s') = raw_log (sv_db s) \<and> service_ok s' \<and>
     (\<forall>e. e \<notin> set es \<longrightarrow> tbl_get (raw_events (sv_db s')) e = tbl_get (raw_events (sv_db s)) e)"
proof -
  have ok: "worker_ok (sv_db s)" "jobs_ok (sv_db s) (sv_queue s)" using assms(2) by (simp_all add: service_ok_def)
  show ?thesis
    using assms(1)
  proof (cases rule: replay_selected_cases)
    case (inline w)
    from replay_inline_steps [OF inline(1) ok(1)] have w: "raw_log (wdb w) = raw_log (sv_db s)" "worker_ok (wdb w)"
      "\<forall>e. e \<notin> set es \<longrightarrow> tbl_get (raw_events (wdb w)) e = tbl_get (raw_events (sv_db s)) e" by auto
    from jobs_ok_mono [OF ok(2) log_extends_same [OF w(1)]] w inline(2) show ?thesis
      by (simp add: service_ok_def)
  next
    case (enqueue q)
    with replay_enqueue_jobs_ok [OF enqueue(1) ok(2) assms(3)] ok(1) show ?thesis
      by (simp add: service_ok_def)
  qed (use assms(2) in simp)
qed

text \<open>C20: a replay never loses an event.  Whatever its arguments, and whether it ends or stops at an
  error, everything that was received is still in the log, in its order, the invariants of database
  and queue hold, and without truncation only the rows of events that match the filters are written.\<close>

theorem replay_keeps_the_log:
  assumes "service_ok s" "replay X F pg up a s = (r, s')"
  shows "raw_log (sv_db s') = raw_log (sv_db s) \<and> service_ok s' \<and>
     (\<not> ra_truncate a \<and> distinct (map fst (raw_events (sv_db s))) \<longrightarrow>
        (\<forall>e. \<not> in_slice pg a (sv_db s) e \<longrightarrow> tbl_get (raw_events (sv_db s')) e = tbl_get (raw_events (sv_db s)) e))"
proof -
  define s1 where "s1 = (if ra_truncate a then set_db (truncate_projections (sv_db s)) s else s)"
  have log1: "raw_log (sv_db s1) = raw_log (sv_db s)" by (simp add: s1_def)
  then have s1: "service_ok s1"
    using assms(1) worker_ok_truncate jobs_ok_mono [OF _ log_extends_same [OF log1]]
    by (auto simp: service_ok_def s1_def)
  show ?thesis
    using assms(2) s1_def
  proof (cases rule: replay_cases)
    case (run es)
    have keep: "raw_log (sv_db s') = raw_log (sv_db s1) \<and> service_ok s' \<and>
       (\<forall>e. e \<notin> set es \<longrightarrow> tbl_get (raw_events (sv_db s')) e = tbl_get (raw_events (sv_db s1)) e)"
      using replay_selected_keeps [OF run(2) s1] selected_exist [OF run(1)] by blast
    moreover have "e \<notin> set es" if "\<not> ra_truncate a" "distinct (map fst (raw_events (sv_db s)))" "\<not> in_slice pg a (sv_db s) e" for e
      using that run(1) slice_set [OF that(2), of e pg a]
      by (auto simp: s1_def select_replay_def dest!: in_set_takeD split: option.splits if_splits)
    ultimately show ?thesis using log1 by (auto simp: s1_def)
  qed (use assms(1) s1 log1 in \<open>auto simp: s1_def\<close>)
qed

section \<open>Replays that change nothing\<close>

text \<open>C11: replaying events that the learned schemas map to applied events changes no projection.  When every
  event of a list has a known shape and type, its extraction succeeds and the canonical event that it yields
  now has been applied to its entity, replaying the list inline, however often an event occurs in it
  and whatever provider is configured, makes no model call and leaves entities, shipments, invoices,
  applied events and the stale log as they were, even if it stops at an error.  (An event that was applied
  from a model's answer whose id the schema learned from it reads differently is not such an event.)\<close>

theorem replaying_applied_events_changes_nothing:
  assumes "worker_ok (wdb w)" "\<forall>e \<in> set es. \<exists>m. settled_by X (wdb w) e m"
    and "replay_inline X F es w = (r, w')"
  shows "projection_of (wdb w') = projection_of (wdb w) \<and> wcalls w' = wcalls w"
  using assms
proof (induction es arbitrary: w)
  case (Cons e es)
  obtain q v where run: "process_event X F e w = (q, v)" by fastforce
  obtain m where m: "settled_by X (wdb w) e m" using Cons.prems(2) by auto
  note same = settled_run(1-3) [OF Cons.prems(1) m run]
  show ?case
  proof (cases q)
    case (Inl err)
    with Cons.prems(3) run same show ?thesis by (simp add: andthen_def)
  next
    case (Inr x)
    with Cons.prems(3) run have "replay_inline X F es v = (r, w')" by (simp add: andthen_def)
    moreover have "worker_ok (wdb v)"
      using steps.keeps_run [OF keeps_process_event run] Cons.prems(1) by (simp add: db_step_def)
    moreover have "\<forall>e \<in> set es. \<exists>m. settled_by X (wdb v) e m"
      using same(3) Cons.prems(2) by (metis list.set_intros(2))
    ultimately show ?thesis using Cons.IH same(1,2) by metis
  qed
qed simp

section \<open>Replays through the queue\<close>

lemma enqueue_waiting:
  assumes "enqueue_process up e None q = Inr q'"
  shows "jq_results q' = jq_results q"
    "tbl_get (jq_jobs q') (job_id k) \<noteq> None \<longleftrightarrow>
       tbl_get (jq_jobs q) (job_id k) \<noteq> None \<or> (k = e \<and> job_id k \<notin> set (jq_results q))"
  using assms by (auto simp: enqueue_process_def table_simps split: if_splits option.splits)

text \<open>A replay through the queue skips events whose last result is still kept.  When it ends
  without an error, the events that wait are those that waited before and the selected ones without a
  kept result; a selected event that finished a moment ago is silently not replayed.\<close>

lemma queue_replay_skips_recent_results:
  assumes "replay_enqueue up es q = (Inr (), q')"
  shows "tbl_get (jq_jobs q') (job_id e) \<noteq> None \<longleftrightarrow>
     tbl_get (jq_jobs q) (job_id e) \<noteq> None \<or> (e \<in> set es \<and> job_id e \<notin> set (jq_results q))"
  using assms
proof (induction es arbitrary: q)
  case (Cons k es)
  then obtain p where p: "enqueue_process up k None q = Inr p" "replay_enqueue up es p = (Inr (), q')"
    by (auto split: sum.splits)
  from Cons.IH [OF p(2)] enqueue_waiting [OF p(1)] show ?case by auto
qed simp

section \<open>Examples\<close>

definition slice_db :: db where
  "slice_db = empty_db\<lparr>raw_events :=
     [(''c'', sample_raw\<lparr>rw_received_at := 7\<rparr>), (''b'', sample_raw\<lparr>rw_received_at := 5\<rparr>),
      (''a'', sample_raw\<lparr>rw_received_at := 7\<rparr>), (''d'', sample_raw\<lparr>rw_received_at := 1\<rparr>)]\<rparr>"

definition slice_args :: replay_args where
  "slice_args = \<lparr>ra_vendor = None, ra_since = Some 5, ra_until = None, ra_external_id = None,
     ra_truncate = False, ra_mode = ''inline'', ra_limit = Some 2\<rparr>"

lemma replay_selects_the_slice_witness:
  "select_replay (\<lambda>v. ''?'') slice_args slice_db = Inr [''b'', ''a''] \<and>
   replay_key slice_db ''b'' \<le> replay_key slice_db ''c''"
proof -
  have d: "distinct (map fst (raw_events slice_db))" by code_simp
  have sel: "select_replay (\<lambda>v. ''?'') slice_args slice_db = Inr [''b'', ''a'']" by code_simp
  have "\<exists>row. tbl_get (raw_events slice_db) ''c'' = Some row \<and> replay_matches (\<lambda>v. ''?'') slice_args row"
    by (rule exI [of _ "sample_raw\<lparr>rw_received_at := 7\<rparr>"]) code_simp
  then have "in_slice (\<lambda>v. ''?'') slice_args slice_db ''c'' \<and> ''c'' \<notin> set [''b'', ''a'']"
    by (simp add: in_slice_matches)
  with replay_selects_the_slice [OF d sel] have "\<forall>e' \<in> set [''b'', ''a'']. replay_key slice_db e' \<le> replay_key slice_db ''c''"
    by blast
  with sel show ?thesis by simp
qed

lemma truncation_keeps_log_and_knowledge_witness:
  "worker_ok (truncate_projections known_db) \<and> learned (truncate_projections known_db) = learned known_db"
  using truncation_keeps_log_and_knowledge known_ok by (simp add: known_w_def)

definition known_sv :: service where
  "known_sv = \<lparr>sv_world = known_w, sv_queue = \<lparr>jq_jobs = [], jq_results = [], jq_tries = []\<rparr>\<rparr>"

lemma replay_keeps_the_log_witness:
  "service_ok (snd (replay sample_LX any_F (\<lambda>v. ''?'') True (slice_args\<lparr>ra_truncate := True\<rparr>) known_sv))"
proof -
  have "service_ok known_sv" using known_ok by (simp add: service_ok_def jobs_ok_def known_sv_def)
  from replay_keeps_the_log [OF this surjective_pairing] show ?thesis by blast
qed

lemma replaying_applied_events_changes_nothing_witness:
  "projection_of (wdb (snd (replay_inline sample_LX any_F [''e1'', ''e1''] (snd known_run)))) =
   projection_of (wdb (snd known_run))"
proof -
  have "\<forall>e \<in> set [''e1'', ''e1'']. \<exists>m. settled_by sample_LX (wdb (snd known_run)) e m"
    using settled_after [OF _ known_row_get(1,2) known_path_a known_run_eq] known_ok by (auto simp: worker_ok_def)
  moreover have "worker_ok (wdb (snd known_run))"
    using steps.keeps_run [OF keeps_process_event known_run_eq] known_ok by (simp add: db_step_def)
  ultimately show ?thesis
    using replaying_applied_events_changes_nothing [OF _ _ surjective_pairing] by blast
qed

lemma queue_replay_skips_recent_results_witness:
  "tbl_get (jq_jobs (snd (replay_enqueue True [''e1'', ''e2''] \<lparr>jq_jobs = [], jq_results = [job_id ''e1''], jq_tries = []\<rparr>))) (job_id ''e1'') = None"
proof -
  let ?run = "replay_enqueue True [''e1'', ''e2''] \<lparr>jq_jobs = [], jq_results = [job_id ''e1''], jq_tries = []\<rparr>"
  have "?run = (Inr (), snd ?run)" by code_simp
  from queue_replay_skips_recent_results [OF this, of "''e1''"] show ?thesis
    by (simp del: replay_enqueue.simps not_None_eq)
qed

end
