(* ===== verification/Rebuild.thy ===== *)
theory Rebuild
  imports Replay
begin

text \<open>
  A full rebuild.  What one job does to the projection is either nothing or one canonical event, the one
  it stores; so a replay from scratch leaves each entity where the abstract lifecycle, run on the stored
  canonical events in order of receipt, leaves it.
\<close>

section \<open>Steps before the transaction\<close>

definition quiet :: "db \<Rightarrow> db \<Rightarrow> bool" where
  "quiet d d' \<longleftrightarrow> projection_of d' = projection_of d \<and> raw_events d' = raw_events d \<and>
     canonical_events d' = canonical_events d"

lemma quiet_refl: "quiet d d"
  by (simp add: quiet_def)

interpretation quiets: step_relation "\<lambda>w v. quiet (wdb w) (wdb v)"
  by unfold_locales (auto simp: quiet_def)

lemma quiets_on_db: "(\<And>d. stmt (wdb w) = Inr d \<Longrightarrow> quiet (wdb w) d) \<Longrightarrow> quiets.keeps w (on_db stmt w)"
  by (auto simp: on_db_def quiets.keeps_def quiet_refl split: sum.splits)

lemma quiet_increment:
  "increment_success i d = Inr d' \<Longrightarrow> quiet d d'" "increment_failure i d = Inr d' \<Longrightarrow> quiet d d'"
  by (auto simp: quiet_def increment_success_def increment_failure_def map_schemas_def projection_of_def
      split: if_splits)

lemma quiet_persist: "persist_event_type d vid raw c s conf src = Inr d' \<Longrightarrow> quiet d d'"
  by (auto simp: quiet_def persist_event_type_def bindE_eq_Inr Let_def projection_of_def)

lemma quiet_llm: "llm_only d d' \<Longrightarrow> quiet d d'"
proof -
  assume "llm_only d d'"
  then obtain x y where "d' = d\<lparr>llm_cache := x, llm_audit := y\<rparr>" by (auto simp: llm_only_def)
  then show ?thesis by (simp add: quiet_def projection_of_def)
qed

lemma quiet_discover:
  assumes "discover_and_persist X d vid payload out eid = (d', r)"
  shows "quiet d d'"
proof -
  have f: "canonical_events (persist_discovered_type d v raw cls st) = canonical_events d" for d v raw cls st
    by (simp add: persist_discovered_type_def)
  have p: "canonical_events d1 = canonical_events d0" if "persist_schema d0 vendor fp doc e = (d1, q)" for d0 d1 vendor fp doc e q
    using that by (auto simp: persist_schema_def Let_def split: option.splits if_splits)
  have "canonical_events d' = canonical_events d"
    using assms
    by (auto simp: discover_and_persist_def Let_def f dest: p
        split: if_split_asm sum.split_asm option.split_asm bool.split_asm prod.split_asm json.split_asm)
  with discover_frame [OF assms] show ?thesis by (simp add: quiet_def)
qed

lemma quiets_classify: "quiets.keeps w (classify_and_persist X F vid raw w)"
proof -
  have "quiets.keeps w (classify_event_type X F vid raw w)"
    unfolding quiets.keeps_def
    using classify_event_type_only [of X F vid raw w] by (auto simp: prod_eq_iff intro!: quiet_llm)
  then show ?thesis
    unfolding classify_and_persist_def
    by (rule quiets.keeps_andthen)
      (auto intro!: quiets.keeps_same quiets.keeps_andthen quiets_on_db intro: quiet_persist
        split: option.splits prod.splits sum.splits)
qed

lemma quiets_resolve: "quiets.keeps w (resolve_event_type X F vid raw w)"
  by (simp add: resolve_event_type_def quiets.keeps_same quiets_classify split: option.splits)

lemma quiets_via_schema: "quiets.keeps w (process_via_schema X F eid vid payload m w)"
  unfolding process_via_schema_def Let_def lift_result_def
  by (auto intro!: quiets.keeps_lift quiets.keeps_same quiets.keeps_andthen quiets_on_db quiets_resolve
      quiet_increment(1) split: option.splits prod.splits)

lemma quiets_normalize_llm: "quiets.keeps w (normalize_llm X F payload eid hint w)"
  unfolding quiets.keeps_def
  using normalize_llm_only [of X F payload eid hint w] by (auto simp: prod_eq_iff intro!: quiet_llm)

lemma quiet_discover_after: "quiet (wdb w) (wdb (discover_after X eid vid payload r w))"
  using quiet_discover [OF surjective_pairing]
  by (auto simp: discover_after_def quiet_refl split: json.splits)

section \<open>What a job does to the projection\<close>

text \<open>The canonical events that a job has applied: the one it has stored, or none.\<close>

definition stored_event :: "db \<Rightarrow> string \<Rightarrow> CanonicalEvent list" where
  "stored_event d e = (case tbl_get (canonical_events d) e of Some row \<Rightarrow> [cn_event row] | None \<Rightarrow> [])"

definition lives_run :: "CanonicalEvent list \<Rightarrow> db \<Rightarrow> db \<Rightarrow> bool" where
  "lives_run evs d d' \<longleftrightarrow> (\<forall>vx.
     shipment_life d' vx = life_run SHIPMENT_TRANSITIONS False (shipment_inputs vx evs) (shipment_life d vx) \<and>
     invoice_life d' vx = life_run INVOICE_TRANSITIONS True (invoice_inputs vx evs) (invoice_life d vx))"

definition others_stored :: "string \<Rightarrow> db \<Rightarrow> db \<Rightarrow> bool" where
  "others_stored eid d d' \<longleftrightarrow>
     (\<forall>e. e \<noteq> eid \<longrightarrow> tbl_get (canonical_events d') e = tbl_get (canonical_events d) e)"

definition effect :: "string \<Rightarrow> process_outcome result \<Rightarrow> db \<Rightarrow> db \<Rightarrow> bool" where
  "effect eid r d d' \<longleftrightarrow> others_stored eid d d' \<and>
     lives_run (case r of Inr (Applied _) \<Rightarrow> stored_event d' eid | _ \<Rightarrow> []) d d'"

lemma lives_cong:
  assumes "projection_of d' = projection_of d"
  shows "shipment_life d' = shipment_life d" "invoice_life d' = invoice_life d"
proof -
  have f: "entities d' = entities d" "shipments d' = shipments d" "invoices d' = invoices d"
      "seen_events d' i = seen_events d i" for i
    using assms by (simp_all add: projection_of_def seen_events_def)
  show "shipment_life d' = shipment_life d" "invoice_life d' = invoice_life d"
    unfolding fun_eq_iff shipment_life_def invoice_life_def f by simp_all
qed

lemma lives_run_Nil:
  assumes "projection_of d' = projection_of d"
  shows "lives_run [] d d'"
  by (simp add: lives_run_def shipment_inputs_def invoice_inputs_def lives_cong [OF assms])

lemma inputs_append:
  "shipment_inputs vx (xs @ ys) = shipment_inputs vx xs @ shipment_inputs vx ys"
  "invoice_inputs vx (xs @ ys) = invoice_inputs vx xs @ invoice_inputs vx ys"
  by (simp_all add: shipment_inputs_def invoice_inputs_def)

lemma lives_run_append: "lives_run xs d e \<Longrightarrow> lives_run ys e f \<Longrightarrow> lives_run (xs @ ys) d f"
  by (simp add: lives_run_def inputs_append life_run_append)

lemma quiet_effect:
  assumes "quiet d d'" "effect eid r d' d''"
  shows "effect eid r d d''"
proof -
  have "projection_of d' = projection_of d" "canonical_events d' = canonical_events d"
    using assms(1) by (simp_all add: quiet_def)
  with assms(2) show ?thesis
    by (simp add: effect_def others_stored_def lives_run_def lives_cong [OF \<open>projection_of d' = projection_of d\<close>])
qed

lemma no_effect:
  assumes "projection_of d' = projection_of d" "canonical_events d' = canonical_events d" "\<And>out. r \<noteq> Inr (Applied out)"
  shows "effect eid r d d'"
  using assms lives_run_Nil [OF assms(1)]
  by (simp add: effect_def others_stored_def split: sum.splits process_outcome.splits)

lemma mark_review_quiet: "mark_review eid reason detail d = Inr d' \<Longrightarrow>
    projection_of d' = projection_of d \<and> canonical_events d' = canonical_events d"
  by (auto simp: mark_review_def mark_status_def set_raw_def projection_of_def split: if_splits)

lemma apply_canonical_effect:
  assumes "db_ok d" "apply_canonical eid ev d = Inr (d', out)" "event_id ev = eid"
  shows "effect eid (Inr (Applied out)) d d'"
  using assms(2)
proof (rule apply_canonical_cases)
  fix d1 d2
  assume u: "upsert_canonical_event ev d = Inr d1" and a: "apply_event d1 ev = Inr (d2, out)"
    and d': "d' = set_raw eid (\<lambda>r. r\<lparr>rw_vendor_id := coalesce (rw_vendor_id r) (Some (vendor_id ev)),
            rw_status := Processed, rw_error := None, rw_processed_at := Some (clock d)\<rparr>) d2"
  from u obtain t where t: "d1 = d\<lparr>canonical_events := t\<rparr>" "\<And>k. tbl_get t k = (if k = event_id ev
       then Some \<lparr>cn_event = ev, cn_normalized_at = clock d\<rparr> else tbl_get (canonical_events d) k)"
    using upsert_canonical_cases by metis
  have p1: "projection_of d1 = projection_of d" by (simp add: t projection_of_def)
  then have "db_ok d1" using assms(1) db_ok_cong [OF p1] by (simp add: t raw_log_def)
  note runs = apply_event_shipment_life [OF this a] apply_event_invoice_life [OF this a]
  have "projection_of d' = projection_of d2" by (simp add: d')
  from lives_cong [OF this] have "lives_run [ev] d d'" using runs lives_cong [OF p1] by (simp add: lives_run_def)
  moreover have "canonical_events d' = t"
    using apply_event_rest [OF a] t(1) by (simp add: d' set_raw_def rest_of_def)
  ultimately show ?thesis
    using t assms(3) by (simp add: effect_def others_stored_def stored_event_def)
qed

lemma finalize_effect:
  assumes "db_ok (wdb w)" "finalize X eid vid ev w = (r, w')" "event_id ev = eid"
  shows "effect eid r (wdb w) (wdb w')"
proof (cases "normalize (override_vendor vid ev)")
  case (Inl e)
  show ?thesis
    by (rule no_effect) (use assms(2) Inl in \<open>auto simp: finalize_def andthen_def on_db_def dest: mark_review_quiet
        split: sum.splits prod.splits if_splits\<close>)
next
  case (Inr ev')
  then have id: "event_id ev' = eid" using normalize_event_id assms(3) by simp
  show ?thesis
  proof (cases "apply_canonical eid ev' (wdb w)")
    case (Inl e)
    with assms(2) \<open>normalize _ = Inr ev'\<close> show ?thesis by (auto simp: finalize_def intro: no_effect)
  next
    case (Inr q)
    obtain d out where q: "q = (d, out)" by (cases q)
    with Inr assms(2) \<open>normalize _ = Inr ev'\<close> have "r = Inr (Applied out)" "wdb w' = d"
      by (auto simp: finalize_def)
    with apply_canonical_effect [OF assms(1) _ id] Inr q show ?thesis by simp
  qed
qed

lemma quiet_db_ok:
  assumes "quiet d d'" "db_ok d"
  shows "db_ok d'"
proof -
  have "raw_log d' = raw_log d" using assms(1) by (simp add: quiet_def raw_log_def)
  with assms db_ok_cong [of d' d] show ?thesis by (simp add: quiet_def)
qed

lemma finalize_after:
  assumes "quiet d (wdb w)" "db_ok d" "finalize X eid vid ev w = (r, w')" "event_id ev = eid"
  shows "effect eid r d (wdb w')"
  using quiet_effect [OF assms(1)] finalize_effect [OF quiet_db_ok [OF assms(1,2)] assms(3,4)] by blast

lemma quiet_no_effect: "quiet d d' \<Longrightarrow> (\<And>out. r \<noteq> Inr (Applied out)) \<Longrightarrow> effect eid r d d'"
  by (rule no_effect) (simp_all add: quiet_def)

lemma via_llm_effect:
  assumes ok: "db_ok (wdb w)" and run: "process_via_llm X F eid vid payload w = (r, w')"
  shows "effect eid r (wdb w) (wdb w')"
proof -
  obtain q w1 where n: "normalize_llm X F payload eid vid w = (q, w1)" by fastforce
  have q1: "quiet (wdb w) (wdb w1)" using quiets.keeps_run [OF quiets_normalize_llm n] .
  show ?thesis
  proof (cases q)
    case (Inl e)
    with run n q1 show ?thesis by (auto simp: process_via_llm_def andthen_def intro: quiet_no_effect)
  next
    case (Inr a)
    show ?thesis
    proof (cases "\<exists>c. ar_status a = Ok \<and> ar_canonical_event a = Some c")
      case True
      then obtain c where c: "ar_status a = Ok" "ar_canonical_event a = Some c" by blast
      from n [unfolded Inr] have "event_id c = eid"
      proof (cases rule: normalize_llm_cases)
        case (answered o)
        from shape_outcome_ok [OF answered(2) [symmetric]] c build_canonical_event_id show ?thesis by auto
      next
        case (refused e)
        then show ?thesis using c by (auto simp: adapter_problem_def split: if_splits)
      qed
      moreover have "finalize X eid vid c (discover_after X eid vid payload a w1) = (r, w')"
        using run n Inr c by (simp add: process_via_llm_def andthen_def)
      moreover have "quiet (wdb w) (wdb (discover_after X eid vid payload a w1))"
        using q1 quiet_discover_after [of w1 X eid vid payload a] by (simp add: quiet_def)
      ultimately show ?thesis using finalize_after ok by blast
    next
      case False
      have pend: "projection_of (mark_pending_llm eid reason d) = projection_of d \<and>
          canonical_events (mark_pending_llm eid reason d) = canonical_events d" for reason d
        by (simp add: mark_pending_llm_def mark_status_def set_raw_def projection_of_def)
      have "effect eid r (wdb w1) (wdb w')"
        by (rule no_effect) (use run n Inr False pend in \<open>auto simp: process_via_llm_def andthen_def on_db_def
          dest: mark_review_quiet split: AdapterStatus.splits option.splits sum.splits prod.splits\<close>)
      with q1 show ?thesis by (rule quiet_effect)
    qed
  qed
qed

lemma known_effect:
  assumes ok: "db_ok (wdb w)" and run: "process_known X F eid vid payload w = (r, w')"
  shows "effect eid r (wdb w) (wdb w')"
proof (cases "lookup_schema X (wdb w) vid payload")
  case None
  with run via_llm_effect ok show ?thesis by (simp add: process_known_def)
next
  case (Some m)
  obtain q w1 where s: "process_via_schema X F eid vid payload m w = (q, w1)" by fastforce
  have q1: "quiet (wdb w) (wdb w1)" using quiets.keeps_run [OF quiets_via_schema s] .
  show ?thesis
  proof (cases q)
    case (Inl e)
    with run Some s q1 show ?thesis by (auto simp: process_known_def andthen_def intro: quiet_no_effect)
  next
    case (Inr c)
    show ?thesis
    proof (cases c)
      case (Some ev)
      with run \<open>lookup_schema _ _ _ _ = Some m\<close> s Inr have "finalize X eid vid ev w1 = (r, w')"
        by (simp add: process_known_def andthen_def)
      moreover have "event_id ev = eid" using via_schema_event_id s Inr Some by blast
      ultimately show ?thesis using finalize_after [OF q1 ok] by blast
    next
      case None
      obtain p w2 where i: "on_db (increment_failure (sm_schema_id m)) w1 = (p, w2)" by fastforce
      have "quiets.keeps w1 (on_db (increment_failure (sm_schema_id m)) w1)"
        by (rule quiets_on_db) (rule quiet_increment(2))
      from quiets.keeps_run [OF this i] have q2: "quiet (wdb w) (wdb w2)" using q1 by (simp add: quiet_def)
      show ?thesis
      proof (cases p)
        case (Inl e)
        with run Some s Inr None i q2 show ?thesis
          by (auto simp: process_known_def andthen_def intro: quiet_no_effect)
      next
        case (Inr u)
        with run Some s \<open>q = Inr c\<close> None i have "process_via_llm X F eid vid payload w2 = (r, w')"
          by (simp add: process_known_def andthen_def)
        with via_llm_effect quiet_db_ok [OF q2 ok] quiet_effect [OF q2] show ?thesis by blast
      qed
    qed
  qed
qed

lemma process_event_effect:
  assumes "db_ok (wdb w)" "process_event X F eid w = (r, w')"
  shows "effect eid r (wdb w) (wdb w')"
proof (cases "tbl_get (raw_events (wdb w)) eid")
  case None
  with assms(2) show ?thesis by (auto simp: process_event_def intro: no_effect)
next
  case (Some row)
  show ?thesis
  proof (cases "event_vendor X row")
    case (Inl e)
    with assms(2) Some show ?thesis
      by (auto simp: process_event_def lift_result_def andthen_def intro: no_effect)
  next
    case (Inr vid)
    from process_event_known [OF Some Inr] known_effect assms show ?thesis by simp
  qed
qed

section \<open>A list of events\<close>

text \<open>Truncation changes nothing that a selection looks at.\<close>

lemma insort_key_map: "insort_key f (g x) (map g ys) = map g (insort_key (\<lambda>z. f (g z)) x ys)"
  by (induction ys) auto

lemma sort_key_map: "sort_key f (map g xs) = map g (sort_key (\<lambda>z. f (g z)) xs)"
  by (induction xs) (simp_all add: insort_key_map)

lemma select_truncate: "select_replay pg a (truncate_projections d) = select_replay pg a d"
proof -
  define g :: "string \<times> raw_row \<Rightarrow> string \<times> raw_row"
    where "g = (\<lambda>(e, r). (e, r\<lparr>rw_status := Queued, rw_error := None, rw_processed_at := None\<rparr>))"
  have "raw_events (truncate_projections d) = map g (raw_events d)"
    by (simp add: truncate_projections_def g_def)
  moreover have "(\<lambda>(e, row). replay_matches pg a row) (g p) = (\<lambda>(e, row). replay_matches pg a row) p" for p
    by (cases p) (simp add: g_def replay_matches_def Let_def cong: option.case_cong)
  moreover have "replay_order (g p) = replay_order p" "fst (g p) = fst p" for p
    by (cases p; simp add: g_def replay_order_def)+
  ultimately have "map fst (replay_slice pg a (truncate_projections d)) = map fst (replay_slice pg a d)"
    by (simp add: replay_slice_def filter_map sort_key_map comp_def)
  then show ?thesis by (simp add: select_replay_def split: option.splits)
qed


text \<open>The canonical events of those events of a list that have been processed.\<close>

definition processed_events :: "db \<Rightarrow> string list \<Rightarrow> CanonicalEvent list" where
  "processed_events d es =
     concat (map (\<lambda>e. if status_of d e = Some Processed then stored_event d e else []) es)"

lemma processed_events_cong:
  assumes "\<And>e. e \<in> set es \<Longrightarrow> tbl_get (raw_events d') e = tbl_get (raw_events d) e \<and>
     tbl_get (canonical_events d') e = tbl_get (canonical_events d) e"
  shows "processed_events d' es = processed_events d es"
proof -
  have "map (\<lambda>e. if status_of d' e = Some Processed then stored_event d' e else []) es =
      map (\<lambda>e. if status_of d e = Some Processed then stored_event d e else []) es"
  proof (intro map_cong refl)
    fix e assume "e \<in> set es"
    from assms [OF this] have "status_of d' e = status_of d e" "stored_event d' e = stored_event d e"
      by (simp_all add: status_of_def stored_event_def)
    then show "(if status_of d' e = Some Processed then stored_event d' e else []) =
        (if status_of d e = Some Processed then stored_event d e else [])" by (simp only:)
  qed
  then show ?thesis unfolding processed_events_def by (rule arg_cong)
qed

lemma head_events:
  assumes "process_event X F e w = (Inr out, v)" "event_exists (wdb w) e"
  shows "(case out of Applied _ \<Rightarrow> stored_event (wdb v) e | _ \<Rightarrow> []) = processed_events (wdb v) [e]"
proof -
  have "concluded e out (wdb v)" by (rule process_event_concludes [OF assms])
  then show ?thesis
    by (cases out) (auto simp: concluded_def processed_events_def stored_event_def)
qed

lemma replay_inline_others:
  assumes "replay_inline X F es w = (r, w')" "worker_ok (wdb w)" "k \<notin> set es"
  shows "tbl_get (canonical_events (wdb w')) k = tbl_get (canonical_events (wdb w)) k"
  using assms
proof (induction es arbitrary: w)
  case (Cons e es)
  obtain q v where run: "process_event X F e w = (q, v)" by fastforce
  have head: "tbl_get (canonical_events (wdb v)) k = tbl_get (canonical_events (wdb w)) k"
    using process_event_effect [OF _ run] Cons.prems by (simp add: worker_ok_def effect_def others_stored_def)
  have ok: "worker_ok (wdb v)"
    using steps.keeps_run [OF keeps_process_event run] Cons.prems(2) by (simp add: db_step_def)
  show ?case
  proof (cases q)
    case (Inl err)
    with Cons.prems(1) run head show ?thesis by (simp add: andthen_def)
  next
    case (Inr x)
    with Cons.prems run have "replay_inline X F es v = (r, w')" by (simp add: andthen_def)
    with Cons.IH ok Cons.prems(3) head show ?thesis by simp
  qed
qed simp

lemma replay_inline_lives:
  assumes "replay_inline X F es w = (Inr (), w')" "worker_ok (wdb w)" "distinct es"
    and "\<forall>e \<in> set es. event_exists (wdb w) e"
  shows "lives_run (processed_events (wdb w') es) (wdb w) (wdb w')"
  using assms
proof (induction es arbitrary: w)
  case Nil
  then show ?case by (simp add: processed_events_def lives_run_Nil)
next
  case (Cons e es)
  from Cons.prems(1) obtain out v where run: "process_event X F e w = (Inr out, v)"
    and rest: "replay_inline X F es v = (Inr (), w')"
    by (auto simp: andthen_def split: prod.splits sum.splits)
  have step: "db_step e (wdb w) (wdb v)" using steps.keeps_run [OF keeps_process_event run] .
  then have ok: "worker_ok (wdb v)" using Cons.prems(2) by (simp add: db_step_def)
  have "\<forall>k \<in> set es. event_exists (wdb v) k" using Cons.prems(4) db_step_exists [OF step] by simp
  from Cons.IH [OF rest ok _ this] Cons.prems(3)
  have tail: "lives_run (processed_events (wdb w') es) (wdb v) (wdb w')" by simp
  have "effect e (Inr out) (wdb w) (wdb v)"
    using process_event_effect [OF _ run] Cons.prems(2) by (simp add: worker_ok_def)
  then have "lives_run (case out of Applied _ \<Rightarrow> stored_event (wdb v) e | _ \<Rightarrow> []) (wdb w) (wdb v)"
    by (simp add: effect_def)
  also have "(case out of Applied _ \<Rightarrow> stored_event (wdb v) e | _ \<Rightarrow> []) = processed_events (wdb v) [e]"
    using head_events [OF run] Cons.prems(4) by simp
  also have "processed_events (wdb v) [e] = processed_events (wdb w') [e]"
    using replay_inline_steps [OF rest ok] replay_inline_others [OF rest ok] Cons.prems(3)
    by (intro processed_events_cong) simp
  finally have "lives_run (processed_events (wdb w') [e] @ processed_events (wdb w') es) (wdb w) (wdb w')"
    using tail by (rule lives_run_append)
  then show ?case by (simp add: processed_events_def)
qed

text \<open>C10: a full rebuild gives the projection of the stored events.  After a replay with truncation and in
  one process that ends without an error, each shipment and each invoice is in the state, at the time
  and version, and has seen the ids, that the abstract lifecycle reaches from the start on the stored
  canonical events of the processed events of the slice, in order of receipt; whatever was in the
  projection before has no influence.\<close>

theorem rebuild_gives_the_lifecycle:
  assumes "service_ok s" "distinct (map fst (raw_events (sv_db s)))"
    and "replay X F pg up a s = (Inr (), s')" "ra_truncate a" "ra_mode a = ''inline''"
  shows "\<exists>es. select_replay pg a (sv_db s) = Inr es \<and>
     shipment_life (sv_db s') vx =
       life_run SHIPMENT_TRANSITIONS False (shipment_inputs vx (processed_events (sv_db s') es)) ({}, None) \<and>
     invoice_life (sv_db s') vx =
       life_run INVOICE_TRANSITIONS True (invoice_inputs vx (processed_events (sv_db s') es)) ({}, None)"
proof -
  let ?d = "truncate_projections (sv_db s)"
  obtain es where es: "select_replay pg a (sv_db s) = Inr es"
    and inline: "replay_inline X F es (sv_world (set_db ?d s)) = (Inr (), sv_world s')"
    using assms(3-5) select_truncate [of pg a "sv_db s"]
    by (auto simp: replay_def replay_selected_def Let_def split: sum.splits prod.splits)
  have w: "wdb (sv_world (set_db ?d s)) = ?d" by (simp add: set_db_def)
  have ok: "worker_ok ?d" using assms(1) worker_ok_truncate by (simp add: service_ok_def)
  have "distinct es"
    using es slice_distinct [OF assms(2), of pg a] by (auto simp: select_replay_def split: option.splits if_splits)
  moreover have "\<forall>e \<in> set es. event_exists ?d e"
    using selected_exist [of pg a ?d es] es by (simp add: select_truncate)
  ultimately have "lives_run (processed_events (sv_db s') es) ?d (sv_db s')"
    using replay_inline_lives [OF inline] ok by (simp add: w)
  moreover have "shipment_life ?d vx = ({}, None)" "invoice_life ?d vx = ({}, None)"
    by (simp_all add: shipment_life_def invoice_life_def truncate_projections_def)
  ultimately show ?thesis using es by (auto simp: lives_run_def simp del: split_paired_All)
qed

section \<open>Example\<close>

lemma rebuild_gives_the_lifecycle_witness:
  "\<exists>es. select_replay (\<lambda>v. ''?'') (slice_args\<lparr>ra_truncate := True, ra_since := None\<rparr>) known_db = Inr es \<and>
     shipment_life (sv_db (snd (replay sample_LX any_F (\<lambda>v. ''?'') True
       (slice_args\<lparr>ra_truncate := True, ra_since := None\<rparr>) known_sv))) (''maersk'', ''M1:42'') =
     life_run SHIPMENT_TRANSITIONS False (shipment_inputs (''maersk'', ''M1:42'')
       (processed_events (sv_db (snd (replay sample_LX any_F (\<lambda>v. ''?'') True
         (slice_args\<lparr>ra_truncate := True, ra_since := None\<rparr>) known_sv))) es)) ({}, None)"
proof -
  let ?a = "slice_args\<lparr>ra_truncate := True, ra_since := None\<rparr>"
  let ?run = "replay sample_LX any_F (\<lambda>v. ''?'') True ?a known_sv"
  have "service_ok known_sv" using known_ok by (simp add: service_ok_def jobs_ok_def known_sv_def)
  moreover have "distinct (map fst (raw_events (sv_db known_sv)))" by code_simp
  moreover have "is_ok (fst ?run)" by code_simp
  then have "?run = (Inr (), snd ?run)" by (auto simp: is_ok_iff prod_eq_iff)
  moreover have "ra_truncate ?a" "ra_mode ?a = ''inline''" by (simp_all add: slice_args_def)
  moreover have "sv_db known_sv = known_db" by (simp add: known_sv_def known_w_def)
  ultimately show ?thesis using rebuild_gives_the_lifecycle by metis
qed

end
