(* ===== verification/Jobs.thy ===== *)
theory Jobs
  imports Resumptions Rebuild
begin

text \<open>
  The worker's functions once more, this time as interruptible jobs: every statement, transaction and
  provider call of \<open>app/llm/fallback.py\<close>, \<open>app/adapters/registry.py\<close>,
  \<open>app/adapters/schema_discoverer.py\<close>, \<open>app/workers/pipeline.py\<close> and \<open>app/workers/processor.py\<close> is
  an action of its own, in the order of the code.  Run alone, a job does what the definitions of
  \<open>LLMFallback\<close>, \<open>LLMUniversal\<close>, \<open>SchemaDiscoverer\<close> and \<open>Pipeline\<close> say.  A transaction is one action: the
  rows it depends on are locked until its end (\<open>SELECT ... FOR UPDATE\<close>, unique keys).
\<close>

section \<open>Actions\<close>

definition reads :: "(db \<Rightarrow> 'a) \<Rightarrow> (world, 'a) job" where
  "reads q = atomically (\<lambda>w. (Inr (q (wdb w)), w))"

definition executes :: "(db \<Rightarrow> db result) \<Rightarrow> (world, unit) job" where
  "executes stmt = atomically (on_db stmt)"

text \<open>A call of the provider: the answer, and the number of calls made by then.\<close>

definition calls_provider :: "fallback \<Rightarrow> string \<Rightarrow> json \<Rightarrow> (world, LLMResult result \<times> nat) job" where
  "calls_provider F prompt schema = atomically (\<lambda>w.
     (Inr (fb_complete F (wcalls w) prompt schema, wcalls w + 1), w\<lparr>wcalls := wcalls w + 1\<rparr>))"

definition of_result :: "'a result \<Rightarrow> (world, 'a) job" where
  "of_result r = (case r of Inl e \<Rightarrow> raises e | Inr x \<Rightarrow> ret x)"

lemma run_actions [simp]:
  "run (reads q) w = (Inr (q (wdb w)), w)"
  "run (executes stmt) w = on_db stmt w"
  "run (calls_provider F prompt schema) w =
     (Inr (fb_complete F (wcalls w) prompt schema, wcalls w + 1), w\<lparr>wcalls := wcalls w + 1\<rparr>)"
  "run (of_result r) w = lift_result r w"
  by (simp_all add: reads_def executes_def calls_provider_def of_result_def lift_result_def split: sum.splits)

section \<open>LLM orchestration\<close>

definition checked :: "externals \<Rightarrow> fallback \<Rightarrow> LLMResult result \<Rightarrow> (LLMResult \<times> json) result" where
  "checked X F response = bindE response (\<lambda>res.
     bindE (parse_and_validate X F (lr_text res)) (\<lambda>data. Inr (res, data)))"

definition ask_model_job ::
  "externals \<Rightarrow> fallback \<Rightarrow> string \<Rightarrow> (world, LLMResult \<times> json \<times> nat) job" where
  "ask_model_job X F prompt =
     bindj (calls_provider F prompt (fb_schema F)) (\<lambda>(first, n).
     case checked X F first of
       Inr (res, data) \<Rightarrow> ret (res, data, n)
     | Inl first_err \<Rightarrow>
         if \<not> invalid_answer first_err then raises first_err
         else
           bindj (calls_provider F (retry_prompt F prompt (fb_error_text F first)) (fb_schema F)) (\<lambda>(second, n).
           case checked X F second of
             Inr (res, data) \<Rightarrow> ret (res, data, n)
           | Inl second_err \<Rightarrow>
               raises (if invalid_answer second_err then LLMValidationError else second_err)))"

definition classify_extract_job ::
  "externals \<Rightarrow> fallback \<Rightarrow> string \<Rightarrow> string \<Rightarrow> json \<Rightarrow> (world, LLMOutcome) job" where
  "classify_extract_job X F eid vendor_hint payload =
     (let key = extract_key X F payload vendor_hint in
      bindj (reads (\<lambda>d. cache_get d key)) (\<lambda>cached.
      case cached of
        Some row \<Rightarrow>
          let out = cached_outcome F row in
          bindj (executes (audit eid out vendor_hint)) (\<lambda>_. ret out)
      | None \<Rightarrow>
          bindj (reads (\<lambda>d. budget_allow F d vendor_hint (1 / 1000))) (\<lambda>allowed.
          if \<not> allowed then raises BudgetExceeded
          else
            bindj (ask_model_job X F (render_prompt X F payload)) (\<lambda>(res, data, n).
            let out = fresh_outcome F res data n in
            bindj (executes (cache_set key out)) (\<lambda>_.
            bindj (executes (audit eid out vendor_hint)) (\<lambda>_. ret out))))))"

definition classify_event_type_job ::
  "externals \<Rightarrow> fallback \<Rightarrow> string \<Rightarrow> string \<Rightarrow> (world, (json \<times> json \<times> rat) option) job" where
  "classify_event_type_job X F vendor raw_event_type =
     (let key = event_type_key X vendor raw_event_type in
      bindj (reads (\<lambda>d. cache_get d key)) (\<lambda>cached.
      case cached of
        Some row \<Rightarrow> of_result (read_event_type X (lc_output row))
      | None \<Rightarrow>
          bindj (reads (\<lambda>d. budget_allow F d vendor (2 / 10000))) (\<lambda>allowed.
          if \<not> allowed then ret None
          else
            bindj (calls_provider F (event_type_prompt F vendor raw_event_type) (JObj [])) (\<lambda>(answer, n).
            case answer of
              Inl e \<Rightarrow> ret None
            | Inr res \<Rightarrow>
                (case parse_json X (lr_text res) of
                   None \<Rightarrow> ret None
                 | Some data \<Rightarrow>
                     bindj (executes (cache_set key (event_type_outcome res data))) (\<lambda>_.
                     of_result (read_event_type X (JObj data))))))))"

definition normalize_llm_job ::
  "externals \<Rightarrow> fallback \<Rightarrow> json \<Rightarrow> string \<Rightarrow> string \<Rightarrow> (world, AdapterResult) job" where
  "normalize_llm_job X F payload eid vendor_hint =
     bindj (catchj
       (bindj (classify_extract_job X F eid (str_or vendor_hint ''unknown'') payload)
          (\<lambda>out. ret (shape_outcome X eid out)))
       (\<lambda>e. case e of
          BudgetExceeded \<Rightarrow>
            ret (Inr (adapter_problem Deferred [''budget_exceeded''] [(''reason'', JStr ''llm_budget_exceeded'')]))
        | LLMValidationError \<Rightarrow>
            ret (Inr (adapter_problem Unsupported []
              [(''reason'', JStr ''llm_invalid_after_retry''), (''error'', JStr (x_exn_text X LLMValidationError))]))
        | _ \<Rightarrow> raises e))
     of_result"

section \<open>Discovery\<close>

definition discover_job ::
  "externals \<Rightarrow> string \<Rightarrow> json \<Rightarrow> jobject \<Rightarrow> string \<Rightarrow> (world, int option) job" where
  "discover_job X vid payload out eid =
     (let cls = jget out ''classification'' in
      if \<not> truthy cls then ret None
      else
        bindj (of_result (infer_schema_doc X payload out cls)) (\<lambda>inferred.
        case inferred of
          None \<Rightarrow> ret None
        | Some doc \<Rightarrow>
            bindj (of_result (validate_schema X payload eid vid doc out)) (\<lambda>valid.
            if \<not> valid then ret None
            else
              bindj (atomically (\<lambda>w. let (d1, r) = persist_schema (wdb w) vid (structural_fingerprint X payload []) doc eid
                  in (r, w\<lparr>wdb := d1\<rparr>))) (\<lambda>schema_id.
              bindj (of_result (find_raw_event_type payload doc)) (\<lambda>raw.
              let event_type = jget out ''event_type'' in
              if truthy event_type \<and> truthy raw \<and> cls \<in> {JStr ''shipment'', JStr ''invoice''}
              then (case event_type of
                  JStr state \<Rightarrow>
                    bindj (executes (\<lambda>d. Inr (persist_discovered_type d vid (pstr X raw) (pstr X cls) state)))
                      (\<lambda>_. ret (Some schema_id))
                | _ \<Rightarrow> raises DataError)
              else ret (Some schema_id))))))"

definition discover_after_job ::
  "externals \<Rightarrow> string \<Rightarrow> string \<Rightarrow> json \<Rightarrow> AdapterResult \<Rightarrow> (world, unit) job" where
  "discover_after_job X eid vid payload r =
     (case jget (ar_detail r) ''llm_output'' of
        JObj out \<Rightarrow>
          if out \<noteq> [] \<and> jget (ar_detail r) ''llm_source'' \<noteq> JStr ''llm_cache''
          then catchj (bindj (discover_job X vid payload out eid) (\<lambda>_. ret ())) (\<lambda>_. ret ())
          else ret ()
      | _ \<Rightarrow> ret ())"

section \<open>The pipeline\<close>

definition finalize_job ::
  "externals \<Rightarrow> string \<Rightarrow> string \<Rightarrow> CanonicalEvent \<Rightarrow> (world, process_outcome) job" where
  "finalize_job X eid vid canonical =
     (case normalize (override_vendor vid canonical) of
        Inl e \<Rightarrow>
          if e = NormalizationError
          then bindj (executes (mark_review eid ''normalization_failed''
                  [(''error'', JStr (x_exn_text X e))])) (\<lambda>_. ret RequiresReview)
          else raises e
      | Inr canonical' \<Rightarrow>
          atomically (\<lambda>w. case apply_canonical eid canonical' (wdb w) of
              Inl e \<Rightarrow> (Inl e, w)
            | Inr (d, outcome) \<Rightarrow> (Inr (Applied outcome), w\<lparr>wdb := d\<rparr>)))"

definition classify_and_persist_job ::
  "externals \<Rightarrow> fallback \<Rightarrow> string \<Rightarrow> string \<Rightarrow> (world, (string \<times> string) option) job" where
  "classify_and_persist_job X F vid raw =
     bindj (classify_event_type_job X F vid raw) (\<lambda>found.
     case found of
       None \<Rightarrow> ret None
     | Some (cls, state, conf) \<Rightarrow>
         (case (text_param cls, text_param state) of
            (Inr c, Inr s) \<Rightarrow>
              bindj (executes (\<lambda>d. persist_event_type d vid raw c s conf ''llm'')) (\<lambda>_. ret (Some (c, s)))
          | _ \<Rightarrow> raises DataError))"

definition resolve_event_type_job ::
  "externals \<Rightarrow> fallback \<Rightarrow> string \<Rightarrow> string \<Rightarrow> (world, (string \<times> string) option) job" where
  "resolve_event_type_job X F vid raw =
     bindj (reads (\<lambda>d. lookup_event_type d vid raw)) (\<lambda>known.
     case known of
       Some m \<Rightarrow> ret (Some m)
     | None \<Rightarrow> classify_and_persist_job X F vid raw)"

definition process_via_schema_job ::
  "externals \<Rightarrow> fallback \<Rightarrow> string \<Rightarrow> string \<Rightarrow> json \<Rightarrow> SchemaMatch \<Rightarrow> (world, CanonicalEvent option) job" where
  "process_via_schema_job X F eid vid payload m =
     (let doc = sm_schema_doc m; success = executes (increment_success (sm_schema_id m)) in
      bindj (of_result (extract_event X payload eid vid doc None None)) (\<lambda>first.
      if jget doc ''classification'' = JStr ''unclassified'' \<and> ex_success first then
        bindj success (\<lambda>_. ret (ex_canonical_event first))
      else
        (case ex_raw_event_type first of
           None \<Rightarrow> ret None
         | Some raw \<Rightarrow>
             if raw = [] then ret None
             else
               bindj (resolve_event_type_job X F vid raw) (\<lambda>mapping.
               case mapping of
                 None \<Rightarrow> ret None
               | Some (cls, state) \<Rightarrow>
                   bindj (of_result (extract_event X payload eid vid doc (Some state) (Some cls))) (\<lambda>second.
                   if \<not> ex_success second then ret None
                   else bindj success (\<lambda>_. ret (ex_canonical_event second)))))))"

definition process_via_llm_job ::
  "externals \<Rightarrow> fallback \<Rightarrow> string \<Rightarrow> string \<Rightarrow> json \<Rightarrow> (world, process_outcome) job" where
  "process_via_llm_job X F eid vid payload =
     bindj (normalize_llm_job X F payload eid vid) (\<lambda>r.
     case (ar_status r, ar_canonical_event r) of
       (Ok, Some canonical) \<Rightarrow>
         bindj (discover_after_job X eid vid payload r) (\<lambda>_. finalize_job X eid vid canonical)
     | (Deferred, _) \<Rightarrow>
         bindj (executes (\<lambda>d. Inr (mark_pending_llm eid (reason_of ''llm_deferred'' (ar_detail r)) d)))
           (\<lambda>_. ret PendingLLM)
     | _ \<Rightarrow>
         bindj (executes (mark_review eid (reason_of ''unsupported'' (ar_detail r)) (ar_detail r)))
           (\<lambda>_. ret RequiresReview))"

definition process_known_job ::
  "externals \<Rightarrow> fallback \<Rightarrow> string \<Rightarrow> string \<Rightarrow> json \<Rightarrow> (world, process_outcome) job" where
  "process_known_job X F eid vid payload =
     bindj (reads (\<lambda>d. lookup_schema X d vid payload)) (\<lambda>found.
     case found of
       None \<Rightarrow> process_via_llm_job X F eid vid payload
     | Some m \<Rightarrow>
         bindj (process_via_schema_job X F eid vid payload m) (\<lambda>r.
         case r of
           Some canonical \<Rightarrow> finalize_job X eid vid canonical
         | None \<Rightarrow>
             bindj (executes (increment_failure (sm_schema_id m))) (\<lambda>_.
             process_via_llm_job X F eid vid payload)))"

definition process_event_job :: "externals \<Rightarrow> fallback \<Rightarrow> string \<Rightarrow> (world, process_outcome) job" where
  "process_event_job X F eid =
     bindj (reads (\<lambda>d. tbl_get (raw_events d) eid)) (\<lambda>found.
     case found of
       None \<Rightarrow> ret NotFound
     | Some row \<Rightarrow>
         bindj (of_result (event_vendor X row)) (\<lambda>vid.
         process_known_job X F eid vid (rw_payload row)))"

text \<open>\<open>except Exception\<close> does not see a cancelled job: \<open>CancelledError\<close> is no \<open>Exception\<close>.\<close>

definition process_webhook_job :: "externals \<Rightarrow> fallback \<Rightarrow> string \<Rightarrow> (world, process_outcome) job" where
  "process_webhook_job X F eid =
     catchj (process_event_job X F eid) (\<lambda>e.
       bindj (executes (\<lambda>d. Inr (mark_failed eid (x_exn_text X e) d))) (\<lambda>_. raises e))"

section \<open>Alone\<close>

lemma andthen_cong: "m = m' \<Longrightarrow> (\<And>x v. f x v = f' x v) \<Longrightarrow> andthen m f = andthen m' f'"
  by (auto simp: andthen_def split: prod.splits sum.splits)

lemma attempt_checked: "attempt X F n prompt = checked X F (fb_complete F n prompt (fb_schema F))"
  by (simp add: attempt_def checked_def)

lemma run_ask_model:
  "run (ask_model_job X F prompt) w =
     (let (r, n) = ask_model X F prompt (wcalls w)
      in (map_sum id (\<lambda>(res, data). (res, data, n)) r, w\<lparr>wcalls := n\<rparr>))"
  by (auto simp: ask_model_job_def run_bindj ask_model_def attempt_checked Let_def split: sum.splits)

lemma run_classify_extract:
  "run (classify_extract_job X F eid hint payload) w = classify_extract X F eid hint payload w"
  by (auto simp: classify_extract_job_def classify_extract_def run_bindj run_ask_model Let_def on_db_def
      split: option.splits sum.splits prod.splits)

lemma run_classify_event_type:
  "run (classify_event_type_job X F vendor raw) w = classify_event_type X F vendor raw w"
  by (auto simp: classify_event_type_job_def classify_event_type_def run_bindj Let_def on_db_def lift_result_def
      split: option.splits sum.splits prod.splits)

lemma run_normalize_llm: "run (normalize_llm_job X F payload eid hint) w = normalize_llm X F payload eid hint w"
  by (auto simp: normalize_llm_job_def normalize_llm_def run_bindj run_catchj run_classify_extract andthen_def
      lift_result_def split: sum.splits prod.splits exn.splits)

lemma run_discover:
  "run (discover_job X vid payload out eid) w =
     (let (d, r) = discover_and_persist X (wdb w) vid payload out eid in (r, w\<lparr>wdb := d\<rparr>))"
  by (auto simp: discover_job_def discover_and_persist_def run_bindj Let_def lift_result_def on_db_def
      split: sum.splits prod.splits option.splits bool.splits json.splits)

lemma run_discover_after:
  "run (discover_after_job X eid vid payload r) w = (Inr (), discover_after X eid vid payload r w)"
  by (auto simp: discover_after_job_def discover_after_def run_bindj run_catchj run_discover andthen_def
      split: json.splits sum.splits prod.splits)

lemma run_finalize: "run (finalize_job X eid vid ev) w = finalize X eid vid ev w"
  by (auto simp: finalize_job_def finalize_def run_bindj split: sum.splits prod.splits)

lemma run_classify_and_persist: "run (classify_and_persist_job X F vid raw) w = classify_and_persist X F vid raw w"
  unfolding classify_and_persist_job_def classify_and_persist_def run_bindj run_classify_event_type
  by (rule andthen_cong) (auto simp: run_bindj split: option.splits sum.splits prod.splits)

lemma run_resolve: "run (resolve_event_type_job X F vid raw) w = resolve_event_type X F vid raw w"
  by (simp add: resolve_event_type_job_def resolve_event_type_def run_bindj run_classify_and_persist split: option.splits)

lemma run_via_schema:
  "run (process_via_schema_job X F eid vid payload m) w = process_via_schema X F eid vid payload m w"
  unfolding process_via_schema_job_def process_via_schema_def Let_def run_bindj run_actions
  by (rule andthen_cong) (auto simp: run_bindj run_resolve split: option.splits intro!: andthen_cong)

lemma run_via_llm: "run (process_via_llm_job X F eid vid payload) w = process_via_llm X F eid vid payload w"
  unfolding process_via_llm_job_def process_via_llm_def run_bindj run_normalize_llm
  by (rule andthen_cong)
    (auto simp: run_bindj run_discover_after run_finalize on_db_def split: option.splits AdapterStatus.splits)

lemma run_known: "run (process_known_job X F eid vid payload) w = process_known X F eid vid payload w"
  unfolding process_known_job_def process_known_def
  by (auto simp: run_bindj run_via_schema run_finalize run_via_llm split: option.splits intro!: andthen_cong)

lemma run_process_event: "run (process_event_job X F eid) w = process_event X F eid w"
  unfolding process_event_job_def process_event_def
  by (auto simp: run_bindj run_known split: option.splits intro!: andthen_cong)

lemma run_process_webhook: "run (process_webhook_job X F eid) w = process_webhook X F eid w"
  by (auto simp: process_webhook_job_def process_webhook_def run_catchj run_process_event run_bindj on_db_def
      split: prod.splits sum.splits)

end
