(* ===== verification/Guarantees.thy ===== *)
theory Guarantees
  imports Jobs
begin

text \<open>
  What the jobs of \<open>Jobs\<close> guarantee while other jobs, deliveries and the clock interfere.  \<open>progress\<close> is all
  that a job relies on: the log keeps its rows and an event that has left the queue status does not get it
  back.  \<open>job_act\<close> is what each single action guarantees: the contract \<open>db_step\<close> of \<open>Pipeline\<close>, no event
  returned to the queue status, at most one canonical event applied, and an entry in the account of the
  budget, the global one or a vendor's: a job that has passed the budget check holds a credit of the estimate until it has written
  its audit row.
\<close>

section \<open>Rely\<close>

definition settled :: "db \<Rightarrow> string \<Rightarrow> bool" where
  "settled d eid \<longleftrightarrow> (\<exists>st. status_of d eid = Some st \<and> st \<noteq> Queued)"

definition progress :: "db \<Rightarrow> db \<Rightarrow> bool" where
  "progress d d' \<longleftrightarrow> log_extends d d' \<and> (\<forall>eid. settled d eid \<longrightarrow> settled d' eid)"

lemma progress_refl: "progress d d"
  by (simp add: progress_def log_extends_refl)

lemma progress_trans: "progress d e \<Longrightarrow> progress e f \<Longrightarrow> progress d f"
  unfolding progress_def using log_extends_trans by blast

lemma progress_exists: "progress d d' \<Longrightarrow> event_exists d eid \<Longrightarrow> event_exists d' eid"
  by (auto simp: progress_def intro: log_extends_exists)

lemma progress_settled: "progress d d' \<Longrightarrow> settled d eid \<Longrightarrow> settled d' eid"
  by (simp add: progress_def)

lemma settled_same: "raw_events d' = raw_events d \<Longrightarrow> settled d' eid = settled d eid"
  by (simp add: settled_def status_of_def)

section \<open>History\<close>

text \<open>From \<open>d\<close> to \<open>d'\<close> the canonical events \<open>evs\<close> have been applied, in this order: the entities have
  gone through their lifecycles on these events, and the row stored for an event is the last one
  applied.\<close>

definition last_of :: "CanonicalEvent list \<Rightarrow> string \<Rightarrow> CanonicalEvent list \<Rightarrow> CanonicalEvent list" where
  "last_of evs e before = fold (\<lambda>ev row. if event_id ev = e then [ev] else row) evs before"

definition committed :: "CanonicalEvent list \<Rightarrow> db \<Rightarrow> db \<Rightarrow> bool" where
  "committed evs d d' \<longleftrightarrow> lives_run evs d d' \<and>
     (\<forall>e. stored_event d' e = last_of evs e (stored_event d e)) \<and>
     (\<forall>ev \<in> set evs. \<exists>ev0. normalize ev0 = Inr ev)"

lemma last_of_append: "last_of (xs @ ys) e before = last_of ys e (last_of xs e before)"
  by (simp add: last_of_def)

lemma committed_append: "committed xs d e \<Longrightarrow> committed ys e f \<Longrightarrow> committed (xs @ ys) d f"
  by (auto simp: committed_def last_of_append intro: lives_run_append)

lemma committed_Nil:
  assumes "projection_of d' = projection_of d" "canonical_events d' = canonical_events d"
  shows "committed [] d d'"
  using assms(2) lives_run_Nil [OF assms(1)] by (simp add: committed_def last_of_def stored_event_def)

lemma committed_one:
  assumes "lives_run [ev] d d'" "stored_event d' (event_id ev) = [ev]" "others_stored (event_id ev) d d'"
    "normalize ev0 = Inr ev"
  shows "committed [ev] d d'"
  using assms by (auto simp: committed_def last_of_def others_stored_def stored_event_def)

section \<open>Account\<close>

text \<open>Each budget has its account: the global one of everything, and one for each vendor.\<close>

definition charges :: "string option \<Rightarrow> string \<Rightarrow> bool" where
  "charges V vendor \<longleftrightarrow> (case V of None \<Rightarrow> True | Some v \<Rightarrow> vendor = v)"

abbreviation spent :: "string option \<Rightarrow> db \<Rightarrow> rat" where
  "spent V d \<equiv> spent_today d (\<lambda>a. charges V (la_decision a))"

definition budget :: "string option \<Rightarrow> fallback \<Rightarrow> rat" where
  "budget V F = (case V of None \<Rightarrow> fb_global_budget F | Some v \<Rightarrow> fb_vendor_budget F)"

lemma budget_allow_room:
  "budget_allow F d vendor (1/1000) \<Longrightarrow> charges V vendor \<Longrightarrow> spent V d + 1/1000 \<le> budget V F"
  by (cases V) (auto simp: budget_allow_def budget_def charges_def Let_def split: if_splits)

text \<open>No audit row is dated after the present.\<close>

definition dated :: "db \<Rightarrow> bool" where
  "dated d \<longleftrightarrow> (\<forall>a \<in> set (llm_audit d). la_created_at a \<le> clock d)"

definition pays :: "string option \<Rightarrow> fallback \<Rightarrow> db \<Rightarrow> rat \<Rightarrow> db \<Rightarrow> rat \<Rightarrow> bool" where
  "pays V F d c d' c' \<longleftrightarrow> (answers_within_estimate F \<longrightarrow> 0 \<le> c \<and> c \<le> 1/1000 \<longrightarrow>
     0 \<le> c' \<and> c' \<le> 1/1000 \<and>
     (spent V d' + c' \<le> spent V d + c \<or> spent V d' = spent V d \<and> spent V d + c' \<le> budget V F))"

definition job_act :: "string option \<Rightarrow> fallback \<Rightarrow> string \<Rightarrow> db \<Rightarrow> rat \<Rightarrow> db \<Rightarrow> rat \<Rightarrow> bool" where
  "job_act V F eid d c d' c' \<longleftrightarrow> db_step eid d d' \<and> progress d d' \<and>
     (worker_ok d \<longrightarrow> (\<exists>evs. committed evs d d')) \<and>
     clock d' = clock d \<and> (dated d \<longrightarrow> dated d') \<and> pays V F d c d' c'"

lemma pays_same: "llm_audit d' = llm_audit d \<Longrightarrow> clock d' = clock d \<Longrightarrow> pays V F d c d' c"
  by (simp add: pays_def spent_cong [of d' d])

lemma dated_same: "llm_audit d' = llm_audit d \<Longrightarrow> clock d' = clock d \<Longrightarrow> dated d \<Longrightarrow> dated d'"
  by (simp add: dated_def)

lemma db_step_progress:
  assumes "db_step eid d d'" "settled d eid \<Longrightarrow> settled d' eid"
  shows "progress d d'"
proof -
  have "settled d e \<Longrightarrow> settled d' e" for e
    using assms by (cases "e = eid") (auto simp: db_step_def settled_def status_of_def)
  with assms(1) show ?thesis by (auto simp: progress_def db_step_def intro: log_extends_same)
qed

text \<open>Actions that touch neither the projection nor the log nor the audit.\<close>

definition plain :: "db \<Rightarrow> db \<Rightarrow> bool" where
  "plain d d' \<longleftrightarrow> quiet d d' \<and> llm_audit d' = llm_audit d \<and> clock d' = clock d"

lemma plain_act:
  assumes "db_step eid d d'" "plain d d'"
  shows "job_act V F eid d c d' c"
proof -
  have "raw_events d' = raw_events d" using assms(2) by (simp add: plain_def quiet_def)
  from db_step_progress [OF assms(1)] settled_same [OF this] assms show ?thesis
    by (auto simp: job_act_def plain_def quiet_def intro: committed_Nil pays_same dated_same)
qed

lemma no_act: "job_act V F eid d c d c"
  by (rule plain_act) (simp_all add: db_step_refl plain_def quiet_refl)

interpretation jobs: interference "\<lambda>w v. progress (wdb w) (wdb v)"
  "\<lambda>w c v c'. job_act V F eid (wdb w) c (wdb v) c'" for V F eid
  by unfold_locales (auto intro: progress_refl progress_trans)

section \<open>Rules for actions\<close>

text \<open>What a part of a job leaves: if it does not raise, \<open>P\<close> of its result and its credit.\<close>

definition leaves :: "('a \<Rightarrow> rat \<Rightarrow> bool) \<Rightarrow> 'a result \<Rightarrow> world \<Rightarrow> rat \<Rightarrow> bool" where
  "leaves P r v c \<longleftrightarrow> (case r of Inl e \<Rightarrow> True | Inr x \<Rightarrow> P x c)"

lemma leaves_simps [simp]: "leaves P (Inl e) v c" "leaves P (Inr x) v c \<longleftrightarrow> P x c"
  by (simp_all add: leaves_def)

lemma act_exists: "job_act V F eid d c d' c' \<Longrightarrow> event_exists d e \<Longrightarrow> event_exists d' e"
  by (auto simp: job_act_def intro: progress_exists)

lemma then_do:
  assumes "event_exists (wdb w) eid" "jobs.secures V F eid j (leaves P) w c"
    and "\<And>x v c. P x c \<Longrightarrow> event_exists (wdb v) eid \<Longrightarrow> jobs.secures V F eid (k x) Q v c"
    and "\<And>e v c. Q (Inl e) v c"
  shows "jobs.secures V F eid (bindj j k) Q w c"
proof (rule jobs.secures_seq [where I = "\<lambda>w. event_exists (wdb w) eid" and P = P])
  show "jobs.secures V F eid j (\<lambda>r v c. \<forall>x. r = Inr x \<longrightarrow> P x c) w c"
    using assms(2) by (rule jobs.secures_mono) auto
qed (use assms in \<open>auto intro: progress_exists act_exists\<close>)

lemma leaves_ret: "P x c \<Longrightarrow> jobs.secures V F eid (ret x) (leaves P) w c"
  by (rule jobs.secures_ret) simp

lemma leaves_raises: "jobs.secures V F eid (raises e) (leaves P) w c"
  by (rule jobs.secures_raises) simp

lemma leaves_of_result: "(\<And>x. r = Inr x \<Longrightarrow> P x c) \<Longrightarrow> jobs.secures V F eid (of_result r) (leaves P) w c"
  by (cases r) (auto simp: of_result_def intro: leaves_ret leaves_raises)

lemma leaves_reads: "(\<And>d. P (q d) c) \<Longrightarrow> jobs.secures V F eid (reads q) (leaves P) w c"
  unfolding reads_def by (rule jobs.secures_atomically) (auto intro: no_act)

lemma leaves_reads_here:
  assumes "event_exists (wdb w) eid" "\<And>d. event_exists d eid \<Longrightarrow> P (q d) c"
  shows "jobs.secures V F eid (reads q) (leaves P) w c"
  unfolding reads_def
proof (rule jobs.secures_atomically, goal_cases)
  case (1 v)
  show ?case using assms(2) [OF progress_exists [OF 1 assms(1)]] no_act by (intro exI [of _ c]) simp
qed

lemma leaves_calls:
  "(\<And>n k. P (fb_complete F n prompt schema, k) c) \<Longrightarrow>
    jobs.secures V F eid (calls_provider F prompt schema) (leaves P) w c"
  unfolding calls_provider_def by (rule jobs.secures_atomically) (auto intro: no_act)

lemma leaves_executes:
  assumes "\<And>d d'. stmt d = Inr d' \<Longrightarrow> db_step eid d d' \<and> plain d d'" "P () c"
  shows "jobs.secures V F eid (executes stmt) (leaves P) w c"
  unfolding executes_def
proof (rule jobs.secures_atomically, goal_cases)
  case (1 v)
  show ?case
    by (rule exI [of _ c]) (use assms no_act plain_act in \<open>auto simp: on_db_def split: sum.splits\<close>)
qed

text \<open>The budget check gives the credit, the audit row takes it.\<close>

lemma leaves_budget:
  assumes "P False c" "P True (if charges V vendor then 1/1000 else c)"
  shows "jobs.secures V F eid (reads (\<lambda>d. budget_allow F d vendor (1/1000))) (leaves P) w c"
  unfolding reads_def
proof (rule jobs.secures_atomically, goal_cases)
  case (1 v)
  let ?c = "if budget_allow F (wdb v) vendor (1/1000) \<and> charges V vendor then 1/1000 else c"
  have "job_act V F eid (wdb v) c (wdb v) ?c"
    using budget_allow_room [of F "wdb v" vendor V] no_act [of V F eid "wdb v" c] by (simp add: job_act_def pays_def)
  then show ?case
    by (intro exI [of _ ?c])
      (use assms in \<open>cases "budget_allow F (wdb v) vendor (1/1000)"; cases "charges V vendor"; simp\<close>)
qed

lemma audit_act:
  assumes "audit eid out decision d = Inr d'"
    and "lo_source out = ''llm'' \<Longrightarrow> charges V decision \<Longrightarrow> answers_within_estimate F \<Longrightarrow>
      c = 1/1000 \<and> lo_cost_estimate out \<le> 1/1000"
  shows "job_act V F eid d c d' (if lo_source out = ''llm'' \<and> charges V decision then 0 else c)"
proof -
  from assms(1) obtain a where a: "d' = d\<lparr>llm_audit := llm_audit d @ [a]\<rparr>" "la_source a = lo_source out"
      "la_decision a = decision" "la_created_at a = clock d" "numeric_10_6 (lo_cost_estimate out) = Inr (la_cost_estimate a)"
    using audit_cases by metis
  have s: "spent V d' = spent V d + (if lo_source out = ''llm'' \<and> charges V decision then la_cost_estimate a else 0)"
    by (simp add: a spent_append)
  have "la_cost_estimate a \<le> 1/1000" if "lo_cost_estimate out \<le> 1/1000"
    using numeric_10_6_le [OF a(5), of 1000] that by simp
  then have "pays V F d c d' (if lo_source out = ''llm'' \<and> charges V decision then 0 else c)"
    using assms(2) s by (auto simp: pays_def)
  moreover have same: "projection_of d' = projection_of d" "canonical_events d' = canonical_events d"
    "raw_events d' = raw_events d" "clock d' = clock d" "dated d \<Longrightarrow> dated d'"
    by (simp_all add: a projection_of_def dated_def)
  moreover have step: "db_step eid d d'"
    by (rule db_step_llm [OF audit_only [OF assms(1)]]) (simp add: audit_cache_ok [OF assms(1)])
  moreover have "progress d d'" using db_step_progress [OF step] settled_same [OF same(3)] by simp
  moreover have "\<exists>evs. committed evs d d'" using committed_Nil [OF same(1,2)] by blast
  ultimately show ?thesis unfolding job_act_def by blast
qed

lemma leaves_audit:
  assumes "lo_source out = ''llm'' \<Longrightarrow> charges V decision \<Longrightarrow> answers_within_estimate F \<Longrightarrow>
      c = 1/1000 \<and> lo_cost_estimate out \<le> 1/1000"
  shows "jobs.secures V F eid (executes (audit eid out decision)) (leaves (\<lambda>_ _. True)) w c"
  unfolding executes_def
proof (rule jobs.secures_atomically, goal_cases)
  case (1 v)
  show ?case
  proof (cases "audit eid out decision (wdb v)")
    case (Inl e)
    then show ?thesis by (intro exI [of _ c]) (simp add: on_db_def no_act)
  next
    case (Inr d)
    from audit_act [OF this assms] show ?thesis
      by (intro exI [of _ "if lo_source out = ''llm'' \<and> charges V decision then 0 else c"]) (use Inr in \<open>simp add: on_db_def\<close>)
  qed
qed

text \<open>Actions that settle the event.\<close>

lemma settling_act:
  assumes "db_step eid d d'" "settled d' eid" "worker_ok d \<Longrightarrow> \<exists>evs. committed evs d d'"
    and "llm_audit d' = llm_audit d" "clock d' = clock d"
  shows "job_act V F eid d c d' c"
  using assms db_step_progress [OF assms(1)] by (simp add: job_act_def pays_same dated_same)

definition finishes :: "string \<Rightarrow> 'a result \<Rightarrow> world \<Rightarrow> rat \<Rightarrow> bool" where
  "finishes eid r v c \<longleftrightarrow> (case r of Inl e \<Rightarrow> True | Inr x \<Rightarrow> settled (wdb v) eid)"

lemma finishes_simps [simp]: "finishes eid (Inl e) v c" "finishes eid (Inr x) v c \<longleftrightarrow> settled (wdb v) eid"
  by (simp_all add: finishes_def)

lemma finishes_atomically:
  assumes "\<And>v. event_exists (wdb v) eid \<Longrightarrow> (\<exists>e. m v = (Inl e, v)) \<or>
      settled (wdb (snd (m v))) eid \<and> job_act V F eid (wdb v) c (wdb (snd (m v))) c"
    and "event_exists (wdb w) eid"
  shows "jobs.secures V F eid (atomically m) (finishes eid) w c"
proof (rule jobs.secures_atomically, goal_cases)
  case (1 v)
  show ?case
  proof (rule exI [of _ c])
    show "job_act V F eid (wdb v) c (wdb (snd (m v))) c \<and> (\<forall>u. progress (wdb (snd (m v))) (wdb u) \<longrightarrow>
        finishes eid (fst (m v)) u c)"
      using assms(1) [OF progress_exists [OF 1 assms(2)]] no_act progress_settled
      by (auto simp: finishes_def split: sum.splits)
  qed
qed

section \<open>The operations\<close>

lemma plain_llm: "llm_only d d' \<Longrightarrow> llm_audit d' = llm_audit d \<Longrightarrow> plain d d'"
  by (simp add: plain_def quiet_llm llm_only_clock)

lemma cache_set_plain: "cache_set key out d = Inr d' \<Longrightarrow> db_step eid d d' \<and> plain d d'"
  using cache_set_only cache_set_ok by (auto intro!: db_step_llm plain_llm elim: cache_set_cases)

lemma persist_plain: "persist_event_type d vid raw c s conf src = Inr d' \<Longrightarrow> db_step eid d d' \<and> plain d d'"
  using db_step_persist quiet_persist
  by (auto simp: plain_def persist_event_type_def bindE_eq_Inr Let_def)

lemma increment_plain:
  "increment_success i d = Inr d' \<Longrightarrow> db_step eid d d' \<and> plain d d'"
  "increment_failure i d = Inr d' \<Longrightarrow> db_step eid d d' \<and> plain d d'"
  using db_step_increment quiet_increment
  by (auto simp: plain_def increment_success_def increment_failure_def map_schemas_def split: if_splits)

definition answers :: "fallback \<Rightarrow> rat \<Rightarrow> LLMResult result \<times> nat \<Rightarrow> rat \<Rightarrow> bool" where
  "answers F c p c' \<longleftrightarrow> c' = c \<and> (answers_within_estimate F \<longrightarrow> (\<forall>res. fst p = Inr res \<longrightarrow> lr_cost_estimate res \<le> 1/1000))"

definition paid_for :: "fallback \<Rightarrow> rat \<Rightarrow> LLMResult \<times> json \<times> nat \<Rightarrow> rat \<Rightarrow> bool" where
  "paid_for F c p c' \<longleftrightarrow> c' = c \<and> (answers_within_estimate F \<longrightarrow> lr_cost_estimate (fst p) \<le> 1/1000)"

lemma calls_answers: "jobs.secures V F eid (calls_provider F prompt schema) (leaves (answers F c)) w c"
  by (rule leaves_calls) (auto simp: answers_def answers_within_estimate_def)

lemma checked_paid: "checked X F response = Inr (res, data) \<Longrightarrow> answers F c (response, n) c' \<Longrightarrow> paid_for F c (res, data, m) c'"
  by (auto simp: checked_def bindE_eq_Inr answers_def paid_for_def)

lemma ask_model_leaves:
  assumes "event_exists (wdb w) eid"
  shows "jobs.secures V F eid (ask_model_job X F prompt) (leaves (paid_for F c)) w c"
  unfolding ask_model_job_def
proof (rule then_do [OF assms calls_answers], goal_cases)
  case (1 x v c')
  obtain first n where x: "x = (first, n)" by (cases x)
  have "c' = c" using 1(1) by (simp add: answers_def)
  show ?case
  proof (cases "checked X F first")
    case (Inr p)
    obtain res data where p: "p = (res, data)" by (cases p)
    have "jobs.secures V F eid (ret (res, data, n)) (leaves (paid_for F c)) v c'"
      by (rule leaves_ret, rule checked_paid [OF Inr [unfolded p] 1(1) [unfolded x]])
    with Inr x p show ?thesis by simp
  next
    case (Inl e)
    have "jobs.secures V F eid (bindj (calls_provider F p (fb_schema F)) (\<lambda>(second, n). case checked X F second of
        Inr (res, data) \<Rightarrow> ret (res, data, n)
      | Inl second_err \<Rightarrow> raises (if invalid_answer second_err then LLMValidationError else second_err)))
      (leaves (paid_for F c)) v c'" for p
      unfolding \<open>c' = c\<close>
      by (rule then_do [OF 1(2) calls_answers])
        (auto intro!: leaves_ret leaves_raises intro: checked_paid split: sum.splits)
    with Inl x show ?thesis by (simp add: leaves_raises)
  qed
qed simp

abbreviation any :: "'a \<Rightarrow> rat \<Rightarrow> bool" where
  "any \<equiv> \<lambda>_ _. True"

lemma leaves_any: "jobs.secures V F eid j (leaves P) w c \<Longrightarrow> jobs.secures V F eid j (leaves any) w c"
  by (erule jobs.secures_mono) (simp add: leaves_def split: sum.splits)

lemma classify_extract_leaves:
  assumes "event_exists (wdb w) eid"
  shows "jobs.secures V F eid (classify_extract_job X F eid hint payload) (leaves any) w c"
  unfolding classify_extract_job_def Let_def
proof (rule then_do [OF assms leaves_reads [where P = any]], goal_cases)
  case (2 cached v c)
  show ?case
  proof (cases cached)
    case (Some row)
    have "jobs.secures V F eid (bindj (executes (audit eid (cached_outcome F row) hint)) (\<lambda>_. ret (cached_outcome F row)))
        (leaves any) v c"
      by (rule then_do [OF 2(2) leaves_audit]) (auto simp: cached_outcome_def intro: leaves_ret)
    with Some show ?thesis by simp
  next
    case None
    have paid: "jobs.secures V F eid (bindj (executes (cache_set key (fresh_outcome F res data n))) (\<lambda>_.
        bindj (executes (audit eid (fresh_outcome F res data n) hint)) (\<lambda>_. ret (fresh_outcome F res data n))))
        (leaves any) u c"
      if c0: "charges V hint \<longrightarrow> c0 = 1/1000" and p: "paid_for F c0 (res, data, n) c" and u: "event_exists (wdb u) eid"
      for key res data n u c c0
    proof (rule then_do [OF u leaves_executes [where P = "\<lambda>_. paid_for F c0 (res, data, n)"]], goal_cases)
      case (3 x u c)
      show ?case
        by (rule then_do [OF 3(2) leaves_audit])
          (use c0 3(1) in \<open>auto simp: paid_for_def fresh_outcome_def intro: leaves_ret\<close>)
    qed (use p cache_set_plain in auto)
    have "jobs.secures V F eid (if \<not> allowed then raises BudgetExceeded
        else bindj (ask_model_job X F (render_prompt X F payload)) (\<lambda>(res, data, n).
            bindj (executes (cache_set (extract_key X F payload hint) (fresh_outcome F res data n))) (\<lambda>_.
            bindj (executes (audit eid (fresh_outcome F res data n) hint)) (\<lambda>_. ret (fresh_outcome F res data n)))))
        (leaves any) u c"
      if "allowed \<longrightarrow> charges V hint \<longrightarrow> c = 1/1000" "event_exists (wdb u) eid" for allowed u c
    proof (cases allowed)
      case True
      with that(1) have c: "charges V hint \<longrightarrow> c = 1/1000" by blast
      have "jobs.secures V F eid (bindj (ask_model_job X F (render_prompt X F payload)) (\<lambda>(res, data, n).
            bindj (executes (cache_set (extract_key X F payload hint) (fresh_outcome F res data n))) (\<lambda>_.
            bindj (executes (audit eid (fresh_outcome F res data n) hint)) (\<lambda>_. ret (fresh_outcome F res data n)))))
        (leaves any) u c"
        by (rule then_do [OF that(2) ask_model_leaves [OF that(2)]]) (use paid [OF c] in auto)
      with True show ?thesis by (simp only: not_True_eq_False if_False)
    qed (simp add: leaves_raises)
    then have "jobs.secures V F eid (bindj (reads (\<lambda>d. budget_allow F d hint (1 / 1000))) (\<lambda>allowed.
        if \<not> allowed then raises BudgetExceeded
        else bindj (ask_model_job X F (render_prompt X F payload)) (\<lambda>(res, data, n).
            bindj (executes (cache_set (extract_key X F payload hint) (fresh_outcome F res data n))) (\<lambda>_.
            bindj (executes (audit eid (fresh_outcome F res data n) hint)) (\<lambda>_. ret (fresh_outcome F res data n))))))
        (leaves any) v c"
      by (intro then_do [OF 2(2) leaves_budget [where P = "\<lambda>allowed c. allowed \<longrightarrow> charges V hint \<longrightarrow> c = 1/1000"]]) simp_all
    with None show ?thesis by simp
  qed
qed simp_all

lemma classify_event_type_leaves:
  assumes "event_exists (wdb w) eid"
  shows "jobs.secures V F eid (classify_event_type_job X F vendor raw) (leaves any) w c"
  unfolding classify_event_type_job_def Let_def
proof (rule then_do [OF assms leaves_reads [where P = any]], goal_cases)
  case (2 cached v c)
  have answered: "jobs.secures V F eid (bindj (executes (cache_set key out)) (\<lambda>_. of_result r)) (leaves any) u c"
    if "event_exists (wdb u) eid" for key out r u c
    by (rule then_do [OF that leaves_executes [where P = any]])
      (use cache_set_plain in \<open>auto intro: leaves_of_result\<close>)
  have called: "jobs.secures V F eid (bindj (calls_provider F prompt schema) (\<lambda>(answer, n). case answer of
        Inl e \<Rightarrow> ret None
      | Inr res \<Rightarrow> (case parse_json X (lr_text res) of
           None \<Rightarrow> ret None
         | Some data \<Rightarrow> bindj (executes (cache_set key (event_type_outcome res data)))
             (\<lambda>_. of_result (read_event_type X (JObj data)))))) (leaves any) u c"
    if "event_exists (wdb u) eid" for prompt schema key u c
    by (rule then_do [OF that leaves_calls [where P = any]])
      (auto intro!: leaves_ret answered split: sum.splits option.splits)
  show ?case
  proof (cases cached)
    case (Some row)
    then show ?thesis by (auto intro: leaves_of_result)
  next
    case None
    then show ?thesis
      by (auto intro!: then_do [OF 2(2) leaves_reads [where P = any]] leaves_ret called)
  qed
qed simp_all

definition names :: "string \<Rightarrow> CanonicalEvent option \<Rightarrow> bool" where
  "names eid found \<longleftrightarrow> (\<forall>ev. found = Some ev \<longrightarrow> event_id ev = eid)"

lemma names_None [simp]: "names eid None"
  by (simp add: names_def)

lemma shape_outcome_names: "shape_outcome X eid out = Inr r \<Longrightarrow> names eid (ar_canonical_event r)"
  using shape_outcome_ok [of X eid out r] build_canonical_event_id [of X eid "lo_data out" "lo_source out"]
  by (auto simp: names_def split: if_splits)

lemma normalize_llm_leaves:
  assumes "event_exists (wdb w) eid"
  shows "jobs.secures V F eid (normalize_llm_job X F payload eid hint)
     (leaves (\<lambda>r _. names eid (ar_canonical_event r))) w c"
proof -
  let ?named = "\<lambda>r _. \<forall>a. r = Inr a \<longrightarrow> names eid (ar_canonical_event a)"
  have "jobs.secures V F eid (bindj (classify_extract_job X F eid (str_or hint ''unknown'') payload)
      (\<lambda>out. ret (shape_outcome X eid out))) (leaves ?named) w c"
    by (rule then_do [OF assms classify_extract_leaves [OF assms]])
      (auto intro!: leaves_ret dest: shape_outcome_names)
  note inner = this
  show ?thesis
    unfolding normalize_llm_job_def
  proof (rule then_do [where P = ?named, OF assms], rule jobs.secures_catchj, rule jobs.secures_mono [OF inner], goal_cases)
    case (1 r v c)
    then show ?case
      by (auto intro!: leaves_ret leaves_raises simp: adapter_problem_def names_def split: sum.splits exn.splits)
  qed (auto intro: leaves_of_result)
qed

lemma persist_discovered_plain: "persist_discovered_type d v raw cls st = d' \<Longrightarrow> db_step eid d d' \<and> plain d d'"
  by (auto simp: persist_discovered_type_def plain_def quiet_def projection_of_def raw_log_def schemas_ok_def
      cache_ok_def intro!: db_step_frame)

lemma persist_schema_plain:
  assumes "persist_schema d vendor fp doc eid = (d', r)"
  shows "db_step eid d d' \<and> plain d d'"
proof
  note frame = persist_schema_frame [OF assms]
  have "canonical_events d' = canonical_events d"
    using assms by (auto simp: persist_schema_def Let_def split: option.splits if_splits)
  with frame show "plain d d'" by (simp add: plain_def quiet_def)
  show "db_step eid d d'"
    by (rule db_step_frame) (use frame persist_schema_ok [OF _ assms] in \<open>simp_all add: cache_ok_def\<close>)
qed

lemma persist_leaves:
  "jobs.secures V F eid (atomically (\<lambda>w. case persist_schema (wdb w) vid fp doc eid of (d1, r) \<Rightarrow> (r, w\<lparr>wdb := d1\<rparr>)))
     (leaves any) w c"
proof (rule jobs.secures_atomically, goal_cases)
  case (1 v)
  obtain d1 r where p: "persist_schema (wdb v) vid fp doc eid = (d1, r)" by fastforce
  from persist_schema_plain [OF p] plain_act show ?case
    by (intro exI [of _ c]) (auto simp: p leaves_def split: sum.splits)
qed

lemma discover_leaves:
  assumes "event_exists (wdb w) eid"
  shows "jobs.secures V F eid (discover_job X vid payload out eid) (leaves any) w c"
proof -
  have typed: "jobs.secures V F eid (bindj (executes (\<lambda>d. Inr (persist_discovered_type d vid raw cls state)))
      (\<lambda>_. ret r)) (leaves any) v c" if "event_exists (wdb v) eid" for raw cls state r v c
    by (rule then_do [OF that leaves_executes [where P = any]])
      (use persist_discovered_plain in \<open>auto intro: leaves_ret\<close>)
  show ?thesis
    unfolding discover_job_def Let_def
    by (auto intro!: then_do [where P = any] leaves_ret leaves_raises leaves_of_result persist_leaves typed assms
        split: option.splits json.splits)
qed

lemma leaves_caught:
  assumes "jobs.secures V F eid j (leaves any) w c"
  shows "jobs.secures V F eid (catchj j (\<lambda>_. ret x)) (leaves any) w c"
  by (rule jobs.secures_catchj, rule jobs.secures_mono [OF assms])
    (auto intro: leaves_ret split: sum.splits)

lemma discover_after_leaves:
  assumes "event_exists (wdb w) eid"
  shows "jobs.secures V F eid (discover_after_job X eid vid payload r) (leaves any) w c"
proof -
  have "jobs.secures V F eid (bindj (discover_job X vid payload out eid) (\<lambda>_. ret ())) (leaves any) w c" for out
    by (rule then_do [OF assms discover_leaves [OF assms]]) (auto intro: leaves_ret)
  then have "jobs.secures V F eid (catchj (bindj (discover_job X vid payload out eid) (\<lambda>_. ret ())) (\<lambda>_. ret ()))
      (leaves any) w c" for out
    by (rule leaves_caught)
  then show ?thesis by (auto simp: discover_after_job_def intro: leaves_ret split: json.splits)
qed

text \<open>The ends of the pipeline.\<close>

lemma executes_finishes:
  assumes "\<And>d d'. event_exists d eid \<Longrightarrow> stmt d = Inr d' \<Longrightarrow> settled d' eid \<and> db_step eid d d' \<and>
      projection_of d' = projection_of d \<and> canonical_events d' = canonical_events d \<and>
      llm_audit d' = llm_audit d \<and> clock d' = clock d"
    and "event_exists (wdb w) eid"
  shows "jobs.secures V F eid (executes stmt) (finishes eid) w c"
  unfolding executes_def
proof (rule finishes_atomically [OF _ assms(2)])
  fix v :: world assume "event_exists (wdb v) eid"
  then show "(\<exists>e. on_db stmt v = (Inl e, v)) \<or> settled (wdb (snd (on_db stmt v))) eid \<and>
      job_act V F eid (wdb v) c (wdb (snd (on_db stmt v))) c"
  proof (cases "stmt (wdb v)")
    case (Inr d)
    note act = assms(1) [OF \<open>event_exists (wdb v) eid\<close> Inr]
    then have "committed [] (wdb v) d" by (simp add: committed_Nil)
    then have "job_act V F eid (wdb v) c d c" using act by (intro settling_act) auto
    with act Inr show ?thesis by (simp add: on_db_def)
  qed (simp add: on_db_def)
qed

lemma mark_status_frame:
  "projection_of (mark_status eid st err d) = projection_of d" "canonical_events (mark_status eid st err d) = canonical_events d"
  "llm_audit (mark_status eid st err d) = llm_audit d" "clock (mark_status eid st err d) = clock d"
  by (simp_all add: mark_status_def set_raw_def projection_of_def)

lemma mark_status_settles: "event_exists d eid \<Longrightarrow> st \<noteq> Queued \<Longrightarrow> settled (mark_status eid st err d) eid"
  using status_mark by (simp add: settled_def)

lemma mark_finishes:
  assumes "event_exists (wdb w) eid" "st \<noteq> Queued"
  shows "jobs.secures V F eid (executes (\<lambda>d. Inr (mark_status eid st err d))) (finishes eid) w c"
  by (rule executes_finishes [OF _ assms(1)])
    (use assms(2) mark_status_settles mark_status_frame db_step_mark_status in auto)

lemma mark_review_finishes:
  assumes "event_exists (wdb w) eid"
  shows "jobs.secures V F eid (executes (mark_review eid reason detail)) (finishes eid) w c"
proof (rule executes_finishes [OF _ assms])
  fix d d' assume m: "mark_review eid reason detail d = Inr d'"
  have "llm_audit d' = llm_audit d" "clock d' = clock d"
    using m by (auto simp: mark_review_def mark_status_frame split: if_splits)
  with m mark_review_status [OF m] mark_review_quiet [OF m] db_step_mark_review [OF m]
  show "settled d' eid \<and> db_step eid d d' \<and> projection_of d' = projection_of d \<and>
      canonical_events d' = canonical_events d \<and> llm_audit d' = llm_audit d \<and> clock d' = clock d"
    by (simp add: settled_def)
qed

lemma apply_canonical_frame:
  assumes "apply_canonical eid ev d = Inr (d', out)" "event_id ev = eid"
  shows "stored_event d' eid = [ev] \<and> llm_audit d' = llm_audit d \<and> clock d' = clock d"
proof (rule apply_canonical_cases [OF assms(1)])
  fix d1 d2
  assume u: "upsert_canonical_event ev d = Inr d1" and a: "apply_event d1 ev = Inr (d2, out)"
    and d': "d' = set_raw eid (\<lambda>r. r\<lparr>rw_vendor_id := coalesce (rw_vendor_id r) (Some (vendor_id ev)),
            rw_status := Processed, rw_error := None, rw_processed_at := Some (clock d)\<rparr>) d2"
  from u obtain t where t: "d1 = d\<lparr>canonical_events := t\<rparr>" "tbl_get t eid = Some \<lparr>cn_event = ev, cn_normalized_at = clock d\<rparr>"
    using assms(2) by (auto elim!: upsert_canonical_cases)
  from apply_event_rest [OF a] t show "stored_event d' eid = [ev] \<and> llm_audit d' = llm_audit d \<and> clock d' = clock d"
    by (simp add: d' rest_of_def set_raw_def stored_event_def)
qed

lemma apply_canonical_act:
  assumes "apply_canonical eid ev d = Inr (d', out)" "event_id ev = eid" "normalize ev0 = Inr ev"
  shows "settled d' eid \<and> job_act V F eid d c d' c"
proof -
  note frame = apply_canonical_frame [OF assms(1,2)]
  have settled: "settled d' eid"
    using apply_canonical_concludes [OF assms] by (simp add: concluded_def settled_def)
  have "\<exists>evs. committed evs d d'" if "worker_ok d"
  proof -
    have "effect eid (Inr (Applied out)) d d'"
      using apply_canonical_effect [OF _ assms(1,2)] that by (simp add: worker_ok_def)
    then show ?thesis using committed_one [OF _ _ _ assms(3)] frame assms(2) by (auto simp: effect_def)
  qed
  with settled frame db_step_apply_canonical [OF assms(1)] show ?thesis by (simp add: settling_act)
qed

lemma finalize_finishes:
  assumes "event_exists (wdb w) eid" "event_id ev = eid"
  shows "jobs.secures V F eid (finalize_job X eid vid ev) (finishes eid) w c"
proof (cases "normalize (override_vendor vid ev)")
  case (Inl e)
  have "jobs.secures V F eid (bindj (executes (mark_review eid reason detail)) (\<lambda>_. ret RequiresReview)) (finishes eid) w c"
    for reason detail
    by (rule jobs.secures_bindj, rule jobs.secures_mono [OF mark_review_finishes [OF assms(1)]])
      (auto simp: finishes_def intro!: jobs.secures_ret intro: progress_settled split: sum.splits)
  with Inl show ?thesis by (auto simp: finalize_job_def intro: jobs.secures_raises)
next
  case (Inr ev')
  then have id: "event_id ev' = eid" using normalize_event_id assms(2) by simp
  have "jobs.secures V F eid (atomically (\<lambda>w. case apply_canonical eid ev' (wdb w) of
              Inl e \<Rightarrow> (Inl e, w)
            | Inr (d, outcome) \<Rightarrow> (Inr (Applied outcome), w\<lparr>wdb := d\<rparr>))) (finishes eid) w c"
    by (rule finishes_atomically [OF _ assms(1)])
      (use apply_canonical_act [OF _ id Inr] in \<open>auto split: sum.splits\<close>)
  with Inr show ?thesis by (simp add: finalize_job_def)
qed

lemma finishes_then:
  assumes "jobs.secures V F eid j (finishes eid) w c"
  shows "jobs.secures V F eid (bindj j (\<lambda>_. ret x)) (finishes eid) w c"
  by (rule jobs.secures_bindj, rule jobs.secures_mono [OF assms])
    (auto intro!: jobs.secures_ret intro: progress_settled split: sum.splits)

lemma classify_and_persist_leaves:
  assumes "event_exists (wdb w) eid"
  shows "jobs.secures V F eid (classify_and_persist_job X F vid raw) (leaves any) w c"
  unfolding classify_and_persist_job_def
proof (rule then_do [OF assms classify_event_type_leaves [OF assms]], goal_cases)
  case (1 found v c)
  have "jobs.secures V F eid (bindj (executes (\<lambda>d. persist_event_type d vid raw cls state conf ''llm''))
      (\<lambda>_. ret r)) (leaves any) v c" for cls state conf r
    by (rule then_do [OF 1(2) leaves_executes [where P = any]]) (use persist_plain in \<open>auto intro: leaves_ret\<close>)
  then show ?case by (auto intro: leaves_ret leaves_raises split: option.splits sum.splits)
qed simp

lemma resolve_leaves:
  assumes "event_exists (wdb w) eid"
  shows "jobs.secures V F eid (resolve_event_type_job X F vid raw) (leaves any) w c"
  unfolding resolve_event_type_job_def
  by (rule then_do [OF assms leaves_reads [where P = any]])
    (auto intro: leaves_ret classify_and_persist_leaves split: option.splits)

lemma via_schema_leaves:
  assumes "event_exists (wdb w) eid"
  shows "jobs.secures V F eid (process_via_schema_job X F eid vid payload m) (leaves (\<lambda>r _. names eid r)) w c"
proof -
  let ?P = "\<lambda>r _. names eid (ex_canonical_event r)"
  have named: "names eid (ex_canonical_event r)" if "extract_event X payload eid vid doc st cls = Inr r" for doc st cls r
    using extract_event_id [OF that] by (simp add: names_def)
  have counted: "jobs.secures V F eid (bindj (executes (increment_success i)) (\<lambda>_. ret (ex_canonical_event r)))
      (leaves (\<lambda>r _. names eid r)) v c" if "event_exists (wdb v) eid" "names eid (ex_canonical_event r)" for i r v c
    by (rule then_do [OF that(1) leaves_executes [where P = any]])
      (use that(2) increment_plain in \<open>auto intro: leaves_ret\<close>)
  have second: "jobs.secures V F eid (bindj (of_result (extract_event X payload eid vid doc st cls)) (\<lambda>second.
      if \<not> ex_success second then ret None
      else bindj (executes (increment_success i)) (\<lambda>_. ret (ex_canonical_event second))))
      (leaves (\<lambda>r _. names eid r)) v c" if "event_exists (wdb v) eid" for doc st cls i v c
    by (rule then_do [OF that leaves_of_result [where P = ?P]])
      (use named counted in \<open>auto intro!: leaves_ret\<close>)
  have resolved: "jobs.secures V F eid (bindj (resolve_event_type_job X F vid raw) (\<lambda>mapping. case mapping of
      None \<Rightarrow> ret None
    | Some (cls, state) \<Rightarrow> bindj (of_result (extract_event X payload eid vid doc (Some state) (Some cls))) (\<lambda>second.
        if \<not> ex_success second then ret None
        else bindj (executes (increment_success i)) (\<lambda>_. ret (ex_canonical_event second)))))
      (leaves (\<lambda>r _. names eid r)) v c" if "event_exists (wdb v) eid" for raw doc i v c
    by (rule then_do [OF that resolve_leaves [OF that]])
      (auto intro!: leaves_ret second split: option.splits)
  show ?thesis
    unfolding process_via_schema_job_def Let_def
    by (rule then_do [OF assms leaves_of_result [where P = ?P]])
      (use named counted in \<open>auto intro!: leaves_ret resolved split: option.splits\<close>)
qed

lemma via_llm_finishes:
  assumes "event_exists (wdb w) eid"
  shows "jobs.secures V F eid (process_via_llm_job X F eid vid payload) (finishes eid) w c"
  unfolding process_via_llm_job_def
proof (rule then_do [OF assms normalize_llm_leaves [OF assms]], goal_cases)
  case (1 r v c)
  have fin: "jobs.secures V F eid (bindj (discover_after_job X eid vid payload r) (\<lambda>_. finalize_job X eid vid ev))
      (finishes eid) v c" if "ar_canonical_event r = Some ev" for ev
    by (rule then_do [OF 1(2) discover_after_leaves [OF 1(2)]])
      (use 1(1) that in \<open>auto intro!: finalize_finishes simp: names_def\<close>)
  have "jobs.secures V F eid (bindj (executes (mark_review eid reason detail)) (\<lambda>_. ret RequiresReview)) (finishes eid) v c"
    "jobs.secures V F eid (bindj (executes (\<lambda>d. Inr (mark_pending_llm eid reason d))) (\<lambda>_. ret PendingLLM)) (finishes eid) v c"
    for reason detail
    using 1(2) by (auto intro!: finishes_then mark_review_finishes mark_finishes simp: mark_pending_llm_def)
  with fin show ?case by (auto split: AdapterStatus.splits option.splits)
qed simp

lemma known_finishes:
  assumes "event_exists (wdb w) eid"
  shows "jobs.secures V F eid (process_known_job X F eid vid payload) (finishes eid) w c"
  unfolding process_known_job_def
proof (rule then_do [OF assms leaves_reads [where P = any]], goal_cases)
  case (2 found v c)
  have failed: "jobs.secures V F eid (bindj (executes (increment_failure i)) (\<lambda>_. process_via_llm_job X F eid vid payload))
      (finishes eid) u c" if "event_exists (wdb u) eid" for i u c
    by (rule then_do [OF that leaves_executes [where P = any]])
      (use increment_plain in \<open>auto intro: via_llm_finishes\<close>)
  have "jobs.secures V F eid (bindj (process_via_schema_job X F eid vid payload m) (\<lambda>r. case r of
        Some canonical \<Rightarrow> finalize_job X eid vid canonical
      | None \<Rightarrow> bindj (executes (increment_failure i)) (\<lambda>_. process_via_llm_job X F eid vid payload)))
      (finishes eid) v c" for m i
    by (rule then_do [OF 2(2) via_schema_leaves [OF 2(2)]])
      (auto intro: failed finalize_finishes simp: names_def split: option.splits)
  with 2(2) via_llm_finishes show ?case by (auto split: option.splits)
qed simp_all

lemma process_event_finishes:
  assumes "event_exists (wdb w) eid"
  shows "jobs.secures V F eid (process_event_job X F eid) (finishes eid) w c"
  unfolding process_event_job_def
proof (rule then_do [OF assms leaves_reads_here [OF assms, where P = "\<lambda>found _. found \<noteq> None"]], goal_cases)
  case (2 found v c)
  have "jobs.secures V F eid (bindj (of_result r) (\<lambda>vid. process_known_job X F eid vid payload)) (finishes eid) v c" for r payload
    by (rule then_do [OF 2(2) leaves_of_result [where P = any]]) (auto intro: known_finishes)
  with 2(1) show ?case by auto
qed (simp_all add: event_exists_def)

text \<open>A job on an event of the log, whatever interferes, keeps its guarantees and leaves the event with a
  status other than \<open>queued\<close>.\<close>

definition verdict_reached :: "string \<Rightarrow> 'a result \<Rightarrow> world \<Rightarrow> rat \<Rightarrow> bool" where
  "verdict_reached eid r v c \<longleftrightarrow> settled (wdb v) eid"

lemma process_webhook_secures:
  assumes "event_exists (wdb w) eid"
  shows "jobs.secures V F eid (process_webhook_job X F eid) (verdict_reached eid) w c"
proof -
  have failed: "jobs.secures V F eid (bindj (executes (\<lambda>d. Inr (mark_failed eid err d))) (\<lambda>_. raises e))
      (verdict_reached eid) v c" if "event_exists (wdb v) eid" for err e v c
    unfolding executes_def
  proof (rule jobs.secures_bindj, rule jobs.secures_atomically, goal_cases)
    case (1 u)
    let ?d = "mark_failed eid err (wdb u)"
    have s: "settled ?d eid"
      using mark_status_settles [OF progress_exists [OF 1 that]] by (simp add: mark_failed_def)
    have "committed [] (wdb u) ?d" by (rule committed_Nil) (simp_all add: mark_failed_def mark_status_frame)
    then have "job_act V F eid (wdb u) c ?d c"
      by (intro settling_act [OF _ s]) (auto simp: mark_failed_def db_step_mark_status mark_status_frame)
    with s progress_settled show ?case
      by (intro exI [of _ c]) (auto simp: on_db_def verdict_reached_def intro!: jobs.secures_raises)
  qed
  show ?thesis
    unfolding process_webhook_job_def
  proof (rule jobs.secures_catchj, rule jobs.secures_keep [where I = "\<lambda>w. event_exists (wdb w) eid"])
    show "jobs.secures V F eid (process_event_job X F eid) (\<lambda>r v c. event_exists (wdb v) eid \<longrightarrow>
        (case r of Inl e \<Rightarrow> jobs.secures V F eid (bindj (executes (\<lambda>d. Inr (mark_failed eid (x_exn_text X e) d)))
              (\<lambda>_. raises e)) (verdict_reached eid) v c
         | Inr x \<Rightarrow> verdict_reached eid (Inr x) v c)) w c"
      by (rule jobs.secures_mono [OF process_event_finishes [OF assms]])
        (use failed in \<open>auto simp: verdict_reached_def split: sum.splits\<close>)
  qed (use assms in \<open>auto intro: progress_exists act_exists\<close>)
qed

end
