(* ===== verification/Interleaving.thy ===== *)
theory Interleaving
  imports Guarantees
begin

text \<open>
  The service with its requests and jobs interleaved.  A state is a state of the service, the webhooks
  that receivers have stored and not yet enqueued, and the jobs in progress, each with what is left of
  it.  A step is the storing of a webhook, its enqueueing, the start of a waiting job while a worker has a
  free slot (\<open>max_jobs\<close> of \<open>app/workers/processor.py\<close> for each worker process), one action of one job,
  the report of a job that has ended, the death of a job (arq runs it again, since its entry stays in
  the queue, as long as it was started fewer than \<open>max_tries\<close> times), the giving up of a job that has used
  up its tries, the expiry of a kept result, the passing of time, the death of a receiver between storing
  and enqueueing, or a job that is cancelled after \<open>job_timeout\<close>: arq reports it as failed and does not
  run it again.  (A job that loses its database connection ends the same way: \<open>_mark_failed\<close> raises too.)  \<open>reliable\<close> says that the queue is up whenever a receiver enqueues, that no receiver dies
  between storing and enqueueing and that no job is cancelled; jobs may die in any case.
\<close>

section \<open>Steps\<close>

type_synonym running_job = "string \<times> string \<times> (world, process_outcome) job"

record system =
  sys_service :: service
  sys_accepting :: "(string \<times> string) list"
  sys_running :: "running_job list"

abbreviation sys_world :: "system \<Rightarrow> world" where
  "sys_world s \<equiv> sv_world (sys_service s)"

abbreviation sys_db :: "system \<Rightarrow> db" where
  "sys_db s \<equiv> wdb (sys_world s)"

abbreviation sys_queue :: "system \<Rightarrow> job_queue" where
  "sys_queue s \<equiv> sv_queue (sys_service s)"

text \<open>The first half of \<open>_ingest\<close>, up to the INSERT; what it returns besides the answer is whether the row
  is new and has to be enqueued.\<close>

definition store_webhook ::
  "externals \<Rightarrow> receiver_settings \<Rightarrow> string \<Rightarrow> request \<Rightarrow> service \<Rightarrow> response result \<times> service" where
  "store_webhook X S new_trace req s =
     (let trace = (case or_str (header req ''x-request-id'') None of Some t \<Rightarrow> t | None \<Rightarrow> new_trace) in
      case parse_body X S (rq_body req) of
        Inl e \<Rightarrow> (Inl e, s)
      | Inr payload \<Rightarrow>
          (case verify_signature X S req of
             Inl e \<Rightarrow> (Inl e, s)
           | Inr verified \<Rightarrow>
               let eid = delivered_id X req payload;
                   (d, inserted) = insert_raw eid (new_raw (sv_db s) req payload verified) (sv_db s) in
               (Inr \<lparr>rp_event_id = eid, rp_deduplicated = \<not> inserted, rp_trace_id = trace\<rparr>, set_db d s)))"

definition to_enqueue :: "response result \<Rightarrow> (string \<times> string) list" where
  "to_enqueue r = (case r of Inl e \<Rightarrow> []
     | Inr rp \<Rightarrow> if rp_deduplicated rp then [] else [(rp_event_id rp, rp_trace_id rp)])"

text \<open>The second half: an exception leaves the queue as it was.\<close>

definition enqueue_webhook :: "bool \<Rightarrow> string \<Rightarrow> string \<Rightarrow> service \<Rightarrow> service" where
  "enqueue_webhook up eid trace s = (case enqueue_process up eid (Some trace) (sv_queue s) of
       Inl e \<Rightarrow> s | Inr q \<Rightarrow> s\<lparr>sv_queue := q\<rparr>)"

definition max_jobs :: nat where
  "max_jobs = 16"

definition begun :: "string \<Rightarrow> service \<Rightarrow> service" where
  "begun jid s = s\<lparr>sv_queue := start_job jid (sv_queue s)\<rparr>"

inductive system_step :: "externals \<Rightarrow> receiver_settings \<Rightarrow> fallback \<Rightarrow> bool \<Rightarrow> nat \<Rightarrow> system \<Rightarrow> system \<Rightarrow> bool"
  for X S F reliable workers
where
  sys_store: "store_webhook X S tr req (sys_service s) = (r, v) \<Longrightarrow>
    system_step X S F reliable workers s
      (s\<lparr>sys_service := v, sys_accepting := sys_accepting s @ to_enqueue r\<rparr>)"
| sys_enqueue: "sys_accepting s = as @ (eid, tr) # bs \<Longrightarrow> (reliable \<Longrightarrow> up) \<Longrightarrow>
    system_step X S F reliable workers s
      (s\<lparr>sys_service := enqueue_webhook up eid tr (sys_service s), sys_accepting := as @ bs\<rparr>)"
| sys_abandon: "\<not> reliable \<Longrightarrow> sys_accepting s = as @ p # bs \<Longrightarrow>
    system_step X S F reliable workers s (s\<lparr>sys_accepting := as @ bs\<rparr>)"
| sys_start: "tbl_get (jq_jobs (sys_queue s)) jid = Some (eid, tr) \<Longrightarrow> jid \<notin> fst ` set (sys_running s) \<Longrightarrow>
    length (sys_running s) < workers * max_jobs \<Longrightarrow> tries (sys_queue s) jid < max_tries \<Longrightarrow>
    system_step X S F reliable workers s
      (s\<lparr>sys_service := begun jid (sys_service s),
         sys_running := sys_running s @ [(jid, eid, process_webhook_job X F eid)]\<rparr>)"
| sys_give_up: "tbl_get (jq_jobs (sys_queue s)) jid = Some (eid, tr) \<Longrightarrow> jid \<notin> fst ` set (sys_running s) \<Longrightarrow>
    max_tries \<le> tries (sys_queue s) jid \<Longrightarrow>
    system_step X S F reliable workers s (s\<lparr>sys_service := reported jid (sys_service s)\<rparr>)"
| sys_act: "sys_running s = xs @ (jid, eid, Act f) # ys \<Longrightarrow> f (sys_world s) = (j, w) \<Longrightarrow>
    system_step X S F reliable workers s
      (s\<lparr>sys_service := (sys_service s)\<lparr>sv_world := w\<rparr>, sys_running := xs @ (jid, eid, j) # ys\<rparr>)"
| sys_finish: "sys_running s = xs @ (jid, eid, Return r) # ys \<Longrightarrow>
    system_step X S F reliable workers s
      (s\<lparr>sys_service := reported jid (sys_service s), sys_running := xs @ ys\<rparr>)"
| sys_crash: "sys_running s = xs @ job # ys \<Longrightarrow>
    system_step X S F reliable workers s (s\<lparr>sys_running := xs @ ys\<rparr>)"
| sys_cancel: "\<not> reliable \<Longrightarrow> sys_running s = xs @ (jid, eid, j) # ys \<Longrightarrow>
    system_step X S F reliable workers s
      (s\<lparr>sys_service := reported jid (sys_service s), sys_running := xs @ ys\<rparr>)"
| sys_expire: "system_step X S F reliable workers s (s\<lparr>sys_service := (sys_service s)\<lparr>sv_queue :=
      (sys_queue s)\<lparr>jq_results := removeAll jid (jq_results (sys_queue s))\<rparr>\<rparr>\<rparr>)"
| sys_tick: "system_step X S F reliable workers s
      (s\<lparr>sys_service := set_db ((sys_db s)\<lparr>clock := clock (sys_db s) + int n\<rparr>) (sys_service s)\<rparr>)"

definition system_reaches ::
  "externals \<Rightarrow> receiver_settings \<Rightarrow> fallback \<Rightarrow> bool \<Rightarrow> nat \<Rightarrow> system \<Rightarrow> system \<Rightarrow> bool" where
  "system_reaches X S F reliable workers = (system_step X S F reliable workers)\<^sup>*\<^sup>*"

definition idle :: "service \<Rightarrow> system" where
  "idle v = \<lparr>sys_service = v, sys_accepting = [], sys_running = []\<rparr>"

section \<open>Invariant\<close>

text \<open>A job in progress names a stored event, and what is left of it secures a verdict on it from the
  present state on, with the credit it holds.\<close>

definition token_ok :: "string option \<Rightarrow> fallback \<Rightarrow> world \<Rightarrow> running_job \<Rightarrow> rat \<Rightarrow> bool" where
  "token_ok V F w = (\<lambda>(jid, eid, j) c. jid = job_id eid \<and> event_exists (wdb w) eid \<and>
     jobs.secures V F eid j (verdict_reached eid) w c \<and>
     (answers_within_estimate F \<longrightarrow> 0 \<le> c \<and> c \<le> 1/1000))"

text \<open>A webhook that is about to be enqueued is stored, and no job has borne its name.\<close>

definition unclaimed :: "job_queue \<Rightarrow> running_job list \<Rightarrow> string \<Rightarrow> bool" where
  "unclaimed q ts eid \<longleftrightarrow> tbl_get (jq_jobs q) (job_id eid) = None \<and> job_id eid \<notin> set (jq_results q) \<and>
     (\<forall>(jid, e, j) \<in> set ts. e \<noteq> eid)"

definition accepting_ok :: "system \<Rightarrow> bool" where
  "accepting_ok s \<longleftrightarrow> distinct (map fst (sys_accepting s)) \<and>
     (\<forall>eid \<in> fst ` set (sys_accepting s). event_exists (sys_db s) eid \<and>
        unclaimed (sys_queue s) (sys_running s) eid)"

lemma accepting_keep:
  assumes "accepting_ok s" "sys_accepting s' = sys_accepting s"
    and "\<And>eid. event_exists (sys_db s) eid \<Longrightarrow> event_exists (sys_db s') eid"
    and "\<And>eid. unclaimed (sys_queue s) (sys_running s) eid \<Longrightarrow> unclaimed (sys_queue s') (sys_running s') eid"
  shows "accepting_ok s'"
  using assms by (simp add: accepting_ok_def)

text \<open>The recorded spending of the day and the credits held, in the global account or in that of one vendor,
  stay below its budget and one estimate for each job but one that can be in progress.\<close>

definition covered :: "string option \<Rightarrow> fallback \<Rightarrow> nat \<Rightarrow> db \<Rightarrow> rat list \<Rightarrow> bool" where
  "covered V F n d cs \<longleftrightarrow> (answers_within_estimate F \<longrightarrow> 1/1000 \<le> budget V F \<longrightarrow>
     spent V d + sum_list cs \<le> budget V F + (of_nat n - 1) / 1000)"

definition system_ok :: "string option \<Rightarrow> fallback \<Rightarrow> nat \<Rightarrow> system \<Rightarrow> bool" where
  "system_ok V F n s \<longleftrightarrow> service_ok (sys_service s) \<and> dated (sys_db s) \<and> length (sys_running s) \<le> n \<and>
     distinct (map fst (sys_running s)) \<and> accepting_ok s \<and>
     (\<exists>cs. list_all2 (token_ok V F (sys_world s)) (sys_running s) cs \<and> covered V F n (sys_db s) cs)"

lemma token_ok_progress: "token_ok V F w t c \<Longrightarrow> progress (wdb w) (wdb v) \<Longrightarrow> token_ok V F v t c"
  by (auto simp: token_ok_def intro: progress_exists jobs.secures_env)

lemma tokens_progress:
  "list_all2 (token_ok V F w) ts cs \<Longrightarrow> progress (wdb w) (wdb v) \<Longrightarrow> list_all2 (token_ok V F v) ts cs"
  by (erule list_all2_mono) (rule token_ok_progress)

lemma tokens_sum:
  assumes "list_all2 (token_ok V F w) ts cs" "answers_within_estimate F"
  shows "0 \<le> sum_list cs" "sum_list cs \<le> of_nat (length ts) / 1000"
  using assms(1)
proof (induction rule: list_all2_induct)
  case (Cons t ts c cs)
  {
    case 1
    then show ?case using Cons assms(2) by (auto simp: token_ok_def)
  next
    case 2
    have "c \<le> 1/1000" using Cons(1) assms(2) by (auto simp: token_ok_def)
    with Cons show ?case by (simp add: add_divide_distrib)
  }
qed simp_all

section \<open>Every step keeps it\<close>

definition system_rel :: "string option \<Rightarrow> fallback \<Rightarrow> nat \<Rightarrow> system \<Rightarrow> system \<Rightarrow> bool" where
  "system_rel V F n s s' \<longleftrightarrow> (system_ok V F n s \<longrightarrow> system_ok V F n s' \<and> progress (sys_db s) (sys_db s') \<and>
     (\<exists>evs. committed evs (sys_db s) (sys_db s')))"

lemma system_rel_refl: "system_rel V F n s s"
  by (auto simp: system_rel_def progress_refl intro: committed_Nil)

lemma system_rel_trans: "system_rel V F n s t \<Longrightarrow> system_rel V F n t u \<Longrightarrow> system_rel V F n s u"
  unfolding system_rel_def using progress_trans committed_append by blast

lemma covered_same: "llm_audit d' = llm_audit d \<Longrightarrow> clock d' = clock d \<Longrightarrow> covered V F n d cs \<Longrightarrow> covered V F n d' cs"
  by (simp add: covered_def spent_cong [of d' d])

text \<open>Steps that neither run a job nor touch the projection or the audit.\<close>

lemma system_rel_frame:
  assumes "system_ok V F n s \<Longrightarrow> service_ok (sys_service s') \<and> accepting_ok s'" "progress (sys_db s) (sys_db s')"
    and "projection_of (sys_db s') = projection_of (sys_db s)" "canonical_events (sys_db s') = canonical_events (sys_db s)"
    and "llm_audit (sys_db s') = llm_audit (sys_db s)" "clock (sys_db s') = clock (sys_db s)"
    and "sys_running s' = sys_running s"
  shows "system_rel V F n s s'"
proof -
  have "committed [] (sys_db s) (sys_db s')" by (rule committed_Nil [OF assms(3,4)])
  with assms show ?thesis
    unfolding system_rel_def system_ok_def
    using tokens_progress dated_same covered_same by metis
qed

lemma with_raw_progress:
  assumes "\<not> event_exists d eid"
  shows "progress d (with_raw eid row d)"
proof -
  have "status_of d eid = None" using assms by (simp add: status_of_def event_exists_def)
  then show ?thesis by (auto simp: progress_def with_raw_extends settled_def status_with_raw [OF assms])
qed

lemma stored_fields: "sv_db (set_db d v) = d" "sv_queue (set_db d v) = sv_queue v"
  "projection_of (with_raw eid row d) = projection_of d" "canonical_events (with_raw eid row d) = canonical_events d"
  "llm_audit (with_raw eid row d) = llm_audit d" "clock (with_raw eid row d) = clock d"
  by (simp_all add: set_db_def with_raw_def projection_of_def)

lemma store_cases:
  assumes "store_webhook X S tr req v = (r, v')"
  obtains (same) "v' = v" "to_enqueue r = []"
  | (stored) eid row t where "\<not> event_exists (sv_db v) eid" "v' = set_db (with_raw eid row (sv_db v)) v"
      "to_enqueue r = [(eid, t)]" "rw_status row = Queued"
proof -
  consider (refused) "v' = v" "to_enqueue r = []"
    | (inserted) payload verified t d b where "insert_raw (delivered_id X req payload) (new_raw (sv_db v) req payload verified) (sv_db v) = (d, b)"
        "v' = set_db d v" "to_enqueue r = (if b then [(delivered_id X req payload, t)] else [])"
  proof (cases "parse_body X S (rq_body req)")
    case (Inl e)
    with assms show ?thesis by (intro that(1)) (auto simp: store_webhook_def to_enqueue_def Let_def)
  next
    case body: (Inr payload)
    show ?thesis
    proof (cases "verify_signature X S req")
      case (Inl e)
      with assms body show ?thesis by (intro that(1)) (auto simp: store_webhook_def to_enqueue_def Let_def)
    next
      case (Inr verified)
      obtain d b where "insert_raw (delivered_id X req payload) (new_raw (sv_db v) req payload verified) (sv_db v) = (d, b)"
        by fastforce
      with assms body Inr that(2) show ?thesis by (fastforce simp: store_webhook_def to_enqueue_def Let_def)
    qed
  qed
  then show thesis
  proof cases
    case refused
    then show ?thesis by (rule same)
  next
    case (inserted payload verified t d b)
    show ?thesis
    proof (cases "event_exists (sv_db v) (delivered_id X req payload)")
      case True
      with inserted show ?thesis by (intro same) (auto simp: insert_raw_def set_db_def)
    next
      case False
      with inserted show ?thesis
        by (intro stored [of _ "new_raw (sv_db v) req payload verified" t])
          (auto simp: insert_raw_def with_raw_def new_raw_def)
    qed
  qed
qed

lemma running_names_event:
  assumes "system_ok V F n s" "(jid, eid, j) \<in> set (sys_running s)"
  shows "jid = job_id eid \<and> event_exists (sys_db s) eid"
  using assms by (auto simp: system_ok_def token_ok_def list_all2_conv_all_nth in_set_conv_nth)

lemma unknown_unqueued:
  assumes "jobs_ok d q" "\<not> event_exists d eid"
  shows "tbl_get (jq_jobs q) (job_id eid) = None" "job_id eid \<notin> set (jq_results q)"
proof -
  show "job_id eid \<notin> set (jq_results q)" using assms by (auto simp: jobs_ok_def)
  show "tbl_get (jq_jobs q) (job_id eid) = None"
  proof (cases "tbl_get (jq_jobs q) (job_id eid)")
    case (Some j)
    with tbl_get_mem [OF Some] assms show ?thesis by (cases j) (auto simp: jobs_ok_def)
  qed
qed

lemma store_system_ok:
  assumes "system_ok V F n s" "\<not> event_exists (sys_db s) eid"
  shows "service_ok (set_db (with_raw eid row (sys_db s)) (sys_service s))"
    and "accepting_ok (s\<lparr>sys_service := set_db (with_raw eid row (sys_db s)) (sys_service s),
      sys_accepting := sys_accepting s @ [(eid, t)]\<rparr>)"
proof -
  let ?d = "with_raw eid row (sys_db s)"
  have ok: "worker_ok (sys_db s)" "jobs_ok (sys_db s) (sys_queue s)" "accepting_ok s"
    using assms(1) by (simp_all add: system_ok_def service_ok_def)
  then show "service_ok (set_db ?d (sys_service s))"
    by (simp add: service_ok_def set_db_def worker_ok_with_raw jobs_ok_mono [OF _ with_raw_extends])
  have known: "event_exists ?d e" if "event_exists (sys_db s) e \<or> e = eid" for e
    using that log_extends_exists [OF with_raw_extends] with_raw_get [OF assms(2)] by (auto simp: event_exists_def)
  have fresh: "\<forall>(jid, e, j) \<in> set (sys_running s). e \<noteq> eid"
    using running_names_event [OF assms(1)] assms(2) by auto
  have "eid \<notin> fst ` set (sys_accepting s)" using ok(3) assms(2) by (auto simp: accepting_ok_def)
  then show "accepting_ok (s\<lparr>sys_service := set_db ?d (sys_service s), sys_accepting := sys_accepting s @ [(eid, t)]\<rparr>)"
    using ok(3) known fresh unknown_unqueued [OF ok(2) assms(2)]
    by (auto simp: accepting_ok_def unclaimed_def set_db_def)
qed

lemma system_rel_store:
  assumes "store_webhook X S tr req (sys_service s) = (r, v)"
  shows "system_rel V F n s (s\<lparr>sys_service := v, sys_accepting := sys_accepting s @ to_enqueue r\<rparr>)"
  using assms
proof (cases rule: store_cases)
  case same
  then have "s\<lparr>sys_service := v, sys_accepting := sys_accepting s @ to_enqueue r\<rparr> = s" by simp
  with system_rel_refl show ?thesis by metis
next
  case (stored eid row t)
  have "progress (sys_db s) (with_raw eid row (sys_db s))" by (rule with_raw_progress [OF stored(1)])
  then show ?thesis
    unfolding stored(2,3)
    by (intro system_rel_frame conjI store_system_ok(2) [OF _ stored(1)])
      (simp_all add: store_system_ok(1) [OF _ stored(1)] stored_fields)
qed

lemma enqueue_fields: "sv_world (enqueue_webhook up eid tr v) = sv_world v"
  "jq_results (sv_queue (enqueue_webhook up eid tr v)) = jq_results (sv_queue v)"
  "e \<noteq> eid \<Longrightarrow> tbl_get (jq_jobs (sv_queue (enqueue_webhook up eid tr v))) (job_id e) = tbl_get (jq_jobs (sv_queue v)) (job_id e)"
  by (simp_all add: enqueue_webhook_def enqueue_process_def table_simps split: sum.splits option.splits)

lemma accepting_drop:
  assumes "accepting_ok s" "sys_accepting s = as @ p # bs"
  shows "accepting_ok (s\<lparr>sys_accepting := as @ bs\<rparr>)"
  using assms by (auto simp: accepting_ok_def)

lemma system_rel_enqueue:
  assumes "sys_accepting s = as @ (eid, tr) # bs"
  shows "system_rel V F n s (s\<lparr>sys_service := enqueue_webhook up eid tr (sys_service s), sys_accepting := as @ bs\<rparr>)"
proof (rule system_rel_frame)
  assume ok: "system_ok V F n s"
  have acc: "accepting_ok s" "event_exists (sys_db s) eid"
    using ok assms by (auto simp: system_ok_def accepting_ok_def unclaimed_def)
  have jobs: "jobs_ok (sys_db s) (sys_queue s)" "worker_ok (sys_db s)" using ok by (simp_all add: system_ok_def service_ok_def)
  have "service_ok (enqueue_webhook up eid tr (sys_service s))"
    using jobs enqueue_jobs_ok [OF jobs(1) acc(2)]
    by (auto simp: enqueue_webhook_def service_ok_def split: sum.splits)
  moreover have "eid \<notin> fst ` set (as @ bs)" using acc(1) assms by (auto simp: accepting_ok_def)
  then have "tbl_get (jq_jobs (sv_queue (enqueue_webhook up eid tr (sys_service s)))) (job_id e) = tbl_get (jq_jobs (sys_queue s)) (job_id e)"
    if "e \<in> fst ` set (as @ bs)" for e using that by (intro enqueue_fields(3)) auto
  then have "accepting_ok (s\<lparr>sys_service := enqueue_webhook up eid tr (sys_service s), sys_accepting := as @ bs\<rparr>)"
    using accepting_drop [OF acc(1) assms] by (simp add: accepting_ok_def unclaimed_def enqueue_fields(1,2))
  ultimately show "service_ok (sys_service (s\<lparr>sys_service := enqueue_webhook up eid tr (sys_service s), sys_accepting := as @ bs\<rparr>)) \<and>
      accepting_ok (s\<lparr>sys_service := enqueue_webhook up eid tr (sys_service s), sys_accepting := as @ bs\<rparr>)" by simp
qed (simp_all add: enqueue_fields progress_refl)

lemma split_tokens:
  assumes "list_all2 P (xs @ t # ys) cs"
  obtains as c bs where "cs = as @ c # bs" "list_all2 P xs as" "P t c" "list_all2 P ys bs"
  using assms by (auto simp: list_all2_append1 list_all2_Cons1)

lemma covered_act:
  assumes "covered V F n d (as @ c # bs)" "pays V F d c d' c'"
    and "list_all2 (token_ok V F w) xs as" "list_all2 (token_ok V F w) ys bs" "token_ok V F w t c"
    and "length (xs @ t # ys) \<le> n"
  shows "covered V F n d' (as @ c' # bs)" "answers_within_estimate F \<longrightarrow> 0 \<le> c' \<and> c' \<le> 1/1000"
proof -
  show c': "answers_within_estimate F \<longrightarrow> 0 \<le> c' \<and> c' \<le> 1/1000"
    using assms(2,5) by (auto simp: token_ok_def pays_def)
  show "covered V F n d' (as @ c' # bs)"
    unfolding covered_def
  proof (intro impI)
    assume est: "answers_within_estimate F" and b: "1/1000 \<le> budget V F"
    have c: "0 \<le> c \<and> c \<le> 1/1000" using assms(5) est by (auto simp: token_ok_def)
    from assms(2) est c consider "spent V d' + c' \<le> spent V d + c" | "spent V d' = spent V d" "spent V d + c' \<le> budget V F"
      by (auto simp: pays_def)
    then show "spent V d' + sum_list (as @ c' # bs) \<le> budget V F + (of_nat n - 1) / 1000"
    proof cases
      case 1
      with assms(1) est b show ?thesis by (simp add: covered_def)
    next
      case 2
      have "sum_list as + sum_list bs \<le> of_nat (length xs) / 1000 + of_nat (length ys) / 1000"
        using tokens_sum(2) [OF assms(3) est] tokens_sum(2) [OF assms(4) est] by simp
      also have "\<dots> = of_nat (length xs + length ys) / 1000" by (simp add: add_divide_distrib)
      also have "\<dots> \<le> (of_nat n - 1) / 1000"
      proof -
        have "of_nat (length xs + length ys + 1) \<le> (of_nat n :: rat)" using assms(6) by (simp only: of_nat_le_iff) simp
        then show ?thesis by simp
      qed
      finally show ?thesis using 2 by (simp only: sum_list_append sum_list.Cons)
    qed
  qed
qed

lemma system_rel_act:
  assumes "sys_running s = xs @ (jid, eid, Act f) # ys" "f (sys_world s) = (j, w)"
  shows "system_rel V F n s (s\<lparr>sys_service := (sys_service s)\<lparr>sv_world := w\<rparr>, sys_running := xs @ (jid, eid, j) # ys\<rparr>)"
  unfolding system_rel_def
proof
  assume ok: "system_ok V F n s"
  let ?w = "sys_world s"
  obtain as c bs where cs: "covered V F n (sys_db s) (as @ c # bs)" "list_all2 (token_ok V F ?w) xs as"
      "token_ok V F ?w (jid, eid, Act f) c" "list_all2 (token_ok V F ?w) ys bs"
    using ok assms(1) by (auto simp: system_ok_def elim!: split_tokens)
  then have "jobs.secures V F eid (Act f) (verdict_reached eid) ?w c" by (simp add: token_ok_def)
  then obtain c' where act: "job_act V F eid (wdb ?w) c (wdb w) c'" and rest: "jobs.secures V F eid j (verdict_reached eid) w c'"
    by (rule jobs.secures_step) (simp add: assms(2))
  have step: "db_step eid (wdb ?w) (wdb w)" and prog: "progress (wdb ?w) (wdb w)"
    and hist: "worker_ok (wdb ?w) \<Longrightarrow> \<exists>evs. committed evs (wdb ?w) (wdb w)"
    and dated: "dated (wdb ?w) \<Longrightarrow> dated (wdb w)" and pays: "pays V F (wdb ?w) c (wdb w) c'"
    using act by (simp_all add: job_act_def)
  have "length (xs @ (jid, eid, Act f) # ys) \<le> n" using ok assms(1) by (simp add: system_ok_def)
  note cov = covered_act [OF cs(1) pays cs(2,4,3) this]
  have "token_ok V F w (jid, eid, j) c'"
    using cs(3) rest cov(2) progress_exists [OF prog] by (simp add: token_ok_def)
  then have tokens: "list_all2 (token_ok V F w) (xs @ (jid, eid, j) # ys) (as @ c' # bs)"
    using cs(2,4) tokens_progress [OF _ prog] by (simp add: list_all2_appendI)
  have acc: "accepting_ok (s\<lparr>sys_service := (sys_service s)\<lparr>sv_world := w\<rparr>, sys_running := xs @ (jid, eid, j) # ys\<rparr>)"
    by (rule accepting_keep [of s]) (use ok assms(1) progress_exists [OF prog] in \<open>auto simp: system_ok_def unclaimed_def\<close>)
  have "worker_ok (wdb ?w)" using ok by (simp add: system_ok_def service_ok_def)
  with acc ok step prog tokens cov(1) dated hist
  show "system_ok V F n (s\<lparr>sys_service := (sys_service s)\<lparr>sv_world := w\<rparr>, sys_running := xs @ (jid, eid, j) # ys\<rparr>) \<and>
      progress (sys_db s) (sys_db (s\<lparr>sys_service := (sys_service s)\<lparr>sv_world := w\<rparr>, sys_running := xs @ (jid, eid, j) # ys\<rparr>)) \<and>
      (\<exists>evs. committed evs (sys_db s) (sys_db (s\<lparr>sys_service := (sys_service s)\<lparr>sv_world := w\<rparr>, sys_running := xs @ (jid, eid, j) # ys\<rparr>)))"
    using assms(1)
    by (auto simp: system_ok_def service_ok_def db_step_def progress_def intro: jobs_ok_mono)
qed

lemma system_ok_drop:
  assumes "system_ok V F n s" "sys_running s = xs @ t # ys"
  shows "system_ok V F n (s\<lparr>sys_running := xs @ ys\<rparr>)"
proof -
  obtain as c bs where cs: "covered V F n (sys_db s) (as @ c # bs)" "list_all2 (token_ok V F (sys_world s)) xs as"
      "token_ok V F (sys_world s) t c" "list_all2 (token_ok V F (sys_world s)) ys bs"
    using assms by (auto simp: system_ok_def elim!: split_tokens)
  have "covered V F n (sys_db s) (as @ bs)"
    using cs(1,3) by (auto simp: covered_def token_ok_def)
  moreover have "accepting_ok (s\<lparr>sys_running := xs @ ys\<rparr>)"
    by (rule accepting_keep [of s]) (use assms in \<open>auto simp: system_ok_def unclaimed_def\<close>)
  ultimately show ?thesis
    using cs(2,4) assms by (auto simp: system_ok_def intro!: exI [of _ "as @ bs"] list_all2_appendI)
qed

lemma reported_ok:
  assumes "service_ok v" "event_exists (sv_db v) eid"
  shows "service_ok (reported (job_id eid) v)"
  using assms distinct_map_filter [of fst "jq_jobs (sv_queue v)" "\<lambda>(k, j). k \<noteq> job_id eid"]
  by (fastforce simp: service_ok_def jobs_ok_def reported_def end_job_def)

lemma begun_fields: "sv_world (begun jid v) = sv_world v" "sv_queue (begun jid v) = start_job jid (sv_queue v)"
  "service_ok (begun jid v) = service_ok v"
  by (simp_all add: begun_def service_ok_def)

lemma end_job_results: "jq_results (end_job jid q) = jid # jq_results q"
  by (simp add: end_job_def)

lemma system_rel_same_db:
  assumes "system_ok V F n s \<Longrightarrow> system_ok V F n s'" "sys_world s' = sys_world s"
  shows "system_rel V F n s s'"
  using assms system_rel_refl [of V F n s] by (auto simp: system_rel_def)

lemma system_rel_report:
  assumes "sys_running s = xs @ (jid, eid, j) # ys"
  shows "system_rel V F n s (s\<lparr>sys_service := reported jid (sys_service s), sys_running := xs @ ys\<rparr>)"
proof (rule system_rel_same_db)
  assume ok: "system_ok V F n s"
  have names: "jid = job_id eid \<and> event_exists (sys_db s) eid" using running_names_event [OF ok] assms by auto
  then have "service_ok (reported jid (sys_service s))" using reported_ok ok by (auto simp: system_ok_def)
  moreover have "accepting_ok (s\<lparr>sys_service := reported jid (sys_service s), sys_running := xs @ ys\<rparr>)"
    by (rule accepting_keep [of s])
      (use ok assms names in \<open>auto simp: system_ok_def unclaimed_def reported_fields end_job_get end_job_results\<close>)
  moreover note system_ok_drop [OF ok assms]
  ultimately show "system_ok V F n (s\<lparr>sys_service := reported jid (sys_service s), sys_running := xs @ ys\<rparr>)"
    by (simp add: system_ok_def reported_fields)
qed (simp add: reported_fields)

lemma system_rel_give_up:
  assumes "tbl_get (jq_jobs (sys_queue s)) jid = Some (eid, tr)"
  shows "system_rel V F n s (s\<lparr>sys_service := reported jid (sys_service s)\<rparr>)"
proof (rule system_rel_same_db)
  assume ok: "system_ok V F n s"
  have names: "jid = job_id eid \<and> event_exists (sys_db s) eid"
    using ok job_names_event [OF _ assms] by (simp add: system_ok_def)
  then have "service_ok (reported jid (sys_service s))" using reported_ok ok by (auto simp: system_ok_def)
  moreover have "accepting_ok (s\<lparr>sys_service := reported jid (sys_service s)\<rparr>)"
    unfolding accepting_ok_def
  proof (intro conjI ballI)
    fix e assume e: "e \<in> fst ` set (sys_accepting (s\<lparr>sys_service := reported jid (sys_service s)\<rparr>))"
    then have "e \<noteq> eid" using ok assms names by (auto simp: system_ok_def accepting_ok_def unclaimed_def)
    then show "event_exists (sys_db (s\<lparr>sys_service := reported jid (sys_service s)\<rparr>)) e"
      "unclaimed (sys_queue (s\<lparr>sys_service := reported jid (sys_service s)\<rparr>))
         (sys_running (s\<lparr>sys_service := reported jid (sys_service s)\<rparr>)) e"
      using e ok names
      by (auto simp: system_ok_def accepting_ok_def unclaimed_def reported_fields end_job_get end_job_results)
  qed (use ok in \<open>simp add: system_ok_def accepting_ok_def\<close>)
  ultimately show "system_ok V F n (s\<lparr>sys_service := reported jid (sys_service s)\<rparr>)"
    using ok by (simp add: system_ok_def reported_fields)
qed (simp add: reported_fields)

lemma system_rel_start:
  assumes "tbl_get (jq_jobs (sys_queue s)) jid = Some (eid, tr)" "jid \<notin> fst ` set (sys_running s)"
    and "length (sys_running s) < n"
  shows "system_rel V F n s (s\<lparr>sys_service := begun jid (sys_service s),
      sys_running := sys_running s @ [(jid, eid, process_webhook_job X F eid)]\<rparr>)" (is "system_rel V F n s ?s")
proof (rule system_rel_same_db)
  assume ok: "system_ok V F n s"
  then obtain cs where cs: "list_all2 (token_ok V F (sys_world s)) (sys_running s) cs" "covered V F n (sys_db s) cs"
    by (auto simp: system_ok_def)
  have names: "jid = job_id eid \<and> event_exists (sys_db s) eid"
    using ok job_names_event [OF _ assms(1)] by (simp add: system_ok_def)
  have acc: "accepting_ok ?s"
    by (rule accepting_keep [of s]) (use ok assms(1) names in \<open>auto simp: system_ok_def unclaimed_def begun_fields\<close>)
  from names have "token_ok V F (sys_world s) (jid, eid, process_webhook_job X F eid) 0"
    using process_webhook_secures by (simp add: token_ok_def)
  with cs have "list_all2 (token_ok V F (sys_world s)) (sys_running s @ [(jid, eid, process_webhook_job X F eid)]) (cs @ [0])"
    by (simp add: list_all2_appendI)
  moreover have "covered V F n (sys_db s) (cs @ [0])" using cs(2) by (simp add: covered_def)
  moreover have "sys_world ?s = sys_world s" "service_ok (sys_service ?s) = service_ok (sys_service s)"
    by (simp_all add: begun_fields)
  ultimately show "system_ok V F n ?s"
    using ok acc assms(2,3) unfolding system_ok_def by fastforce
qed (simp add: begun_fields)

lemma spent_next_day:
  assumes "dated d" "day_of c \<noteq> day_of (clock d)" "clock d \<le> c"
  shows "spent V (d\<lparr>clock := c\<rparr>) = 0"
proof -
  have "day_of (la_created_at a) \<noteq> day_of c" if "a \<in> set (llm_audit d)" for a
  proof -
    have "day_of (la_created_at a) \<le> day_of (clock d)" "day_of (clock d) \<le> day_of c"
      using assms(1,3) that by (auto simp: dated_def day_of_def intro: zdiv_mono1)
    with assms(2) show ?thesis by simp
  qed
  then have "filter (\<lambda>a. day_of (la_created_at a) = day_of c \<and> la_source a = ''llm'' \<and> charges V (la_decision a)) (llm_audit d) = []"
    by (auto simp: filter_empty_conv)
  then show ?thesis by (simp add: spent_today_def)
qed

lemma system_rel_tick:
  "system_rel V F n s (s\<lparr>sys_service := set_db ((sys_db s)\<lparr>clock := clock (sys_db s) + int k\<rparr>) (sys_service s)\<rparr>)"
proof -
  let ?d = "sys_db s" and ?v = "set_db ((sys_db s)\<lparr>clock := clock (sys_db s) + int k\<rparr>) (sys_service s)"
  have db: "sv_db ?v = ?d\<lparr>clock := clock ?d + int k\<rparr>" "sv_queue ?v = sys_queue s" by (simp_all add: set_db_def)
  have prog: "progress ?d (sv_db ?v)" by (simp add: db progress_def log_extends_def settled_def status_of_def)
  have "service_rel (sys_service s) ?v"
    by (rule service_rel_step [of undefined undefined undefined True]) (rule service_step.tick)
  then have service: "service_ok (sys_service s) \<Longrightarrow> service_ok ?v" by (simp add: service_rel_def)
  have cov: "covered V F n (sv_db ?v) cs"
    if c: "covered V F n ?d cs" "dated ?d" "list_all2 (token_ok V F (sys_world s)) (sys_running s) cs" "length (sys_running s) \<le> n" for cs
    unfolding covered_def
  proof (intro impI)
    assume est: "answers_within_estimate F" and b: "1/1000 \<le> budget V F"
    show "spent V (sv_db ?v) + sum_list cs \<le> budget V F + (of_nat n - 1) / 1000"
    proof (cases "day_of (clock ?d + int k) = day_of (clock ?d)")
      case True
      then have "spent V (sv_db ?v) = spent V ?d" by (simp add: db spent_today_def)
      with c(1) est b show ?thesis by (simp add: covered_def)
    next
      case False
      have "sum_list cs \<le> of_nat n / 1000"
      proof -
        have "of_nat (length (sys_running s)) / 1000 \<le> (of_nat n / 1000 :: rat)" using c(4) by simp
        with tokens_sum(2) [OF c(3) est] show ?thesis by linarith
      qed
      with b spent_next_day [OF c(2) False] show ?thesis by (simp add: db field_simps)
    qed
  qed
  have "committed [] ?d (sv_db ?v)" by (rule committed_Nil) (simp_all add: db projection_of_def)
  moreover have "dated ?d \<Longrightarrow> dated (sv_db ?v)" by (force simp: dated_def db)
  moreover have "\<exists>cs. list_all2 (token_ok V F (sv_world ?v)) (sys_running s) cs \<and> covered V F n (sv_db ?v) cs"
    if "system_ok V F n s"
    using that cov tokens_progress [OF _ prog] unfolding system_ok_def by blast
  moreover have "accepting_ok s \<Longrightarrow> accepting_ok (s\<lparr>sys_service := ?v\<rparr>)"
    by (erule accepting_keep) (simp_all add: db event_exists_def)
  ultimately show ?thesis
    using prog service by (auto simp: system_rel_def system_ok_def)
qed

lemma system_rel_step:
  assumes "system_step X S F reliable workers s s'"
  shows "system_rel V F (workers * max_jobs) s s'"
  using assms
proof cases
  case (sys_store tr req r v)
  then show ?thesis using system_rel_store by simp
next
  case (sys_enqueue as eid tr bs up)
  then show ?thesis using system_rel_enqueue by simp
next
  case (sys_abandon as p bs)
  then show ?thesis by (intro system_rel_frame) (auto simp: progress_refl system_ok_def intro: accepting_drop)
next
  case (sys_start jid eid tr)
  then show ?thesis using system_rel_start by simp
next
  case (sys_give_up jid eid tr)
  then show ?thesis using system_rel_give_up by simp
next
  case (sys_act xs jid eid f ys j w)
  then show ?thesis using system_rel_act by simp
next
  case (sys_finish xs jid eid r ys)
  then show ?thesis using system_rel_report by simp
next
  case (sys_crash xs job ys)
  then show ?thesis using system_rel_same_db [OF system_ok_drop] by simp
next
  case (sys_cancel xs jid eid j ys)
  then show ?thesis using system_rel_report by simp
next
  case (sys_expire jid)
  have "service_ok (sys_service s) \<Longrightarrow> service_ok (sys_service s')"
    using sys_expire by (auto simp: service_ok_def jobs_ok_def)
  moreover have "accepting_ok s \<Longrightarrow> accepting_ok s'"
    by (erule accepting_keep) (use sys_expire in \<open>simp_all add: unclaimed_def\<close>)
  ultimately show ?thesis using sys_expire by (intro system_rel_frame) (simp_all add: progress_refl system_ok_def)
next
  case (sys_tick k)
  then show ?thesis using system_rel_tick by simp
qed

interpretation systems: run_relation "system_rel V F (workers * max_jobs)" "system_step X S F reliable workers"
  for V X S F reliable workers
  by unfold_locales (auto intro: system_rel_refl system_rel_trans system_rel_step)

section \<open>Nothing is lost\<close>

lemma running_secures:
  assumes "system_ok V F n s" "sys_running s = xs @ (jid, eid, j) # ys"
  shows "\<exists>c. jobs.secures V F eid j (verdict_reached eid) (sys_world s) c"
  using assms by (auto simp: system_ok_def token_ok_def elim!: split_tokens)

lemma running_act:
  assumes "system_ok V F n s" "sys_running s = xs @ (jid, eid, Act f) # ys" "f (sys_world s) = (j, w)"
  shows "db_step eid (sys_db s) (wdb w) \<and> progress (sys_db s) (wdb w)"
proof -
  from running_secures [OF assms(1,2)] obtain c where "jobs.secures V F eid (Act f) (verdict_reached eid) (sys_world s) c" ..
  then show ?thesis by (rule jobs.secures_step) (use assms(3) in \<open>simp add: job_act_def\<close>)
qed

lemma running_end:
  assumes "system_ok V F n s" "sys_running s = xs @ (jid, eid, Return r) # ys"
  shows "settled (sys_db s) eid"
proof -
  from running_secures [OF assms] obtain c where "jobs.secures V F eid (Return r) (verdict_reached eid) (sys_world s) c" ..
  from jobs.secures_end [OF this] show ?thesis by (simp add: verdict_reached_def)
qed

text \<open>Whatever is queued has its job, or its receiver is about to enqueue it, or its job has used up its
  tries.\<close>

definition none_forgotten :: "system \<Rightarrow> bool" where
  "none_forgotten s \<longleftrightarrow> (\<forall>eid. status_of (sys_db s) eid = Some Queued \<longrightarrow>
     waiting (sys_service s) eid \<or> eid \<in> fst ` set (sys_accepting s) \<or> used_up (sys_queue s) eid)"

lemma none_forgotten_step:
  assumes "system_step X S F True workers s s'" "system_ok V F n s" "none_forgotten s"
  shows "none_forgotten s'"
  using assms(1)
proof cases
  case (sys_store tr req r v)
  from sys_store(2) show ?thesis
  proof (cases rule: store_cases)
    case (stored eid row t)
    then show ?thesis
      using assms(3) sys_store(1) by (auto simp: none_forgotten_def waiting_def stored_fields status_with_raw)
  qed (use assms(3) sys_store(1) in simp)
next
  case (sys_enqueue as eid tr bs up)
  have "job_id eid \<notin> set (jq_results (sys_queue s))"
    using assms(2) sys_enqueue(2) by (auto simp: system_ok_def accepting_ok_def unclaimed_def)
  moreover have up using sys_enqueue(3) by simp
  moreover have "tbl_get (jq_jobs (sys_queue s)) (job_id eid) = None"
    using assms(2) sys_enqueue(2) by (auto simp: system_ok_def accepting_ok_def unclaimed_def)
  ultimately show ?thesis
    using assms(3) sys_enqueue(2)
    by (auto simp: sys_enqueue(1) none_forgotten_def waiting_def enqueue_webhook_def enqueue_process_def table_simps
        tries_def count_list_removeAll)
next
  case (sys_start jid eid tr)
  then show ?thesis using assms(3) by (auto simp: none_forgotten_def waiting_def begun_fields)
next
  case (sys_give_up jid eid tr)
  then have "jid = job_id eid" using job_names_event [OF _ sys_give_up(2)] assms(2) by (simp add: system_ok_def)
  with sys_give_up show ?thesis
    using assms(3) by (auto simp: none_forgotten_def waiting_def reported_fields end_job_get)
next
  case (sys_act xs jid eid f ys j w)
  note act = running_act [OF assms(2) sys_act(2,3)]
  have "status_of (sys_db s) e = Some Queued" if "status_of (wdb w) e = Some Queued" for e
  proof -
    have "event_exists (wdb w) e" using that by (auto simp: status_of_def event_exists_def)
    then have "event_exists (sys_db s) e" using act db_step_exists by blast
    moreover have "\<not> settled (sys_db s) e"
      using that act progress_settled [of "sys_db s" "wdb w" e] by (auto simp: settled_def)
    ultimately show ?thesis by (auto simp: settled_def status_of_def event_exists_def)
  qed
  with assms(3) show ?thesis by (auto simp: sys_act none_forgotten_def waiting_def)
next
  case (sys_finish xs jid eid r ys)
  have "settled (sys_db s) eid" using running_end [OF assms(2) sys_finish(2)] .
  moreover have "jid = job_id eid" using running_names_event [OF assms(2)] sys_finish(2) by auto
  ultimately show ?thesis
    using assms(3) by (auto simp: sys_finish none_forgotten_def waiting_def reported_fields end_job_get settled_def)
qed (use assms(3) in \<open>simp_all add: none_forgotten_def waiting_def status_of_def set_db_def\<close>)

definition system_lossless :: "string option \<Rightarrow> fallback \<Rightarrow> nat \<Rightarrow> system \<Rightarrow> system \<Rightarrow> bool" where
  "system_lossless V F n s s' \<longleftrightarrow>
     (system_ok V F n s \<and> none_forgotten s \<longrightarrow> system_ok V F n s' \<and> none_forgotten s')"

interpretation reliable_systems: run_relation "system_lossless V F (workers * max_jobs)" "system_step X S F True workers"
  for V X S F workers
proof (unfold_locales, goal_cases)
  case (3 s s')
  then show ?case using none_forgotten_step system_rel_step by (auto simp: system_lossless_def system_rel_def)
qed (auto simp: system_lossless_def)

text \<open>A fresh installation: nothing received, nothing asked.\<close>

definition system_start :: "service \<Rightarrow> bool" where
  "system_start v \<longleftrightarrow> service_start v \<and> llm_audit (sv_db v) = []"

lemma start_ok: "system_start v \<Longrightarrow> system_ok V F n (idle v)"
proof -
  assume v: "system_start v"
  have "- 1 / 1000 \<le> (of_nat n - 1) / (1000 :: rat)" by (simp add: divide_right_mono)
  then have "0 \<le> b + (of_nat n - 1) / 1000" if "1/1000 \<le> b" for b :: rat using that by linarith
  moreover have "spent V (sv_db v) = 0" using v by (simp add: system_start_def spent_today_def)
  ultimately have "covered V F n (sv_db v) []" unfolding covered_def
    by (simp only: sum_list.Nil add_0) blast
  with v service_start_ok [of v] show ?thesis
    by (auto simp: system_start_def system_ok_def idle_def dated_def accepting_ok_def)
qed

lemma reaches_system_ok:
  assumes "system_start v" "system_reaches X S F reliable workers (idle v) s"
  shows "system_ok V F (workers * max_jobs) s \<and> progress (sv_db v) (sys_db s) \<and>
     (\<exists>evs. committed evs (sv_db v) (sys_db s))"
  using systems.run_rel assms(2) start_ok [OF assms(1)] unfolding system_reaches_def system_rel_def
  by (fastforce simp: idle_def)

lemma reaches_lossless:
  assumes "system_start v" "system_reaches X S F True workers (idle v) s"
  shows "system_ok V F (workers * max_jobs) s \<and> none_forgotten s"
proof -
  have "none_forgotten (idle v)"
    using service_start_ok assms(1) by (simp add: system_start_def none_lost_def none_forgotten_def idle_def)
  then show ?thesis
    using reliable_systems.run_rel [of X S F workers "idle v" s] assms(2) start_ok [OF assms(1)]
    by (simp add: system_reaches_def system_lossless_def)
qed

text \<open>C1: no webhook is lost, whatever the interleaving.  From a fresh installation, with the queue up when a
  receiver enqueues, no receiver dying between its INSERT and its enqueueing and no job cancelled by the
  timeout, but with any number of receivers in between, any number of worker processes, and jobs whose
  statements alternate in any order, die anywhere and are started again: for every event that is still
  queued, the queue holds a job that names it, or the receiver that stored it is about to enqueue it, and
  then it can do so, or its job was started \<open>max_tries\<close> times.\<close>

theorem interleaved_jobs_lose_no_webhook:
  assumes "system_start v" "system_reaches X S F True workers (idle v) s" "status_of (sys_db s) eid = Some Queued"
  shows "(\<exists>tr. tbl_get (jq_jobs (sys_queue s)) (job_id eid) = Some (eid, tr)) \<or>
     (\<exists>tr. (eid, tr) \<in> set (sys_accepting s) \<and>
        tbl_get (jq_jobs (sv_queue (enqueue_webhook True eid tr (sys_service s)))) (job_id eid) = Some (eid, Some tr)) \<or>
     max_tries \<le> tries (sys_queue s) (job_id eid)"
proof -
  note ok = reaches_lossless [OF assms(1,2), of None]
  then consider e tr where "tbl_get (jq_jobs (sys_queue s)) (job_id eid) = Some (e, tr)"
    | tr where "(eid, tr) \<in> set (sys_accepting s)" | "used_up (sys_queue s) eid"
    using assms(3) by (auto simp: none_forgotten_def waiting_def)
  then show ?thesis
  proof cases
    case (1 e tr)
    with job_names_event [OF _ 1] ok show ?thesis by (auto simp: system_ok_def)
  next
    case (2 tr)
    with ok have "job_id eid \<notin> set (jq_results (sys_queue s))" "tbl_get (jq_jobs (sys_queue s)) (job_id eid) = None"
      by (auto simp: system_ok_def accepting_ok_def unclaimed_def)
    with 2 show ?thesis by (auto simp: enqueue_webhook_def enqueue_process_def table_simps)
  qed simp
qed

text \<open>C2: interleaved jobs are serializable as far as the projection goes.  After any run, also with crashed
  or cancelled jobs, the invariants of the tables hold, the log has kept its rows, and there is one
  sequence of normalized canonical events such that every entity has gone through its lifecycle on
  them in that order and each event's stored row is the last one applied for it.\<close>

theorem interleaved_jobs_apply_events_one_by_one:
  assumes "system_start v" "system_reaches X S F reliable workers (idle v) s"
  shows "service_ok (sys_service s) \<and> log_extends (sv_db v) (sys_db s) \<and>
     (\<exists>evs. committed evs (sv_db v) (sys_db s))"
  using reaches_system_ok [OF assms] by (auto simp: system_ok_def progress_def)

text \<open>C4: concurrent extractions overrun the daily budgets by little.  When no answer costs more than the
  estimate of a tenth of a cent and a budget allows at least one call, the recorded spending of the day
  never exceeds that budget by more than one estimate for each further job that the workers can have in
  progress, 16 for each process: the global budget with the spending on all vendors, and the vendor budget
  with the spending on any one of them.\<close>

theorem concurrent_spending_is_bounded:
  assumes "system_start v" "system_reaches X S F reliable workers (idle v) s" "answers_within_estimate F"
  shows "(1/1000 \<le> fb_global_budget F \<longrightarrow>
       spent_today (sys_db s) (\<lambda>_. True) \<le> fb_global_budget F + (of_nat (workers * max_jobs) - 1) / 1000) \<and>
     (1/1000 \<le> fb_vendor_budget F \<longrightarrow> (\<forall>vendor.
       spent_today (sys_db s) (\<lambda>a. la_decision a = vendor) \<le> fb_vendor_budget F + (of_nat (workers * max_jobs) - 1) / 1000))"
proof -
  have "spent V (sys_db s) \<le> budget V F + (of_nat (workers * max_jobs) - 1) / 1000" if "1/1000 \<le> budget V F" for V
  proof -
    obtain cs where "list_all2 (token_ok V F (sys_world s)) (sys_running s) cs" "covered V F (workers * max_jobs) (sys_db s) cs"
      using reaches_system_ok [OF assms(1,2), of V] by (auto simp: system_ok_def)
    with tokens_sum(1) [OF this(1) assms(3)] assms(3) that show ?thesis by (simp add: covered_def)
  qed
  from this [of None] this [of "Some vendor" for vendor] show ?thesis
    by (simp add: budget_def charges_def)
qed

section \<open>Jobs run as a whole\<close>

text \<open>Alone, an interruptible job is the job.  A job of the worker executed action by action without
  interference has the result and leaves the database and the number of provider calls that the
  definition of the job as one step says.\<close>

lemma job_alone_is_the_whole_job:
  "run (process_webhook_job X F eid) w = process_webhook X F eid w"
  by (rule run_process_webhook)

lemma acts_to_the_end:
  "(system_step X S F reliable workers)\<^sup>*\<^sup>* \<lparr>sys_service = v, sys_accepting = [], sys_running = [(jid, eid, j)]\<rparr>
     \<lparr>sys_service = v\<lparr>sv_world := snd (run j (sv_world v))\<rparr>, sys_accepting = [], sys_running = [(jid, eid, Return (fst (run j (sv_world v))))]\<rparr>"
proof (induction j arbitrary: v rule: job_induct)
  case (Return r)
  then show ?case by simp
next
  case (Act f)
  obtain j w where f: "f (sv_world v) = (j, w)" by fastforce
  have "system_step X S F reliable workers \<lparr>sys_service = v, sys_accepting = [], sys_running = [(jid, eid, Act f)]\<rparr>
      \<lparr>sys_service = v\<lparr>sv_world := w\<rparr>, sys_accepting = [], sys_running = [(jid, eid, j)]\<rparr>"
    using sys_act [of "\<lparr>sys_service = v, sys_accepting = [], sys_running = [(jid, eid, Act f)]\<rparr>" "[]" jid eid f "[]" j w] f by simp
  moreover have "(system_step X S F reliable workers)\<^sup>*\<^sup>* \<lparr>sys_service = v\<lparr>sv_world := w\<rparr>, sys_accepting = [], sys_running = [(jid, eid, j)]\<rparr>
      \<lparr>sys_service = v\<lparr>sv_world := snd (run j w)\<rparr>, sys_accepting = [], sys_running = [(jid, eid, Return (fst (run j w)))]\<rparr>"
  proof -
    have "j = fst (f (sv_world v))" by (simp add: f)
    then show ?thesis using Act [where v = "v\<lparr>sv_world := w\<rparr>"] by simp
  qed
  ultimately show ?case by (simp add: run_Act f converse_rtranclp_into_rtranclp)
qed

lemma runs_to_the_end:
  assumes "tbl_get (jq_jobs (sv_queue v)) jid = Some (eid, tr)" "0 < workers" "tries (sv_queue v) jid < max_tries"
  shows "(system_step X S F reliable workers)\<^sup>*\<^sup>* (idle v)
     \<lparr>sys_service = unreported_job X F jid eid v, sys_accepting = [], sys_running = [(jid, eid, Return (fst (process_webhook X F eid (sv_world v))))]\<rparr>"
proof -
  have "system_step X S F reliable workers (idle v)
      \<lparr>sys_service = begun jid v, sys_accepting = [], sys_running = [(jid, eid, process_webhook_job X F eid)]\<rparr>"
    using sys_start [of "idle v" jid eid tr workers X S F reliable] assms by (simp add: idle_def max_jobs_def)
  moreover have "begun jid v\<lparr>sv_world := snd (process_webhook X F eid (sv_world v))\<rparr> = unreported_job X F jid eid v"
    by (simp add: begun_def unreported_job_def run_job_def)
  ultimately show ?thesis
    using acts_to_the_end [of X S F reliable workers "begun jid v" jid eid "process_webhook_job X F eid"]
    by (simp add: run_process_webhook begun_fields converse_rtranclp_into_rtranclp)
qed

text \<open>The two halves are \<open>_ingest\<close>.\<close>

lemma ingest_in_two_steps:
  "snd (ingest X S up tr req v) = (case to_enqueue (fst (store_webhook X S tr req v)) of
     [] \<Rightarrow> snd (store_webhook X S tr req v)
   | (eid, t) # _ \<Rightarrow> enqueue_webhook up eid t (snd (store_webhook X S tr req v)))"
proof (cases "parse_body X S (rq_body req)")
  case (Inl e)
  then show ?thesis by (simp add: ingest_def store_webhook_def to_enqueue_def Let_def)
next
  case body: (Inr payload)
  show ?thesis
  proof (cases "verify_signature X S req")
    case (Inl e)
    with body show ?thesis by (simp add: ingest_def store_webhook_def to_enqueue_def Let_def)
  next
    case (Inr verified)
    obtain d b where "insert_raw (delivered_id X req payload) (new_raw (sv_db v) req payload verified) (sv_db v) = (d, b)"
      by fastforce
    with body Inr show ?thesis
      by (cases b) (simp_all add: ingest_def store_webhook_def to_enqueue_def enqueue_webhook_def stored_fields
          Let_def split: sum.split)
  qed
qed

lemma to_enqueue_single: "to_enqueue r = p # ps \<Longrightarrow> \<exists>eid t. to_enqueue r = [(eid, t)]"
  by (auto simp: to_enqueue_def split: sum.splits if_splits)

lemma whole_step:
  assumes "service_step X S F reliable v v'" "0 < workers"
  shows "(system_step X S F reliable workers)\<^sup>*\<^sup>* (idle v) (idle v')"
  using assms(1)
proof cases
  case (deliver up tr req r)
  obtain r' u where u: "store_webhook X S tr req v = (r', u)" by fastforce
  let ?u = "\<lparr>sys_service = u, sys_accepting = to_enqueue r', sys_running = []\<rparr>"
  have store: "system_step X S F reliable workers (idle v) ?u"
    using sys_store [of X S tr req "idle v" r' u F reliable workers] u by (simp add: idle_def)
  have v': "v' = (case to_enqueue r' of [] \<Rightarrow> u | (eid, t) # _ \<Rightarrow> enqueue_webhook up eid t u)"
    using deliver(1) ingest_in_two_steps [of X S up tr req v, unfolded u fst_conv snd_conv] by simp
  show ?thesis
  proof (cases "to_enqueue r'")
    case Nil
    with store v' show ?thesis by (auto simp: idle_def)
  next
    case (Cons p ps)
    obtain eid t where p: "to_enqueue r' = [(eid, t)]" using Cons to_enqueue_single by blast
    have "system_step X S F reliable workers ?u (idle v')"
      using sys_enqueue [of ?u "[]" eid t "[]" reliable up X S F workers] deliver(2) by (simp add: p v' idle_def)
    with store show ?thesis by (meson rtranclp.rtrancl_into_rtrancl r_into_rtranclp)
  qed
next
  case (work jid eid tr)
  have "reported jid (unreported_job X F jid eid v) = v'"
    by (simp add: work(1) reported_def work_job_def unreported_job_def)
  then have "system_step X S F reliable workers
      \<lparr>sys_service = unreported_job X F jid eid v, sys_accepting = [], sys_running = [(jid, eid, Return r)]\<rparr> (idle v')" for r
    using sys_finish [of "\<lparr>sys_service = unreported_job X F jid eid v, sys_accepting = [], sys_running = [(jid, eid, Return r)]\<rparr>" "[]" jid eid r "[]"]
    by (simp add: idle_def)
  with runs_to_the_end [OF work(2) assms(2) work(3)] show ?thesis by (rule rtranclp.rtrancl_into_rtrancl)
next
  case (work_again jid eid tr)
  have "system_step X S F reliable workers
      \<lparr>sys_service = unreported_job X F jid eid v, sys_accepting = [], sys_running = [job]\<rparr> (idle v')" for job
    using sys_crash [of "\<lparr>sys_service = unreported_job X F jid eid v, sys_accepting = [], sys_running = [job]\<rparr>" "[]" job "[]"] work_again(1)
    by (simp add: idle_def)
  with runs_to_the_end [OF work_again(2) assms(2) work_again(3)] show ?thesis by (rule rtranclp.rtrancl_into_rtrancl)
next
  case (give_up jid eid tr)
  then show ?thesis using sys_give_up [of "idle v" jid eid tr X S F reliable workers] by (auto simp: idle_def)
next
  case (expire jid)
  then show ?thesis using sys_expire [of X S F reliable workers "idle v" jid] by (auto simp: idle_def)
next
  case (tick n)
  then show ?thesis using sys_tick [of X S F reliable workers "idle v" n] by (auto simp: idle_def)
qed

lemma whole_run:
  assumes "(service_step X S F reliable)\<^sup>*\<^sup>* v v'" "0 < workers"
  shows "(system_step X S F reliable workers)\<^sup>*\<^sup>* (idle v) (idle v')"
  using assms(1)
proof (induction rule: rtranclp_induct)
  case (step u v')
  from step.IH whole_step [OF step.hyps(2) assms(2)] show ?case by (rule rtranclp_trans)
qed simp

text \<open>Running jobs one after the other is one of the interleavings.  Every run of the service in which
  each job is one step is a run of the interleaved service, with at least one worker.\<close>

lemma whole_jobs_are_an_interleaving:
  assumes "service_reaches X S F reliable v v'" "0 < workers"
  shows "system_reaches X S F reliable workers (idle v) (idle v')"
  using whole_run assms by (simp add: service_reaches_def system_reaches_def)

section \<open>Recovery\<close>

text \<open>The receivers that have stored a webhook enqueue it.\<close>

definition enqueue_all :: "system \<Rightarrow> service" where
  "enqueue_all s = fold (\<lambda>(eid, tr). enqueue_webhook True eid tr) (sys_accepting s) (sys_service s)"

lemma enqueue_webhook_tries: "tries (sv_queue (enqueue_webhook up eid tr v)) k \<le> tries (sv_queue v) k"
  using enqueue_tries [of up eid "Some tr" "sv_queue v" _ k] by (simp add: enqueue_webhook_def split: sum.split)

lemma enqueue_all_tries: "tries (sv_queue (enqueue_all s)) k \<le> tries (sys_queue s) k"
proof -
  have "tries (sv_queue (fold (\<lambda>(eid, tr). enqueue_webhook True eid tr) ps v)) k \<le> tries (sv_queue v) k" for ps v
    by (induction ps arbitrary: v) (auto intro: order_trans [OF _ enqueue_webhook_tries])
  then show ?thesis by (simp add: enqueue_all_def)
qed

lemma enqueue_all_run:
  "(system_step X S F reliable workers)\<^sup>*\<^sup>* s (s\<lparr>sys_service := enqueue_all s, sys_accepting := []\<rparr>)"
proof (induction "sys_accepting s" arbitrary: s)
  case (Cons p ps)
  obtain eid tr where p: "p = (eid, tr)" by fastforce
  let ?t = "s\<lparr>sys_service := enqueue_webhook True eid tr (sys_service s), sys_accepting := ps\<rparr>"
  have "system_step X S F reliable workers s ?t"
    using sys_enqueue [of s "[]" eid tr ps reliable True] Cons.hyps(2) p by simp
  moreover have "enqueue_all ?t = enqueue_all s" using Cons.hyps(2) [symmetric] p by (simp add: enqueue_all_def)
  ultimately show ?case using Cons.hyps(1) [of ?t] by (simp add: converse_rtranclp_into_rtranclp)
next
  case Nil
  then have "s\<lparr>sys_service := enqueue_all s, sys_accepting := []\<rparr> = s" by (simp add: enqueue_all_def)
  then show ?case by (metis rtranclp.rtrancl_refl)
qed

lemma crash_all:
  assumes "sys_running s = ts" "sys_accepting s = []"
  shows "(system_step X S F reliable workers)\<^sup>*\<^sup>* s (idle (sys_service s))"
  using assms
proof (induction ts arbitrary: s)
  case (Cons t ts)
  have "system_step X S F reliable workers s (s\<lparr>sys_running := ts\<rparr>)"
    using sys_crash [of s "[]" t ts] Cons.prems by simp
  with Cons.IH [of "s\<lparr>sys_running := ts\<rparr>"] Cons.prems show ?case by (simp add: converse_rtranclp_into_rtranclp)
next
  case Nil
  then have "s = idle (sys_service s)" by (simp add: idle_def)
  then show ?case by (metis rtranclp.rtrancl_refl)
qed

text \<open>C3: the service recovers when all its workers die.  From any state that it reaches with the queue
  up when receivers enqueue, without dead receivers and cancelled jobs, in the middle of however many
  requests and jobs, there is a run on, in which the receivers enqueue what they have stored, every job in
  progress dies and arq takes the waiting jobs one after the other, that ends with an empty queue and a
  verdict on every event received whose job was started fewer than \<open>max_tries\<close> times.\<close>

theorem service_recovers_from_crashes:
  assumes "system_start v" "system_reaches X S F True workers (idle v) s" "0 < workers"
  shows "system_reaches X S F True workers s (idle (drain X F (enqueue_all s))) \<and>
     jq_jobs (sv_queue (drain X F (enqueue_all s))) = [] \<and>
     (\<forall>eid. event_exists (sv_db (drain X F (enqueue_all s))) eid \<longrightarrow> tries (sys_queue s) (job_id eid) < max_tries \<longrightarrow>
        settled (sv_db (drain X F (enqueue_all s))) eid)"
proof -
  let ?s = "enqueue_all s"
  have all: "(system_step X S F True workers)\<^sup>*\<^sup>* s (idle ?s)"
    using rtranclp_trans [OF enqueue_all_run crash_all [OF refl, of "s\<lparr>sys_service := ?s, sys_accepting := []\<rparr>"]] by simp
  then have "system_reaches X S F True workers (idle v) (idle ?s)"
    using assms(2) unfolding system_reaches_def by (meson rtranclp_trans)
  from reaches_lossless [OF assms(1) this]
  have ok: "service_ok ?s \<and> none_lost ?s" by (auto simp: system_ok_def none_forgotten_def none_lost_def idle_def)
  then have ok': "service_ok ?s" by blast
  have "status_of (sv_db (drain X F ?s)) eid \<noteq> Some Queued" if "tries (sys_queue s) (job_id eid) < max_tries" for eid
    using drained(3) [OF ok', of X F eid] ok that enqueue_all_tries [of s "job_id eid"]
    unfolding unattended_def none_lost_def by fastforce
  moreover have "system_reaches X S F True workers s (idle (drain X F ?s))"
    unfolding system_reaches_def by (rule rtranclp_trans [OF all whole_run [OF drained(1) [OF ok'] assms(3)]])
  ultimately show ?thesis
    using drained(2) [OF ok'] by (auto simp: event_exists_def settled_def status_of_def)
qed

section \<open>Cancelled jobs\<close>

text \<open>An event that waits for a job that nobody will enqueue or start.\<close>

definition stranded :: "system \<Rightarrow> string \<Rightarrow> bool" where
  "stranded s eid \<longleftrightarrow> status_of (sys_db s) eid = Some Queued \<and>
     tbl_get (jq_jobs (sys_queue s)) (job_id eid) = None \<and> eid \<notin> fst ` set (sys_accepting s) \<and>
     (\<forall>(jid, e, j) \<in> set (sys_running s). e \<noteq> eid)"

lemma stranded_step:
  assumes "system_step X S F reliable workers s s'" "system_ok V F n s" "stranded s eid"
  shows "stranded s' eid"
  using assms(1)
proof cases
  case (sys_store tr req r v)
  have ex: "event_exists (sys_db s) eid" using assms(3) by (auto simp: stranded_def status_of_def event_exists_def)
  from sys_store(2) show ?thesis
  proof (cases rule: store_cases)
    case (stored e row t)
    with ex have "e \<noteq> eid" by auto
    with stored assms(3) sys_store(1) show ?thesis by (simp add: stranded_def stored_fields status_with_raw)
  qed (use assms(3) sys_store(1) in simp)
next
  case (sys_enqueue as e tr bs up)
  then show ?thesis using assms(3) by (auto simp: stranded_def enqueue_fields)
next
  case (sys_start jid e tr)
  have "jid = job_id e" using job_names_event [OF _ sys_start(2)] assms(2) by (simp add: system_ok_def)
  then show ?thesis using sys_start assms(3) by (auto simp: stranded_def begun_fields)
next
  case (sys_give_up jid e tr)
  then show ?thesis using assms(3) by (auto simp: stranded_def reported_fields end_job_get)
next
  case (sys_act xs jid e f ys j w)
  have "e \<noteq> eid" using assms(3) sys_act(2) by (auto simp: stranded_def)
  with running_act [OF assms(2) sys_act(2,3)] have "status_of (wdb w) eid = status_of (sys_db s) eid"
    by (simp add: db_step_def status_of_def)
  then show ?thesis using assms(3) by (auto simp: sys_act stranded_def)
next
  case (sys_finish xs jid e r ys)
  then show ?thesis using assms(3) by (auto simp: stranded_def reported_fields end_job_get)
next
  case (sys_crash xs job ys)
  then show ?thesis using assms(3) by (auto simp: stranded_def)
next
  case (sys_cancel xs jid e j ys)
  then show ?thesis using assms(3) by (auto simp: stranded_def reported_fields end_job_get)
qed (use assms(3) in \<open>simp_all add: stranded_def status_of_def set_db_def\<close>)

lemma stranded_run:
  assumes "(system_step X S F reliable workers)\<^sup>*\<^sup>* s s'" "system_ok V F (workers * max_jobs) s" "stranded s eid"
  shows "stranded s' eid"
  using assms(1)
proof (induction rule: rtranclp_induct)
  case base
  show ?case by (rule assms(3))
next
  case (step t u)
  have "system_ok V F (workers * max_jobs) t"
    using systems.run_rel [OF step.hyps(1)] assms(2) by (simp add: system_rel_def)
  with stranded_step step.hyps(2) step.IH show ?case by blast
qed

text \<open>A receiver that dies between the INSERT and the enqueueing leaves its webhook in the same state.\<close>

lemma dead_receiver_strands_its_webhook:
  assumes "system_start v" "system_reaches X S F False workers (idle v) s"
    and "sys_accepting s = as @ (eid, tr) # bs" "status_of (sys_db s) eid = Some Queued"
    and "system_reaches X S F False workers (s\<lparr>sys_accepting := as @ bs\<rparr>) t"
  shows "stranded t eid"
proof -
  let ?s = "s\<lparr>sys_accepting := as @ bs\<rparr>"
  have "system_step X S F False workers s ?s" by (rule sys_abandon [OF _ assms(3)]) simp
  moreover have ok: "system_ok V F (workers * max_jobs) s" using reaches_system_ok [OF assms(1,2)] by blast
  ultimately have "system_ok V F (workers * max_jobs) ?s" using system_rel_step by (auto simp: system_rel_def)
  moreover have "stranded ?s eid"
    using ok assms(3,4) by (auto simp: system_ok_def accepting_ok_def unclaimed_def stranded_def)
  ultimately show ?thesis using stranded_run assms(5) unfolding system_reaches_def by blast
qed

text \<open>C30: a job that is cancelled strands its webhook.  When a job is cancelled before it has settled
  its event, which \<open>except Exception\<close> does not see, the event stays \<open>queued\<close> for ever: in no later state,
  whatever is delivered again and whatever is run, is there a job for it, waiting or in progress.\<close>

theorem cancelled_job_strands_its_webhook:
  assumes "system_start v" "system_reaches X S F False workers (idle v) s"
    and "(jid, eid, j) \<in> set (sys_running s)" "status_of (sys_db s) eid = Some Queued"
  shows "\<exists>s'. system_step X S F False workers s s' \<and>
     (\<forall>t. system_reaches X S F False workers s' t \<longrightarrow> stranded t eid)"
proof -
  obtain xs ys where run: "sys_running s = xs @ (jid, eid, j) # ys" using assms(3) by (meson split_list)
  let ?s = "(s\<lparr>sys_service := reported jid (sys_service s), sys_running := xs @ ys\<rparr>)"
  have step: "system_step X S F False workers s ?s" by (rule sys_cancel [OF _ run]) simp
  have ok: "system_ok V F (workers * max_jobs) s" using reaches_system_ok [OF assms(1,2)] by blast
  have names: "k = job_id e" if "(k, e, i) \<in> set (sys_running s)" for k e i
    using running_names_event [OF ok that] by simp
  have "jid \<notin> fst ` set (xs @ ys)" using ok run by (simp add: system_ok_def image_Un)
  then have "e \<noteq> eid" if "(k, e, i) \<in> set (xs @ ys)" for k e i
    using names [of k e i] names [OF assms(3)] that run by (force simp: image_iff)
  moreover have "eid \<notin> fst ` set (sys_accepting s)"
    using ok assms(3) by (force simp: system_ok_def accepting_ok_def unclaimed_def)
  ultimately have "stranded ?s eid"
    using assms(4) names [OF assms(3)] by (auto simp: stranded_def reported_fields end_job_get)
  moreover have "system_ok V F (workers * max_jobs) ?s" using system_rel_step [OF step] ok by (simp add: system_rel_def)
  ultimately have "\<forall>t. system_reaches X S F False workers ?s t \<longrightarrow> stranded t eid"
    using stranded_run unfolding system_reaches_def by blast
  with step show ?thesis by blast
qed

section \<open>Jobs that died too often\<close>

text \<open>A queued event whose job has used up its tries and that nobody works on.\<close>

definition doomed :: "system \<Rightarrow> string \<Rightarrow> bool" where
  "doomed s eid \<longleftrightarrow> status_of (sys_db s) eid = Some Queued \<and> max_tries \<le> tries (sys_queue s) (job_id eid) \<and>
     eid \<notin> fst ` set (sys_accepting s) \<and> (\<forall>(jid, e, j) \<in> set (sys_running s). e \<noteq> eid)"

lemma doomed_step:
  assumes "system_step X S F reliable workers s s'" "system_ok V F n s" "doomed s eid"
  shows "doomed s' eid"
  using assms(1)
proof cases
  case (sys_store tr req r v)
  have ex: "event_exists (sys_db s) eid" using assms(3) by (auto simp: doomed_def status_of_def event_exists_def)
  from sys_store(2) show ?thesis
  proof (cases rule: store_cases)
    case (stored e row t)
    with ex have "e \<noteq> eid" by auto
    with stored assms(3) sys_store(1) show ?thesis by (simp add: doomed_def stored_fields status_with_raw)
  qed (use assms(3) sys_store(1) in simp)
next
  case (sys_enqueue as e tr bs up)
  then have "tries (sv_queue (enqueue_webhook up e tr (sys_service s))) (job_id eid) = tries (sys_queue s) (job_id eid)"
    using assms(3) enqueue_tries [of up e "Some tr" "sys_queue s" _ "job_id eid"]
    by (auto simp: doomed_def enqueue_webhook_def split: sum.split)
  with sys_enqueue assms(3) show ?thesis by (auto simp: doomed_def enqueue_fields)
next
  case (sys_start jid e tr)
  have "jid = job_id e" using job_names_event [OF _ sys_start(2)] assms(2) by (simp add: system_ok_def)
  moreover from this have "e \<noteq> eid" using sys_start(5) assms(3) by (auto simp: doomed_def)
  ultimately show ?thesis using assms(3) by (simp add: sys_start(1) doomed_def begun_fields)
next
  case (sys_act xs jid e f ys j w)
  have "e \<noteq> eid" using assms(3) sys_act(2) by (auto simp: doomed_def)
  with running_act [OF assms(2) sys_act(2,3)] have "status_of (wdb w) eid = status_of (sys_db s) eid"
    by (simp add: db_step_def status_of_def)
  then show ?thesis using assms(3) by (auto simp: sys_act doomed_def)
qed (use assms(3) in \<open>auto simp: doomed_def reported_fields status_of_def set_db_def\<close>)

text \<open>C29: a job that dies too often loses its webhook.  When the job of a queued event was started
  \<open>max_tries\<close> times and died each time before it settled the event, then, although the queue is up and
  nothing else goes wrong, arq runs it no more: in no later state has the event a verdict or a job in
  progress, and once arq has taken the job from the queue, none is put there again.\<close>

theorem jobs_that_die_too_often_lose_their_webhook:
  assumes "system_start v" "system_reaches X S F True workers (idle v) s"
    and "tbl_get (jq_jobs (sys_queue s)) (job_id eid) = Some (eid, tr)" "job_id eid \<notin> fst ` set (sys_running s)"
    and "max_tries \<le> tries (sys_queue s) (job_id eid)" "status_of (sys_db s) eid = Some Queued"
  shows "(\<forall>t. system_reaches X S F True workers s t \<longrightarrow> status_of (sys_db t) eid = Some Queued \<and>
       (\<forall>(jid, e, j) \<in> set (sys_running t). e \<noteq> eid)) \<and>
     (\<exists>u. system_step X S F True workers s u \<and> (\<forall>t. system_reaches X S F True workers u t \<longrightarrow> stranded t eid))"
proof -
  have ok: "system_ok None F (workers * max_jobs) s" using reaches_system_ok [OF assms(1,2)] by blast
  have idle: "e \<noteq> eid" if "(jid, e, j) \<in> set (sys_running s)" for jid e j
    using running_names_event [OF ok that] that assms(4) by (force simp: image_iff)
  have acc: "eid \<notin> fst ` set (sys_accepting s)"
    using ok assms(3) by (auto simp: system_ok_def accepting_ok_def unclaimed_def)
  have "doomed s eid" using assms(5,6) idle acc by (auto simp: doomed_def)
  have doomed: "doomed t eid" if "(system_step X S F True workers)\<^sup>*\<^sup>* s t" for t
    using that
  proof (induction rule: rtranclp_induct)
    case (step t u)
    have "system_ok None F (workers * max_jobs) t" using systems.run_rel [OF step.hyps(1)] ok by (simp add: system_rel_def)
    with doomed_step step.hyps(2) step.IH show ?case by blast
  qed (rule \<open>doomed s eid\<close>)
  let ?u = "s\<lparr>sys_service := reported (job_id eid) (sys_service s)\<rparr>"
  have step: "system_step X S F True workers s ?u" by (rule sys_give_up [OF assms(3-5)])
  have "stranded ?u eid" using assms(6) idle acc by (auto simp: stranded_def reported_fields end_job_get)
  moreover have "system_ok None F (workers * max_jobs) ?u" using system_rel_step [OF step] ok by (simp add: system_rel_def)
  ultimately have "\<forall>t. system_reaches X S F True workers ?u t \<longrightarrow> stranded t eid"
    using stranded_run unfolding system_reaches_def by blast
  moreover have "status_of (sys_db t) eid = Some Queued \<and> (\<forall>(jid, e, j) \<in> set (sys_running t). e \<noteq> eid)"
    if "system_reaches X S F True workers s t" for t
    using doomed that by (simp add: doomed_def system_reaches_def)
  ultimately show ?thesis using step by blast
qed

section \<open>The budget check is not exact\<close>

text \<open>One action of the \<open>i\<close>-th of some jobs.\<close>

definition act_at :: "nat \<Rightarrow> ('s, 'a) job list \<times> 's \<Rightarrow> ('s, 'a) job list \<times> 's" where
  "act_at i = (\<lambda>(js, w). case js ! i of Return r \<Rightarrow> (js, w) | Act f \<Rightarrow> (js[i := fst (f w)], snd (f w)))"

text \<open>A budget for one answer at the estimated cost.\<close>

definition tight_F :: fallback where
  "tight_F = (sample_F ''answer'' ''answer'')\<lparr>fb_complete := (\<lambda>n prompt schema. Inr
        \<lparr>lr_text = ''answer'', lr_model = ''gpt-4o-mini'', lr_tokens_in = 900,
         lr_tokens_out = 120, lr_latency_ms = 800, lr_cost_estimate = 1/1000\<rparr>),
     fb_global_budget := 1/1000\<rparr>"

definition both_extractions :: "(world, LLMOutcome) job list \<times> world" where
  "both_extractions = fold act_at [0, 1, 0, 1, 0, 0, 0, 1, 1, 1]
     ([classify_extract_job sample_LX tight_F ''e1'' ''maersk'' sample_payload,
       classify_extract_job sample_LX tight_F ''e2'' ''msc'' sample_payload], sample_w)"

text \<open>Two extractions whose checks both come before the first audit row pass both: the day's spending
  ends at twice the budget, although no answer cost more than the estimate.\<close>

lemma two_extractions_overrun_the_budget:
  "answers_within_estimate tight_F \<and> fb_global_budget tight_F = 1/1000 \<and>
   list_all (\<lambda>j. case j of Return r \<Rightarrow> is_ok r | Act f \<Rightarrow> False) (fst both_extractions) \<and>
   spent_today (wdb (snd both_extractions)) (\<lambda>_. True) = 2/1000"
proof (intro conjI)
  show "answers_within_estimate tight_F" by (auto simp: answers_within_estimate_def tight_F_def)
  show "fb_global_budget tight_F = 1/1000" by (simp add: tight_F_def)
  show "list_all (\<lambda>j. case j of Return r \<Rightarrow> is_ok r | Act f \<Rightarrow> False) (fst both_extractions)" by code_simp
  show "spent_today (wdb (snd both_extractions)) (\<lambda>_. True) = 2/1000" by code_simp
qed

section \<open>Examples\<close>

lemma sample_system_start: "system_start sample_sv"
  using sample_start by (simp add: system_start_def sample_sv_def empty_db_def)

lemma accepted_service_run: "(service_step sample_RX sample_S F b)\<^sup>*\<^sup>* sample_sv accepted_sv"
  by (rule r_into_rtranclp) (rule service_step.deliver [OF accepted_run], simp)

lemma accepted_system: "system_reaches sample_RX sample_S F b 1 (idle sample_sv) (idle accepted_sv)"
  unfolding system_reaches_def by (rule whole_run [OF accepted_service_run]) simp

definition accepted_eid :: string where
  "accepted_eid = rp_event_id accepted_rp"

text \<open>The accepted webhook with its job in progress.\<close>

definition working :: "fallback \<Rightarrow> system" where
  "working F = \<lparr>sys_service = begun (job_id accepted_eid) accepted_sv, sys_accepting = [],
     sys_running = [(job_id accepted_eid, accepted_eid, process_webhook_job sample_RX F accepted_eid)]\<rparr>"

lemma accepted_tries: "tries (sv_queue accepted_sv) k = 0"
proof -
  have "jq_tries (sv_queue accepted_sv) = []" by code_simp
  then show ?thesis by (simp add: tries_def)
qed

lemma accepted_job_waits: "\<exists>tr. tbl_get (jq_jobs (sv_queue accepted_sv)) (job_id accepted_eid) = Some (accepted_eid, tr)"
proof -
  have "is_ok (case tbl_get (jq_jobs (sv_queue accepted_sv)) (job_id accepted_eid) of
      Some (e, tr) \<Rightarrow> if e = accepted_eid then Inr () else Inl KeyError | None \<Rightarrow> Inl KeyError)"
    by code_simp
  then show ?thesis by (auto simp: is_ok_def split: option.splits if_splits)
qed

lemma working_reached: "system_reaches sample_RX sample_S F b 1 (idle sample_sv) (working F)"
proof -
  obtain tr where "tbl_get (jq_jobs (sv_queue accepted_sv)) (job_id accepted_eid) = Some (accepted_eid, tr)"
    using accepted_job_waits by blast
  then have "system_step sample_RX sample_S F b 1 (idle accepted_sv) (working F)"
    using sys_start [of "idle accepted_sv" "job_id accepted_eid" accepted_eid tr 1 sample_RX sample_S F b]
    by (simp add: idle_def max_jobs_def working_def accepted_tries max_tries_def)
  with accepted_system show ?thesis unfolding system_reaches_def by (rule rtranclp.rtrancl_into_rtrancl)
qed

lemma working_queued: "status_of (sys_db (working F)) accepted_eid = Some Queued"
  using accepted_stored(2) by (simp add: working_def accepted_eid_def begun_fields)

text \<open>The job of the accepted webhook dies as often as arq starts it.\<close>

definition died :: "nat \<Rightarrow> system" where
  "died n = idle ((begun (job_id accepted_eid) ^^ n) accepted_sv)"

lemma died_fields: "sys_db (died n) = sv_db accepted_sv" "jq_jobs (sys_queue (died n)) = jq_jobs (sv_queue accepted_sv)"
  "tries (sys_queue (died n)) (job_id accepted_eid) = n" "sys_running (died n) = []"
  by (induction n) (simp_all add: died_def idle_def begun_fields accepted_tries)

lemma died_reached: "n \<le> max_tries \<Longrightarrow> system_reaches sample_RX sample_S F b 1 (idle sample_sv) (died n)"
proof (induction n)
  case 0
  then show ?case using accepted_system by (simp add: died_def)
next
  case (Suc n)
  obtain tr where job: "tbl_get (jq_jobs (sys_queue (died n))) (job_id accepted_eid) = Some (accepted_eid, tr)"
    using accepted_job_waits died_fields by auto
  let ?t = "(died n)\<lparr>sys_service := begun (job_id accepted_eid) (sys_service (died n)),
      sys_running := [(job_id accepted_eid, accepted_eid, process_webhook_job sample_RX F accepted_eid)]\<rparr>"
  have "system_step sample_RX sample_S F b 1 (died n) ?t"
    using sys_start [OF job, of 1 sample_RX sample_S F b] Suc.prems by (simp add: died_fields max_jobs_def)
  moreover have "system_step sample_RX sample_S F b 1 ?t (died (Suc n))"
    using sys_crash [of ?t "[]" _ "[]" sample_RX sample_S F b 1] by (simp add: died_def idle_def)
  ultimately show ?case
    using Suc.IH Suc.prems unfolding system_reaches_def by (meson Suc_leD rtranclp.rtrancl_into_rtrancl)
qed

lemma interleaved_jobs_lose_no_webhook_witness:
  "\<exists>tr. tbl_get (jq_jobs (sys_queue (working any_F))) (job_id accepted_eid) = Some (accepted_eid, tr)"
  using interleaved_jobs_lose_no_webhook [OF sample_system_start working_reached working_queued, of any_F]
  by (simp add: working_def begun_fields accepted_tries max_tries_def)

lemma interleaved_jobs_apply_events_one_by_one_witness:
  "service_ok (drain sample_RX any_F accepted_sv) \<and>
     (\<exists>evs. committed evs (sv_db sample_sv) (sv_db (drain sample_RX any_F accepted_sv)))"
proof -
  have "service_ok accepted_sv" using reaches_system_ok [OF sample_system_start accepted_system]
    by (auto simp: system_ok_def idle_def)
  from drained(1) [OF this]
  have "(service_step sample_RX sample_S any_F True)\<^sup>*\<^sup>* sample_sv (drain sample_RX any_F accepted_sv)"
    using accepted_service_run by (blast intro: rtranclp_trans)
  from whole_run [OF this, of 1]
  have "system_reaches sample_RX sample_S any_F True 1 (idle sample_sv) (idle (drain sample_RX any_F accepted_sv))"
    by (simp add: system_reaches_def)
  from interleaved_jobs_apply_events_one_by_one [OF sample_system_start this] show ?thesis
    by (simp add: idle_def)
qed

lemma concurrent_spending_is_bounded_witness:
  "spent_today (sys_db (working tight_F)) (\<lambda>_. True) \<le> 1/1000 + 15/1000 \<and>
   (\<forall>vendor. spent_today (sys_db (working tight_F)) (\<lambda>a. la_decision a = vendor) \<le> 1 + 15/1000)"
  using concurrent_spending_is_bounded [OF sample_system_start working_reached [of tight_F True]]
    two_extractions_overrun_the_budget by (simp add: max_jobs_def tight_F_def sample_F_def)

lemma whole_jobs_are_an_interleaving_witness:
  "system_reaches sample_RX sample_S any_F True 2 (idle sample_sv) (idle accepted_sv)"
  by (rule whole_jobs_are_an_interleaving) (simp_all add: service_reaches_def accepted_service_run)

lemma service_recovers_from_crashes_witness:
  "jq_jobs (sv_queue (drain sample_RX any_F (enqueue_all (working any_F)))) = []"
  using service_recovers_from_crashes [OF sample_system_start working_reached [of any_F True]] by simp

lemma jobs_that_die_too_often_lose_their_webhook_witness:
  "\<exists>u. system_step sample_RX sample_S any_F True 1 (died 5) u \<and> stranded u accepted_eid"
proof -
  obtain tr where "tbl_get (jq_jobs (sys_queue (died 5))) (job_id accepted_eid) = Some (accepted_eid, tr)"
    using accepted_job_waits died_fields by auto
  moreover have "status_of (sys_db (died 5)) accepted_eid = Some Queued"
    using accepted_stored(2) by (simp add: died_fields accepted_eid_def)
  ultimately show ?thesis
    using jobs_that_die_too_often_lose_their_webhook [OF sample_system_start died_reached [of 5 any_F True]]
    by (fastforce simp: died_fields max_tries_def system_reaches_def)
qed

lemma cancelled_job_strands_its_webhook_witness:
  "\<exists>s. system_step sample_RX sample_S any_F False 1 (working any_F) s \<and> stranded s accepted_eid"
proof -
  have "(job_id accepted_eid, accepted_eid, process_webhook_job sample_RX any_F accepted_eid) \<in> set (sys_running (working any_F))"
    by (simp add: working_def)
  from cancelled_job_strands_its_webhook [OF sample_system_start working_reached this working_queued]
  show ?thesis unfolding system_reaches_def by blast
qed

end
