(* ===== verification/Migrate.thy ===== *)
theory Migrate
  imports Hashing
begin

text \<open>
  \<open>app/tools/migrate.py\<close>: which migration files are run, in which order, and what is recorded.  The
  files of the directory are a list of (name, SQL) in any order; executing SQL is a parameter that
  maps a schema to the next one or fails.  The migration files end with a \<open>COMMIT\<close> of their own, which
  ends the transaction that \<open>run\<close> has opened: what a file did is committed before its name is recorded,
  and the record can still fail (\<open>up\<close> says for which names it goes through).
\<close>

section \<open>Running migrations\<close>

record 's catalog =
  ct_schema :: 's
  ct_migrations :: "string list option"

definition ensure_schema_table :: "'s catalog \<Rightarrow> 's catalog" where
  "ensure_schema_table c = (case ct_migrations c of
       None \<Rightarrow> c\<lparr>ct_migrations := Some []\<rparr> | Some _ \<Rightarrow> c)"

definition applied_migrations :: "'s catalog \<Rightarrow> string list" where
  "applied_migrations c = (case ct_migrations c of None \<Rightarrow> [] | Some ms \<Rightarrow> ms)"

definition apply_migration ::
  "(string \<Rightarrow> 's \<Rightarrow> 's result) \<Rightarrow> (string \<Rightarrow> bool) \<Rightarrow> string \<times> string \<Rightarrow> 's catalog \<Rightarrow> unit result \<times> 's catalog" where
  "apply_migration exec up f c =
     (case exec (snd f) (ct_schema c) of
        Inl e \<Rightarrow> (Inl e, c)
      | Inr s \<Rightarrow>
          if \<not> up (fst f) then (Inl ConnectionError, c\<lparr>ct_schema := s\<rparr>)
          else (Inr (), c\<lparr>ct_schema := s, ct_migrations := Some
            (if fst f \<in> set (applied_migrations c) then applied_migrations c
             else applied_migrations c @ [fst f])\<rparr>))"

fun run_files ::
  "(string \<Rightarrow> 's \<Rightarrow> 's result) \<Rightarrow> (string \<Rightarrow> bool) \<Rightarrow> string list \<Rightarrow> (string \<times> string) list \<Rightarrow> 's catalog \<Rightarrow>
     unit result \<times> 's catalog" where
  "run_files exec up already [] c = (Inr (), c)"
| "run_files exec up already (f # fs) c =
     (if fst f \<in> set already then run_files exec up already fs c
      else (case apply_migration exec up f c of
          (Inl e, c') \<Rightarrow> (Inl e, c')
        | (Inr _, c') \<Rightarrow> run_files exec up already fs c'))"

definition run_migrations ::
  "(string \<Rightarrow> 's \<Rightarrow> 's result) \<Rightarrow> (string \<Rightarrow> bool) \<Rightarrow> (string \<times> string) list \<Rightarrow> 's catalog \<Rightarrow>
     unit result \<times> 's catalog" where
  "run_migrations exec up files c =
     (let c1 = ensure_schema_table c in
      run_files exec up (applied_migrations c1) (sort_key fst files) c1)"

section \<open>What a run does\<close>

lemma ensure_applied [simp]: "applied_migrations (ensure_schema_table c) = applied_migrations c"
  "ct_schema (ensure_schema_table c) = ct_schema c"
  by (simp_all add: ensure_schema_table_def applied_migrations_def split: option.splits)

text \<open>Executing files one after the other.\<close>

definition exec_all :: "(string \<Rightarrow> 's \<Rightarrow> 's result) \<Rightarrow> (string \<times> string) list \<Rightarrow> 's \<Rightarrow> 's result" where
  "exec_all exec fs s = foldl (\<lambda>r f. bindE r (exec (snd f))) (Inr s) fs"

lemma exec_all_Nil [simp]: "exec_all exec [] s = Inr s"
  by (simp add: exec_all_def)

lemma exec_all_Cons: "exec (snd f) s = Inr s' \<Longrightarrow> exec_all exec (f # fs) s = exec_all exec fs s'"
  by (simp add: exec_all_def)

lemma apply_migration_cases:
  assumes "apply_migration exec up f c = (r, c')" "fst f \<notin> set (applied_migrations c)"
  obtains (failed) e where "r = Inl e" "c' = c" "exec (snd f) (ct_schema c) = Inl e"
    | (unrecorded) e where "r = Inl e" "e = ConnectionError" "\<not> up (fst f)" "exec (snd f) (ct_schema c) = Inr (ct_schema c')"
        "applied_migrations c' = applied_migrations c"
    | (recorded) "r = Inr ()" "exec (snd f) (ct_schema c) = Inr (ct_schema c')"
        "applied_migrations c' = applied_migrations c @ [fst f]"
proof (cases "exec (snd f) (ct_schema c)")
  case (Inl e)
  then have "r = Inl e" "c' = c" using assms(1) by (simp_all add: apply_migration_def)
  then show thesis using Inl by (rule failed)
next
  case (Inr s)
  show thesis
  proof (cases "up (fst f)")
    case True
    then have "r = Inr ()" "c' = c\<lparr>ct_schema := s, ct_migrations := Some (applied_migrations c @ [fst f])\<rparr>"
      using assms Inr by (simp_all add: apply_migration_def)
    with Inr show thesis by (intro recorded) (simp_all add: applied_migrations_def)
  next
    case False
    then have "r = Inl ConnectionError" "c' = c\<lparr>ct_schema := s\<rparr>"
      using assms(1) Inr by (simp_all add: apply_migration_def)
    with Inr False show thesis by (intro unrecorded) (simp_all add: applied_migrations_def)
  qed
qed

definition pending :: "string list \<Rightarrow> (string \<times> string) list \<Rightarrow> (string \<times> string) list" where
  "pending already fs = filter (\<lambda>f. fst f \<notin> set already) fs"

text \<open>The first \<open>k\<close> of the files that are to run have run, and the first \<open>n\<close> are recorded: all when the run
  succeeds; otherwise the next file fails, or it has run and the connection was lost before its record.\<close>

definition progress where
  "progress exec up c r c' todo k n \<longleftrightarrow>
     applied_migrations c' = applied_migrations c @ map fst (take n todo) \<and>
     exec_all exec (take k todo) (ct_schema c) = Inr (ct_schema c') \<and>
     (case r of Inr _ \<Rightarrow> k = n \<and> n = length todo
      | Inl e \<Rightarrow> n < length todo \<and> (k = n \<and> exec (snd (todo ! n)) (ct_schema c') = Inl e \<or>
          k = Suc n \<and> \<not> up (fst (todo ! n)) \<and> e = ConnectionError))"

lemma run_files_progress:
  assumes "run_files exec up already fs c = (r, c')" "distinct (map fst fs)"
    and "set (applied_migrations c) \<inter> fst ` set (pending already fs) = {}"
  shows "\<exists>k n. progress exec up c r c' (pending already fs) k n"
  using assms
proof (induction fs arbitrary: c)
  case Nil
  then show ?case by (auto simp: pending_def progress_def)
next
  case (Cons f fs)
  show ?case
  proof (cases "fst f \<in> set already")
    case True
    with Cons show ?thesis by (simp add: pending_def)
  next
    case False
    then have p: "pending already (f # fs) = f # pending already fs" by (simp add: pending_def)
    obtain r1 c1 where a: "apply_migration exec up f c = (r1, c1)" by fastforce
    have "fst f \<notin> set (applied_migrations c)" using Cons.prems(3) p by auto
    with a show ?thesis
    proof (cases rule: apply_migration_cases)
      case (failed e)
      with Cons.prems(1) False a have "progress exec up c r c' (pending already (f # fs)) 0 0"
        by (auto simp: progress_def p)
      then show ?thesis by blast
    next
      case (unrecorded e)
      with Cons.prems(1) False a have "progress exec up c r c' (pending already (f # fs)) 1 0"
        by (auto simp: progress_def p exec_all_Cons)
      then show ?thesis by blast
    next
      case recorded
      have "fst f \<notin> fst ` set (pending already fs)" using Cons.prems(2) by (auto simp: pending_def)
      then have "set (applied_migrations c1) \<inter> fst ` set (pending already fs) = {}"
        using Cons.prems(3) p recorded(3) by auto
      moreover have "run_files exec up already fs c1 = (r, c')"
        using Cons.prems(1) False a recorded(1) by simp
      ultimately obtain k n where "progress exec up c1 r c' (pending already fs) k n"
        using Cons.IH Cons.prems(2) by (metis distinct.simps(2) list.simps(9))
      then have "progress exec up c r c' (pending already (f # fs)) (Suc k) (Suc n)"
        by (auto simp: progress_def p recorded exec_all_Cons split: sum.split)
      then show ?thesis by blast
    qed
  qed
qed

lemma pending_sorted: "sorted (map fst (pending already (sort_key fst files)))"
  unfolding pending_def by (rule sorted_filter) simp

lemma run_migrations_progress:
  assumes "distinct (map fst files)" "run_migrations exec up files c = (r, c')"
  shows "\<exists>k n. progress exec up c r c' (pending (applied_migrations c) (sort_key fst files)) k n"
proof -
  have "distinct (map fst (sort_key fst files))"
    using assms(1) by (metis mset_map mset_sort mset_eq_imp_distinct_iff)
  moreover have "set (applied_migrations c) \<inter> fst ` set (pending (applied_migrations c) (sort_key fst files)) = {}"
    by (auto simp: pending_def)
  ultimately show ?thesis
    using run_files_progress [of exec up "applied_migrations c" "sort_key fst files" "ensure_schema_table c"] assms(2)
    by (simp add: run_migrations_def Let_def progress_def)
qed

lemma run_files_recorded:
  "fst ` set fs \<subseteq> set already \<Longrightarrow> run_files exec up already fs c = (Inr (), c)"
  by (induction fs) auto

lemma run_migrations_recorded:
  assumes "fst ` set files \<subseteq> set (applied_migrations c)" "ct_migrations c \<noteq> None"
  shows "run_migrations exec up files c = (Inr (), c)"
proof -
  have "ensure_schema_table c = c" using assms(2) by (auto simp: ensure_schema_table_def)
  with assms(1) run_files_recorded [of "sort_key fst files" "applied_migrations c" exec up c] show ?thesis
    by (simp add: run_migrations_def)
qed

lemma run_files_table: "run_files exec up already fs c = (r, c') \<Longrightarrow> ct_migrations c \<noteq> None \<Longrightarrow> ct_migrations c' \<noteq> None"
  by (induction fs arbitrary: c)
    (auto simp: apply_migration_def split: if_splits sum.splits prod.splits)

lemma run_migrations_table:
  assumes "run_migrations exec up files c = (r, c')"
  shows "ct_migrations c' \<noteq> None"
proof -
  have "ct_migrations (ensure_schema_table c) \<noteq> None"
    by (auto simp: ensure_schema_table_def split: option.splits)
  with assms run_files_table show ?thesis by (metis run_migrations_def)
qed

text \<open>C33: migrations run in the order of their names, once, up to the first failure.  The files that are
  not recorded are to run, in ascending order of their names.  A run executes a prefix of them and nothing
  else, and records what it has executed.  When it succeeds, the prefix is all of them, every file is
  recorded and running again executes nothing.  When it fails, either the next file is the one that failed,
  with the error of its SQL, or the last file executed is not recorded, because the connection was lost in
  between.\<close>

theorem migrations_run_in_order_and_once:
  assumes "distinct (map fst files)" "run_migrations exec up files c = (r, c')"
  shows "\<exists>todo ran rest. sorted (map fst todo) \<and>
     set todo = {f \<in> set files. fst f \<notin> set (applied_migrations c)} \<and> todo = ran @ rest \<and>
     exec_all exec ran (ct_schema c) = Inr (ct_schema c') \<and>
     (case r of
        Inr _ \<Rightarrow> rest = [] \<and> applied_migrations c' = applied_migrations c @ map fst ran \<and>
          fst ` set files \<subseteq> set (applied_migrations c') \<and> run_migrations exec up files c' = (Inr (), c')
      | Inl e \<Rightarrow>
          (\<exists>f fs. rest = f # fs \<and> exec (snd f) (ct_schema c') = Inl e \<and>
             applied_migrations c' = applied_migrations c @ map fst ran) \<or>
          (\<exists>done f. ran = done @ [f] \<and> e = ConnectionError \<and> \<not> up (fst f) \<and>
             applied_migrations c' = applied_migrations c @ map fst done))"
proof -
  let ?todo = "pending (applied_migrations c) (sort_key fst files)"
  obtain k n where p: "progress exec up c r c' ?todo k n"
    using run_migrations_progress [OF assms] by blast
  have recorded: "fst ` set files \<subseteq> set (applied_migrations c')" if "is_ok r"
    using p that by (auto simp: progress_def pending_def is_ok_iff)
  have again: "run_migrations exec up files c' = (Inr (), c')" if "is_ok r"
    by (rule run_migrations_recorded [OF recorded [OF that] run_migrations_table [OF assms(2)]])
  have outcome: "case r of
        Inr _ \<Rightarrow> drop k ?todo = [] \<and> applied_migrations c' = applied_migrations c @ map fst (take k ?todo) \<and>
          fst ` set files \<subseteq> set (applied_migrations c') \<and> run_migrations exec up files c' = (Inr (), c')
      | Inl e \<Rightarrow>
          (\<exists>f fs. drop k ?todo = f # fs \<and> exec (snd f) (ct_schema c') = Inl e \<and>
             applied_migrations c' = applied_migrations c @ map fst (take k ?todo)) \<or>
          (\<exists>done f. take k ?todo = done @ [f] \<and> e = ConnectionError \<and> \<not> up (fst f) \<and>
             applied_migrations c' = applied_migrations c @ map fst done)"
  proof (cases r)
    case (Inl e)
    with p have n: "n < length ?todo" by (simp add: progress_def)
    from p Inl consider "k = n" "exec (snd (?todo ! n)) (ct_schema c') = Inl e"
      | "k = Suc n" "\<not> up (fst (?todo ! n))" "e = ConnectionError" by (auto simp: progress_def)
    then show ?thesis
    proof cases
      case 1
      with p n Inl show ?thesis by (simp add: progress_def Cons_nth_drop_Suc [symmetric])
    next
      case 2
      with p n Inl show ?thesis by (simp add: progress_def take_Suc_conv_app_nth)
    qed
  next
    case (Inr u)
    with p recorded again show ?thesis by (simp add: progress_def is_ok_def)
  qed
  have "set ?todo = {f \<in> set files. fst f \<notin> set (applied_migrations c)}" by (auto simp: pending_def)
  with p outcome pending_sorted show ?thesis
    by (intro exI [of _ ?todo] exI [of _ "take k ?todo"] exI [of _ "drop k ?todo"]) (simp add: progress_def)
qed

text \<open>Three files found in any order, the second of which is already recorded; executing SQL appends
  it to the schema.\<close>

definition sample_files :: "(string \<times> string) list" where
  "sample_files = [(''003.sql'', ''c''), (''001.sql'', ''a''), (''002.sql'', ''b'')]"

definition sample_catalog :: "string catalog" where
  "sample_catalog = \<lparr>ct_schema = ''x'', ct_migrations = Some [''002.sql'']\<rparr>"

definition sample_exec :: "string \<Rightarrow> string \<Rightarrow> string result" where
  "sample_exec sql s = Inr (s @ sql)"

lemma migrations_run_in_order_and_once_witness:
  "run_migrations sample_exec (\<lambda>_. True) sample_files (snd (run_migrations sample_exec (\<lambda>_. True) sample_files sample_catalog)) =
     (Inr (), snd (run_migrations sample_exec (\<lambda>_. True) sample_files sample_catalog)) \<and>
   ct_schema (snd (run_migrations sample_exec (\<lambda>_. True) sample_files sample_catalog)) = ''xac''"
proof -
  have "distinct (map fst sample_files)" by code_simp
  note claim = migrations_run_in_order_and_once
    [where exec = sample_exec and up = "\<lambda>_. True" and c = sample_catalog, OF this surjective_pairing]
  have "is_ok (fst (run_migrations sample_exec (\<lambda>_. True) sample_files sample_catalog))"
    "ct_schema (snd (run_migrations sample_exec (\<lambda>_. True) sample_files sample_catalog)) = ''xac''" by code_simp+
  with claim show ?thesis by (auto simp: is_ok_iff)
qed

end
