(* ===== verification/Recovery.thy ===== *)
theory Recovery
  imports Interleaving
begin

text \<open>
  The replay tool (\<open>app/tools/replay.py\<close>) as the operator's way out.  Cancelled jobs, jobs that died too
  often, dead receivers and an unreachable queue leave events that no job waits for (\<open>stranded\<close> in
  \<open>Interleaving\<close>).  A replay of the whole log through the queue brings to a verdict those whose result arq
  does not keep any more; a replay in the tool's own process ends at the first event that raises.
\<close>

section \<open>Through the queue\<close>

definition whole_log :: "replay_args \<Rightarrow> bool" where
  "whole_log a \<longleftrightarrow> ra_vendor a = None \<and> ra_since a = None \<and> ra_until a = None \<and> ra_external_id a = None \<and>
     ra_limit a = None"

lemma whole_log_selected:
  assumes "whole_log a"
  obtains es where "select_replay pg a d = Inr es" "set es = fst ` set (raw_events d)"
  using assms by (auto simp: whole_log_def select_replay_def replay_slice_def replay_matches_def)

lemma enqueue_up_all: "\<exists>q'. replay_enqueue True es q = (Inr (), q')"
proof (induction es arbitrary: q)
  case (Cons e es)
  obtain q1 where "enqueue_process True e None q = Inr q1" using enqueue_up by blast
  with Cons.IH [of q1] show ?case by simp
qed simp

text \<open>An event that arq can still take up: its result is not kept, and if its job waits, the job has a try
  left.\<close>

definition recoverable :: "job_queue \<Rightarrow> string \<Rightarrow> bool" where
  "recoverable q eid \<longleftrightarrow> job_id eid \<notin> set (jq_results q) \<and>
     (tbl_get (jq_jobs q) (job_id eid) \<noteq> None \<longrightarrow> tries q (job_id eid) < max_tries)"

lemma enqueued_recoverable:
  assumes "replay_enqueue True es q = (Inr (), q')" "recoverable q eid"
  shows "recoverable q' eid"
  using assms
proof (induction es arbitrary: q)
  case (Cons e es)
  obtain q1 where q1: "enqueue_process True e None q = Inr q1" using enqueue_up by blast
  have "recoverable q1 eid"
    using Cons.prems(2) enqueue_waiting [OF q1] enqueue_tries [OF q1, of "job_id eid"]
    by (auto simp: recoverable_def max_tries_def split: if_splits)
  with Cons.IH Cons.prems(1) q1 show ?case by simp
qed simp

text \<open>What a replay of the whole log through the queue leaves: every recoverable event has a job with a try
  left.\<close>

lemma replay_whole_log:
  assumes "service_ok s" "whole_log a" "ra_mode a = ''enqueue''"
  obtains s' where "replay X F pg True a s = (Inr (), s')" "service_ok s'" "raw_log (sv_db s') = raw_log (sv_db s)"
    "\<And>eid. event_exists (sv_db s) eid \<Longrightarrow> recoverable (sv_queue s) eid \<Longrightarrow> waiting s' eid \<and> \<not> used_up (sv_queue s') eid"
proof -
  let ?s = "if ra_truncate a then set_db (truncate_projections (sv_db s)) s else s"
  have ok: "service_ok ?s" and log: "raw_log (sv_db ?s) = raw_log (sv_db s)" and queue: "sv_queue ?s = sv_queue s"
    using assms(1) worker_ok_truncate jobs_ok_mono [OF _ log_extends_same [OF truncate_raw_log]]
    by (auto simp: service_ok_def)
  obtain es where es: "select_replay pg a (sv_db ?s) = Inr es" "set es = fst ` set (raw_events (sv_db ?s))"
    by (rule whole_log_selected [OF assms(2)])
  obtain q where q: "replay_enqueue True es (sv_queue s) = (Inr (), q)" using enqueue_up_all by blast
  let ?t = "?s\<lparr>sv_queue := q\<rparr>"
  have run: "replay_selected X F True (ra_mode a) es ?s = (Inr (), ?t)"
    using q queue assms(3) by (simp add: replay_selected_def)
  have "\<forall>e \<in> set es. event_exists (sv_db ?s) e" using selected_exist [OF es(1)] by blast
  from replay_selected_keeps [OF run ok this] have "service_ok ?t" "raw_log (sv_db ?t) = raw_log (sv_db s)"
    using log by simp_all
  moreover have "waiting ?t eid \<and> \<not> used_up (sv_queue ?t) eid"
    if ex: "event_exists (sv_db s) eid" and rec: "recoverable (sv_queue s) eid" for eid
  proof -
    have "event_exists (sv_db ?s) eid" using ex log by (simp add: event_exists_log)
    then have "eid \<in> set es" using es(2) by (auto simp: event_exists_def dest!: tbl_get_mem intro: rev_image_eqI)
    then have "waiting ?t eid"
      using queue_replay_skips_recent_results [OF q, of eid] rec by (simp add: waiting_def recoverable_def)
    with enqueued_recoverable [OF q rec] show ?thesis by (simp add: waiting_def recoverable_def)
  qed
  moreover have "replay X F pg True a s = (Inr (), ?t)"
    using es(1) run by (simp add: replay_def Let_def)
  ultimately show thesis using that by blast
qed

text \<open>C5: whatever was lost can be recovered.  From any state that the service reaches, also with the queue
  down at times, with receivers that died between INSERT and enqueueing, with cancelled jobs and with jobs
  that died too often, a replay of the whole log through the queue while it is up, with or without
  truncation, ends without an error; working off the queue then leaves no job and a verdict on every stored
  event whose result arq does not keep at the time of the replay and whose job, if one is still waiting,
  was started fewer than \<open>max_tries\<close> times.\<close>

theorem replay_recovers_every_event:
  assumes "system_start v" "system_reaches X S F False workers (idle v) s"
    and "whole_log a" "ra_mode a = ''enqueue''"
  shows "\<exists>s'. replay X F pg True a (sys_service s) = (Inr (), s') \<and> jq_jobs (sv_queue (drain X F s')) = [] \<and>
     (\<forall>eid. event_exists (sys_db s) eid \<longrightarrow> recoverable (sys_queue s) eid \<longrightarrow> settled (sv_db (drain X F s')) eid)"
proof -
  have "service_ok (sys_service s)" using reaches_system_ok [OF assms(1,2)] by (simp add: system_ok_def)
  then obtain s' where s': "replay X F pg True a (sys_service s) = (Inr (), s')" "service_ok s'"
    "raw_log (sv_db s') = raw_log (sys_db s)"
    "\<And>eid. event_exists (sys_db s) eid \<Longrightarrow> recoverable (sys_queue s) eid \<Longrightarrow> waiting s' eid \<and> \<not> used_up (sv_queue s') eid"
    using assms(3,4) by (rule replay_whole_log) blast
  have "settled (sv_db (drain X F s')) eid" if "event_exists (sys_db s) eid" "recoverable (sys_queue s) eid" for eid
  proof -
    have "log_extends (sv_db s') (sv_db (drain X F s'))"
      using runs.run_rel [OF drained(1) [OF s'(2)]] by (simp add: service_rel_def)
    then have "event_exists (sv_db (drain X F s')) eid"
      using that(1) s'(3) log_extends_exists by (auto simp: event_exists_log)
    then show ?thesis
      using s'(4) [OF that] drained(3) [OF s'(2), of X F eid] by (auto simp: unattended_def settled_def status_of_def event_exists_def)
  qed
  with s'(1) drained(2) [OF s'(2)] show ?thesis by blast
qed

section \<open>In the tool's own process\<close>

lemma finalize_raises: "finalize X eid vid ev w = (Inl e, w') \<Longrightarrow> w' = w"
  by (auto simp: finalize_def andthen_def on_db_def split: sum.splits if_splits)

lemma via_llm_raises:
  assumes "process_via_llm X F eid vid payload w = (Inl e, w')"
  shows "quiet (wdb w) (wdb w')"
proof -
  obtain r v where m: "normalize_llm X F payload eid vid w = (r, v)" by fastforce
  have q: "quiet (wdb w) (wdb v)" using quiets.keeps_run [OF quiets_normalize_llm m] .
  show ?thesis
  proof (cases r)
    case (Inl f)
    with assms m q show ?thesis by (simp add: process_via_llm_def)
  next
    case (Inr a)
    with assms m have "w' = v \<or> w' = discover_after X eid vid payload a v"
      by (auto simp: process_via_llm_def andthen_def on_db_def dest: finalize_raises
          split: AdapterStatus.splits option.splits sum.splits)
    with q quiet_discover_after [of v X eid vid payload a] show ?thesis by (auto simp: quiet_def)
  qed
qed

lemma process_event_raises:
  assumes "process_event X F eid w = (Inl e, w')"
  shows "quiet (wdb w) (wdb w')"
proof (cases "tbl_get (raw_events (wdb w)) eid")
  case (Some row)
  show ?thesis
  proof (cases "event_vendor X row")
    case (Inr vid)
    let ?p = "rw_payload row"
    from assms have known: "process_known X F eid vid ?p w = (Inl e, w')" using process_event_known [OF Some Inr] by simp
    show ?thesis
    proof (cases "lookup_schema X (wdb w) vid ?p")
      case None
      with known via_llm_raises show ?thesis by (auto simp: process_known_def)
    next
      case m: (Some m)
      obtain r v where via: "process_via_schema X F eid vid ?p m w = (r, v)" by fastforce
      have q: "quiet (wdb w) (wdb v)" using quiets.keeps_run [OF quiets_via_schema via] .
      from known m via consider "w' = v"
        | d where "increment_failure (sm_schema_id m) (wdb v) = Inr d"
            "process_via_llm X F eid vid ?p (v\<lparr>wdb := d\<rparr>) = (Inl e, w')"
        by (auto simp: process_known_def andthen_def on_db_def dest: finalize_raises split: sum.splits option.splits)
      then show ?thesis
      proof cases
        case (2 d)
        from quiet_increment(2) [OF 2(1)] via_llm_raises [OF 2(2)] q show ?thesis by (simp add: quiet_def)
      qed (use q in simp)
    qed
  qed (use assms Some in \<open>simp add: process_event_def lift_result_def quiet_refl\<close>)
qed (use assms in \<open>simp add: process_event_def quiet_refl\<close>)

lemma replay_inline_raises:
  assumes "replay_inline X F es w = (Inl err, w')" "worker_ok (wdb w)"
  shows "\<exists>xs e ys w1. es = xs @ e # ys \<and> replay_inline X F xs w = (Inr (), w1) \<and>
     process_event X F e w1 = (Inl err, w') \<and>
     (\<forall>k. k \<notin> set xs \<longrightarrow> tbl_get (raw_events (wdb w1)) k = tbl_get (raw_events (wdb w)) k \<and>
        tbl_get (canonical_events (wdb w1)) k = tbl_get (canonical_events (wdb w)) k)"
  using assms
proof (induction es arbitrary: w)
  case (Cons e es)
  obtain r v where m: "process_event X F e w = (r, v)" by fastforce
  show ?case
  proof (cases r)
    case (Inl f)
    with Cons.prems(1) m show ?thesis
      by (intro exI [of _ "[]"] exI [of _ e] exI [of _ es] exI [of _ w]) simp
  next
    case (Inr out)
    have step: "db_step e (wdb w) (wdb v)" using steps.keeps_run [OF keeps_process_event m] .
    have others: "others_stored e (wdb w) (wdb v)" using process_event_effect [OF _ m] Cons.prems(2) by (simp add: worker_ok_def effect_def)
    from step Cons.prems(2) have "worker_ok (wdb v)" by (simp add: db_step_def)
    moreover have "replay_inline X F es v = (Inl err, w')" using Cons.prems(1) m Inr by simp
    ultimately obtain xs k ys w1 where "es = xs @ k # ys" "replay_inline X F xs v = (Inr (), w1)"
      "process_event X F k w1 = (Inl err, w')"
      "\<forall>k. k \<notin> set xs \<longrightarrow> tbl_get (raw_events (wdb w1)) k = tbl_get (raw_events (wdb v)) k \<and>
         tbl_get (canonical_events (wdb w1)) k = tbl_get (canonical_events (wdb v)) k"
      using Cons.IH by blast
    with step others m Inr show ?thesis
      by (intro exI [of _ "e # xs"] exI [of _ k] exI [of _ ys] exI [of _ w1])
        (simp add: db_step_def others_stored_def)
  qed
qed simp

text \<open>C22: a replay in the tool's own process is not all or nothing.  When it truncates first and an event
  raises, the tool ends there: the events selected before it were replayed, and the projections are what they
  left; the event that raised and all selected after it stay queued without a canonical event, and no job
  is enqueued for any of them.\<close>

theorem failed_replay_leaves_the_rest_queued:
  assumes "service_ok s" "distinct (map fst (raw_events (sv_db s)))" "ra_truncate a" "ra_mode a = ''inline''"
    and "replay X F pg up a s = (Inl err, s')"
    and "select_replay pg a (truncate_projections (sv_db s)) = Inr es"
  shows "\<exists>xs e ys w. es = xs @ e # ys \<and>
     replay_inline X F xs (sv_world (set_db (truncate_projections (sv_db s)) s)) = (Inr (), w) \<and>
     process_event X F e w = (Inl err, sv_world s') \<and> projection_of (sv_db s') = projection_of (wdb w) \<and>
     (\<forall>k \<in> set (e # ys). status_of (sv_db s') k = Some Queued \<and> tbl_get (canonical_events (sv_db s')) k = None) \<and>
     sv_queue s' = sv_queue s"
proof -
  let ?d = "truncate_projections (sv_db s)" and ?s = "set_db (truncate_projections (sv_db s)) s"
  have ok: "worker_ok ?d" using assms(1) worker_ok_truncate by (simp add: service_ok_def)
  obtain r w where m: "replay_inline X F es (sv_world ?s) = (r, w)" by fastforce
  then have r: "r = Inl err" "s' = ?s\<lparr>sv_world := w\<rparr>"
    using assms(3-6) by (simp_all add: replay_def replay_selected_def)
  with m ok obtain xs e ys w1 where split: "es = xs @ e # ys" "replay_inline X F xs (sv_world ?s) = (Inr (), w1)"
    "process_event X F e w1 = (Inl err, w)"
    "\<forall>k. k \<notin> set xs \<longrightarrow> tbl_get (raw_events (wdb w1)) k = tbl_get (raw_events ?d) k \<and>
       tbl_get (canonical_events (wdb w1)) k = tbl_get (canonical_events ?d) k"
    using replay_inline_raises [of X F es "sv_world ?s" err w] by auto
  note quiet = process_event_raises [OF split(3)]
  have "map fst (raw_events ?d) = map fst (raw_events (sv_db s))" by (auto simp: truncate_projections_def)
  then have "distinct es"
    using assms(2,6) slice_distinct by (auto simp: select_replay_def split: option.splits if_splits)
  have "status_of (wdb w) k = Some Queued \<and> tbl_get (canonical_events (wdb w)) k = None" if "k \<in> set (e # ys)" for k
  proof -
    have "k \<notin> set xs" using that \<open>distinct es\<close> split(1) by auto
    moreover have "event_exists ?d k" using selected_exist [OF assms(6)] that split(1) by auto
    moreover have "tbl_get (canonical_events ?d) k = None" by (simp add: truncate_projections_def tbl_get_def)
    ultimately show ?thesis
      using split(4) quiet by (auto simp: status_of_def event_exists_def truncate_raw_get quiet_def)
  qed
  with split(1-3) r(2) quiet show ?thesis
    by (intro exI [of _ xs] exI [of _ e] exI [of _ ys] exI [of _ w1]) (simp add: quiet_def)
qed

section \<open>Examples\<close>

definition whole_args :: replay_args where
  "whole_args = slice_args\<lparr>ra_vendor := None, ra_since := None, ra_until := None, ra_external_id := None, ra_limit := None,
     ra_mode := ''enqueue''\<rparr>"

text \<open>The accepted webhook, replayed.\<close>

lemma replay_recovers_every_event_witness:
  "\<exists>s'. replay sample_RX any_F (\<lambda>v. ''?'') True whole_args accepted_sv = (Inr (), s') \<and>
     settled (sv_db (drain sample_RX any_F s')) (rp_event_id accepted_rp)"
proof -
  have "jq_results (sv_queue accepted_sv) = []" by code_simp
  then have "recoverable (sys_queue (idle accepted_sv)) (rp_event_id accepted_rp)"
    by (simp add: idle_def recoverable_def accepted_tries max_tries_def)
  moreover have "whole_log whole_args" "ra_mode whole_args = ''enqueue''" by (simp_all add: whole_args_def whole_log_def)
  ultimately show ?thesis
    using replay_recovers_every_event [OF sample_system_start accepted_system [of any_F False], of whole_args "\<lambda>v. ''?''"]
      accepted_stored(1) by (auto simp: idle_def)
qed

text \<open>The provider cannot be reached while the tool runs.\<close>

definition down_F :: fallback where
  "down_F = any_F\<lparr>fb_complete := (\<lambda>n prompt schema. Inl ProviderError)\<rparr>"

definition two_events_sv :: service where
  "two_events_sv = \<lparr>sv_world = \<lparr>wdb = empty_db\<lparr>raw_events := [(''e1'', sample_raw), (''e2'', sample_raw)]\<rparr>, wcalls = 0\<rparr>,
     sv_queue = \<lparr>jq_jobs = [], jq_results = [], jq_tries = []\<rparr>\<rparr>"

definition truncating_args :: replay_args where
  "truncating_args = whole_args\<lparr>ra_mode := ''inline'', ra_truncate := True\<rparr>"

lemma failed_replay_leaves_the_rest_queued_witness:
  "status_of (sv_db (snd (replay sample_LX down_F (\<lambda>v. ''?'') True truncating_args two_events_sv))) ''e2'' = Some Queued"
proof -
  let ?run = "replay sample_LX down_F (\<lambda>v. ''?'') True truncating_args two_events_sv"
  have sel: "select_replay (\<lambda>v. ''?'') truncating_args (truncate_projections (sv_db two_events_sv)) = Inr [''e1'', ''e2'']"
    by code_simp
  have "fst ?run = Inl ProviderError" by code_simp
  then have run: "?run = (Inl ProviderError, snd ?run)" by (simp add: prod_eq_iff)
  have "worker_ok (sv_db two_events_sv)" by code_simp
  then have "service_ok two_events_sv" by (simp add: service_ok_def jobs_ok_def two_events_sv_def)
  moreover have "distinct (map fst (raw_events (sv_db two_events_sv)))" by code_simp
  ultimately obtain xs e ys where "[''e1'', ''e2''] = xs @ e # ys" "\<forall>k \<in> set (e # ys). status_of (sv_db (snd ?run)) k = Some Queued"
    using failed_replay_leaves_the_rest_queued [OF _ _ _ _ run sel] by (fastforce simp: truncating_args_def)
  then show ?thesis by (auto simp: Cons_eq_append_conv)
qed

end
