(* ===== verification/Metrics.thy ===== *)
theory Metrics
  imports Guarantees
begin

text \<open>
  \<open>app/metrics.py\<close> and the places that increment its counters: \<open>api/receiver.py\<close>,
  \<open>domain/state_machine.py\<close>, \<open>llm/fallback.py\<close>, \<open>workers/pipeline.py\<close>.  The functions of the other
  theories leave the counters out; here are those that increment one, or call one that does, once more
  with the registry of their process.  A registry is the list of increments made so far, and the value
  of a counter is their sum.  A histogram counts its observations, what was observed is left out.
  \<open>prometheus_client\<close> refuses a negative increment with \<open>ValueError\<close>.
\<close>

section \<open>Counters\<close>

datatype metric =
    INGEST_TOTAL string
  | INGEST_LATENCY
  | WORKER_PROCESS_TOTAL string string string
  | WORKER_LATENCY
  | LLM_CALL_TOTAL string string
  | LLM_TOKENS string string
  | STATE_TRANSITION_TOTAL string string

type_synonym registry = "(metric \<times> int) list"

definition counted_total :: "(metric \<Rightarrow> bool) \<Rightarrow> registry \<Rightarrow> int" where
  "counted_total p c = sum_list (map snd (filter (\<lambda>(m, n). p m) c))"

definition inc :: "metric \<Rightarrow> int \<Rightarrow> 's \<times> registry \<Rightarrow> unit result \<times> ('s \<times> registry)" where
  "inc m n = (\<lambda>(w, c). if n < 0 then (Inl ValueError, (w, c)) else (Inr (), (w, c @ [(m, n)])))"

text \<open>A step that increments nothing.\<close>

definition uncounted :: "('s \<Rightarrow> 'a result \<times> 's) \<Rightarrow> 's \<times> registry \<Rightarrow> 'a result \<times> ('s \<times> registry)" where
  "uncounted f = (\<lambda>(w, c). case f w of (r, w') \<Rightarrow> (r, (w', c)))"

definition outcome_value :: "ApplyOutcome \<Rightarrow> string" where
  "outcome_value out = (case out of
       ApplyOutcome.Applied \<Rightarrow> ''applied''
     | AppliedInitial \<Rightarrow> ''applied_initial''
     | AlreadyApplied \<Rightarrow> ''already_applied''
     | StaleSkipped \<Rightarrow> ''stale_skipped''
     | TransitionRejected \<Rightarrow> ''transition_rejected''
     | UnclassifiedRecorded \<Rightarrow> ''unclassified_recorded'')"

section \<open>LLM orchestration\<close>

definition ask_model_counted ::
  "externals \<Rightarrow> fallback \<Rightarrow> string \<Rightarrow> string \<Rightarrow> world \<times> registry \<Rightarrow>
     (LLMResult \<times> json \<times> nat) result \<times> (world \<times> registry)" where
  "ask_model_counted X F provider prompt = (\<lambda>(w, c).
     let n = wcalls w; w1 = w\<lparr>wcalls := n + 1\<rparr>; w2 = w\<lparr>wcalls := n + 2\<rparr> in
     (case attempt X F n prompt of
        Inr (res, data) \<Rightarrow> (Inr (res, data, n + 1), (w1, c))
      | Inl first_err \<Rightarrow>
          if \<not> invalid_answer first_err then (Inl first_err, (w1, c))
          else
            let again = retry_prompt F prompt (fb_error_text F (fb_complete F n prompt (fb_schema F)))
            in (case attempt X F (n + 1) again of
                  Inr (res, data) \<Rightarrow> (Inr (res, data, n + 2), (w2, c))
                | Inl second_err \<Rightarrow>
                    if invalid_answer second_err
                    then andthen (inc (LLM_CALL_TOTAL provider ''invalid'') 1 (w2, c))
                      (\<lambda>_ s. (Inl LLMValidationError, s))
                    else (Inl second_err, (w2, c)))))"

text \<open>The counters of a fresh answer.\<close>

definition count_answer ::
  "string \<Rightarrow> LLMResult \<Rightarrow> world \<times> registry \<Rightarrow> unit result \<times> (world \<times> registry)" where
  "count_answer provider res s =
     andthen (inc (LLM_CALL_TOTAL provider ''ok'') 1 s) (\<lambda>_ s.
     andthen (inc (LLM_TOKENS provider ''input'') (lr_tokens_in res) s) (\<lambda>_ s.
     inc (LLM_TOKENS provider ''output'') (lr_tokens_out res) s))"

definition classify_extract_counted ::
  "externals \<Rightarrow> fallback \<Rightarrow> string \<Rightarrow> string \<Rightarrow> string \<Rightarrow> json \<Rightarrow> world \<times> registry \<Rightarrow>
     LLMOutcome result \<times> (world \<times> registry)" where
  "classify_extract_counted X F provider eid vendor_hint payload s =
     (let key = extract_key X F payload vendor_hint; d = wdb (fst s) in
      case cache_get d key of
        Some row \<Rightarrow>
          let out = cached_outcome F row in
          andthen (inc (LLM_CALL_TOTAL provider ''hit_cache'') 1 s) (\<lambda>_ s.
          andthen (uncounted (on_db (audit eid out vendor_hint)) s) (\<lambda>_ s. (Inr out, s)))
      | None \<Rightarrow>
          if \<not> budget_allow F d vendor_hint (1 / 1000)
          then andthen (inc (LLM_CALL_TOTAL provider ''budget_exceeded'') 1 s) (\<lambda>_ s. (Inl BudgetExceeded, s))
          else
            andthen (ask_model_counted X F provider (render_prompt X F payload) s) (\<lambda>(res, data, n) s.
            andthen (count_answer provider res s) (\<lambda>_ s.
            let out = fresh_outcome F res data n in
            andthen (uncounted (on_db (cache_set key out)) s) (\<lambda>_ s.
            andthen (uncounted (on_db (audit eid out vendor_hint)) s) (\<lambda>_ s. (Inr out, s))))))"

definition classify_event_type_counted ::
  "externals \<Rightarrow> fallback \<Rightarrow> string \<Rightarrow> string \<Rightarrow> string \<Rightarrow> world \<times> registry \<Rightarrow>
     (json \<times> json \<times> rat) option result \<times> (world \<times> registry)" where
  "classify_event_type_counted X F provider vendor raw_event_type s =
     (let key = event_type_key X vendor raw_event_type; d = wdb (fst s); n = wcalls (fst s) in
      case cache_get d key of
        Some row \<Rightarrow>
          andthen (inc (LLM_CALL_TOTAL provider ''hit_cache'') 1 s) (\<lambda>_ s.
          (read_event_type X (lc_output row), s))
      | None \<Rightarrow>
          if \<not> budget_allow F d vendor (2 / 10000)
          then andthen (inc (LLM_CALL_TOTAL provider ''budget_exceeded'') 1 s) (\<lambda>_ s. (Inr None, s))
          else
            let s1 = ((fst s)\<lparr>wcalls := n + 1\<rparr>, snd s) in
            (case fb_complete F n (event_type_prompt F vendor raw_event_type) (JObj []) of
               Inl e \<Rightarrow> (Inr None, s1)
             | Inr res \<Rightarrow>
                 (case parse_json X (lr_text res) of
                    None \<Rightarrow> (Inr None, s1)
                  | Some data \<Rightarrow>
                      andthen (count_answer provider res s1) (\<lambda>_ s.
                      andthen (uncounted (on_db (cache_set key (event_type_outcome res data))) s) (\<lambda>_ s.
                      (read_event_type X (JObj data), s))))))"

definition normalize_llm_counted ::
  "externals \<Rightarrow> fallback \<Rightarrow> string \<Rightarrow> json \<Rightarrow> string \<Rightarrow> string \<Rightarrow> world \<times> registry \<Rightarrow>
     AdapterResult result \<times> (world \<times> registry)" where
  "normalize_llm_counted X F provider payload eid vendor_hint s =
     (case classify_extract_counted X F provider eid (str_or vendor_hint ''unknown'') payload s of
        (Inl BudgetExceeded, s') \<Rightarrow>
          (Inr (adapter_problem Deferred [''budget_exceeded''] [(''reason'', JStr ''llm_budget_exceeded'')]), s')
      | (Inl LLMValidationError, s') \<Rightarrow>
          (Inr (adapter_problem Unsupported []
             [(''reason'', JStr ''llm_invalid_after_retry''), (''error'', JStr (x_exn_text X LLMValidationError))]), s')
      | (Inl e, s') \<Rightarrow> (Inl e, s')
      | (Inr out, s') \<Rightarrow> (shape_outcome X eid out, s'))"

section \<open>The pipeline\<close>

definition count_verdict ::
  "string \<Rightarrow> string \<Rightarrow> string \<Rightarrow> process_outcome \<Rightarrow> world \<times> registry \<Rightarrow>
     process_outcome result \<times> (world \<times> registry)" where
  "count_verdict vendor cls name outcome s =
     andthen (inc (WORKER_PROCESS_TOTAL vendor cls name) 1 s) (\<lambda>_ s.
     andthen (inc WORKER_LATENCY 1 s) (\<lambda>_ s. (Inr outcome, s)))"

text \<open>\<open>apply_event\<close> increments its counter inside the transaction, after the handler and before the last
  UPDATE, which cannot fail.\<close>

definition finalize_counted ::
  "externals \<Rightarrow> string \<Rightarrow> string \<Rightarrow> CanonicalEvent \<Rightarrow> world \<times> registry \<Rightarrow>
     process_outcome result \<times> (world \<times> registry)" where
  "finalize_counted X eid vid canonical s =
     (case normalize (override_vendor vid canonical) of
        Inl e \<Rightarrow>
          if e = NormalizationError
          then andthen (uncounted (on_db (mark_review eid ''normalization_failed''
                  [(''error'', JStr (x_exn_text X e))])) s)
                (\<lambda>_. count_verdict (str_or vid ''unknown'') ''unknown'' ''review'' RequiresReview)
          else (Inl e, s)
      | Inr canonical' \<Rightarrow>
          let cls = classification_value (classification canonical') in
          (case apply_canonical eid canonical' (wdb (fst s)) of
             Inl e \<Rightarrow> (Inl e, s)
           | Inr (d, outcome) \<Rightarrow>
               andthen (inc (STATE_TRANSITION_TOTAL cls (outcome_value outcome)) 1
                   ((fst s)\<lparr>wdb := d\<rparr>, snd s))
                 (\<lambda>_. count_verdict (vendor_id canonical') cls (outcome_value outcome) (Applied outcome))))"

definition classify_and_persist_counted ::
  "externals \<Rightarrow> fallback \<Rightarrow> string \<Rightarrow> string \<Rightarrow> string \<Rightarrow> world \<times> registry \<Rightarrow>
     (string \<times> string) option result \<times> (world \<times> registry)" where
  "classify_and_persist_counted X F provider vid raw s =
     andthen (classify_event_type_counted X F provider vid raw s) (\<lambda>found s1.
     case found of
       None \<Rightarrow> (Inr None, s1)
     | Some (cls, state, conf) \<Rightarrow>
         (case (text_param cls, text_param state) of
            (Inr c, Inr st) \<Rightarrow>
              andthen (uncounted (on_db (\<lambda>d. persist_event_type d vid raw c st conf ''llm'')) s1)
                (\<lambda>_ s2. (Inr (Some (c, st)), s2))
          | _ \<Rightarrow> (Inl DataError, s1)))"

definition resolve_event_type_counted ::
  "externals \<Rightarrow> fallback \<Rightarrow> string \<Rightarrow> string \<Rightarrow> string \<Rightarrow> world \<times> registry \<Rightarrow>
     (string \<times> string) option result \<times> (world \<times> registry)" where
  "resolve_event_type_counted X F provider vid raw s =
     (case lookup_event_type (wdb (fst s)) vid raw of
        Some m \<Rightarrow> (Inr (Some m), s)
      | None \<Rightarrow> classify_and_persist_counted X F provider vid raw s)"

definition process_via_schema_counted ::
  "externals \<Rightarrow> fallback \<Rightarrow> string \<Rightarrow> string \<Rightarrow> string \<Rightarrow> json \<Rightarrow> SchemaMatch \<Rightarrow> world \<times> registry \<Rightarrow>
     CanonicalEvent option result \<times> (world \<times> registry)" where
  "process_via_schema_counted X F provider eid vid payload m s =
     (let doc = sm_schema_doc m;
          success = (\<lambda>s. andthen (uncounted (on_db (increment_success (sm_schema_id m))) s)) in
      andthen (uncounted (lift_result (extract_event X payload eid vid doc None None)) s) (\<lambda>first s.
      if jget doc ''classification'' = JStr ''unclassified'' \<and> ex_success first then
        success s (\<lambda>_ s. (Inr (ex_canonical_event first), s))
      else
        (case ex_raw_event_type first of
           None \<Rightarrow> (Inr None, s)
         | Some raw \<Rightarrow>
             if raw = [] then (Inr None, s)
             else
               andthen (resolve_event_type_counted X F provider vid raw s) (\<lambda>mapping s.
               case mapping of
                 None \<Rightarrow> (Inr None, s)
               | Some (cls, state) \<Rightarrow>
                   andthen (uncounted (lift_result (extract_event X payload eid vid doc (Some state) (Some cls))) s)
                     (\<lambda>second s.
                   if \<not> ex_success second then (Inr None, s)
                   else success s (\<lambda>_ s. (Inr (ex_canonical_event second), s)))))))"

definition process_via_llm_counted ::
  "externals \<Rightarrow> fallback \<Rightarrow> string \<Rightarrow> string \<Rightarrow> string \<Rightarrow> json \<Rightarrow> world \<times> registry \<Rightarrow>
     process_outcome result \<times> (world \<times> registry)" where
  "process_via_llm_counted X F provider eid vid payload s =
     andthen (normalize_llm_counted X F provider payload eid vid s) (\<lambda>r s1.
     case (ar_status r, ar_canonical_event r) of
       (Ok, Some canonical) \<Rightarrow>
         finalize_counted X eid vid canonical (discover_after X eid vid payload r (fst s1), snd s1)
     | (Deferred, _) \<Rightarrow>
         count_verdict (str_or vid ''unknown'') ''unknown'' ''pending_llm'' PendingLLM
           ((fst s1)\<lparr>wdb := mark_pending_llm eid (reason_of ''llm_deferred'' (ar_detail r)) (wdb (fst s1))\<rparr>, snd s1)
     | _ \<Rightarrow>
         andthen (uncounted (on_db (mark_review eid (reason_of ''unsupported'' (ar_detail r)) (ar_detail r))) s1)
           (\<lambda>_. count_verdict (str_or vid ''unknown'') ''unknown'' ''review'' RequiresReview))"

definition process_known_counted ::
  "externals \<Rightarrow> fallback \<Rightarrow> string \<Rightarrow> string \<Rightarrow> string \<Rightarrow> json \<Rightarrow> world \<times> registry \<Rightarrow>
     process_outcome result \<times> (world \<times> registry)" where
  "process_known_counted X F provider eid vid payload s =
     (case lookup_schema X (wdb (fst s)) vid payload of
        None \<Rightarrow> process_via_llm_counted X F provider eid vid payload s
      | Some m \<Rightarrow>
          andthen (process_via_schema_counted X F provider eid vid payload m s) (\<lambda>r s.
          case r of
            Some canonical \<Rightarrow> finalize_counted X eid vid canonical s
          | None \<Rightarrow>
              andthen (uncounted (on_db (increment_failure (sm_schema_id m))) s) (\<lambda>_ s.
              process_via_llm_counted X F provider eid vid payload s)))"

definition process_event_counted ::
  "externals \<Rightarrow> fallback \<Rightarrow> string \<Rightarrow> string \<Rightarrow> world \<times> registry \<Rightarrow> process_outcome result \<times> (world \<times> registry)" where
  "process_event_counted X F provider eid s =
     (case tbl_get (raw_events (wdb (fst s))) eid of
        None \<Rightarrow>
          andthen (inc (WORKER_PROCESS_TOTAL ''unknown'' ''missing'' ''not_found'') 1 s) (\<lambda>_ s. (Inr NotFound, s))
      | Some row \<Rightarrow>
          andthen (uncounted (lift_result (event_vendor X row)) s) (\<lambda>vid s.
          process_known_counted X F provider eid vid (rw_payload row) s))"

definition process_webhook_counted ::
  "externals \<Rightarrow> fallback \<Rightarrow> string \<Rightarrow> string \<Rightarrow> world \<times> registry \<Rightarrow> process_outcome result \<times> (world \<times> registry)" where
  "process_webhook_counted X F provider eid s =
     (case process_event_counted X F provider eid s of
        (Inr outcome, s') \<Rightarrow> (Inr outcome, s')
      | (Inl e, s') \<Rightarrow> (Inl e, ((fst s')\<lparr>wdb := mark_failed eid (x_exn_text X e) (wdb (fst s'))\<rparr>, snd s')))"

section \<open>Counting beside the work\<close>

text \<open>
  \<open>m\<close> is a step with counters that started from the registry \<open>c\<close>, \<open>m'\<close> the same step without: they do the
  same, and \<open>acc\<close> relates what was done to the increments made.  \<open>acc\<close> adds up along a run.
\<close>

locale collection =
  fixes acc :: "'s \<Rightarrow> 's \<Rightarrow> registry \<Rightarrow> bool"
  assumes acc_none: "acc w w []"
    and acc_append: "acc w v bs \<Longrightarrow> acc v u bs' \<Longrightarrow> acc w u (bs @ bs')"
begin

definition collects :: "'s \<Rightarrow> registry \<Rightarrow> 'a result \<times> ('s \<times> registry) \<Rightarrow> 'a result \<times> 's \<Rightarrow> bool" where
  "collects w c m m' \<longleftrightarrow> (\<exists>bs. m = (fst m', (snd m', c @ bs)) \<and> acc w (snd m') bs)"

lemma collectsI: "acc w v bs \<Longrightarrow> collects w c (r, (v, c @ bs)) (r, v)"
  by (auto simp: collects_def)

lemma collects_same: "collects w c (r, (w, c)) (r, w)"
  using collectsI [OF acc_none, of w c r] by simp

lemma collects_andthen:
  assumes "collects w c m m'" "\<And>x v d. m' = (Inr x, v) \<Longrightarrow> collects v d (k x (v, d)) (h x v)"
  shows "collects w c (andthen m k) (andthen m' h)"
proof -
  obtain bs where bs: "m = (fst m', (snd m', c @ bs))" "acc w (snd m') bs"
    using assms(1) by (auto simp: collects_def)
  show ?thesis
  proof (cases m')
    case (Pair r v)
    show ?thesis
    proof (cases r)
      case (Inl e)
      then show ?thesis using bs Pair by (auto simp: collects_def)
    next
      case (Inr x)
      from assms(2) [of x v "c @ bs"] Inr Pair
      obtain bs' where "k x (v, c @ bs) = (fst (h x v), (snd (h x v), (c @ bs) @ bs'))" "acc v (snd (h x v)) bs'"
        by (auto simp: collects_def)
      with bs Pair Inr acc_append show ?thesis by (auto simp: collects_def intro!: exI [of _ "bs @ bs'"])
    qed
  qed
qed

text \<open>An increment, or a step of the state, has no counterpart on the other side.\<close>

lemma collects_inc:
  assumes "0 \<le> n" "acc w w [(m, n)]" "\<And>d. collects w d (k () (w, d)) m'"
  shows "collects w c (andthen (inc m n (w, c)) k) m'"
proof -
  obtain bs where "k () (w, c @ [(m, n)]) = (fst m', (snd m', (c @ [(m, n)]) @ bs))" "acc w (snd m') bs"
    using assms(3) [of "c @ [(m, n)]"] by (auto simp: collects_def)
  with assms(1) acc_append [OF assms(2)] show ?thesis
    by (auto simp: collects_def inc_def intro!: exI [of _ "(m, n) # bs"])
qed

lemma collects_uncounted:
  assumes "acc w (snd (f w)) []"
  shows "collects w c (uncounted f (w, c)) (f w)"
  using assms by (auto simp: collects_def uncounted_def split: prod.splits)

lemma collects_from:
  assumes "acc w v []" "collects v c m m'"
  shows "collects w c m m'"
  using assms acc_append [OF assms(1)] by (fastforce simp: collects_def)

lemma collects_run: "collects w c m m' \<Longrightarrow> fst m = fst m' \<and> fst (snd m) = snd m'"
  by (auto simp: collects_def)

end
section \<open>The account of the model calls\<close>

definition counts_up :: "fallback \<Rightarrow> bool" where
  "counts_up F \<longleftrightarrow> (\<forall>n prompt schema res. fb_complete F n prompt schema = Inr res \<longrightarrow>
     0 \<le> lr_tokens_in res \<and> 0 \<le> lr_tokens_out res)"

definition audited :: "(audit_row \<Rightarrow> int) \<Rightarrow> world \<Rightarrow> int" where
  "audited f w = sum_list (map f (filter (\<lambda>a. la_source a = ''llm'') (llm_audit (wdb w))))"

definition verdict_metric :: "metric \<Rightarrow> bool" where
  "verdict_metric m = (case m of
     WORKER_PROCESS_TOTAL _ _ _ \<Rightarrow> True | WORKER_LATENCY \<Rightarrow> True | STATE_TRANSITION_TOTAL _ _ \<Rightarrow> True
   | INGEST_TOTAL _ \<Rightarrow> True | INGEST_LATENCY \<Rightarrow> True | _ \<Rightarrow> False)"

abbreviation counter :: "metric \<Rightarrow> registry \<Rightarrow> int" where
  "counter m \<equiv> counted_total (\<lambda>k. k = m)"

text \<open>The increments cover the tokens audited on the way; every answer counted as good was asked for, and
  every one counted as invalid was asked for twice.\<close>

definition llm_sums :: "string \<Rightarrow> world \<Rightarrow> world \<Rightarrow> registry \<Rightarrow> bool" where
  "llm_sums provider w v bs \<longleftrightarrow>
     audited la_tokens_in v \<le> audited la_tokens_in w + counter (LLM_TOKENS provider ''input'') bs \<and>
     audited la_tokens_out v \<le> audited la_tokens_out w + counter (LLM_TOKENS provider ''output'') bs \<and>
     int (wcalls w) + counter (LLM_CALL_TOTAL provider ''ok'') bs +
       2 * counter (LLM_CALL_TOTAL provider ''invalid'') bs \<le> int (wcalls v)"

definition llm_account :: "string \<Rightarrow> world \<Rightarrow> world \<Rightarrow> registry \<Rightarrow> bool" where
  "llm_account provider w v bs \<longleftrightarrow> filter (verdict_metric \<circ> fst) bs = [] \<and> llm_sums provider w v bs"

lemma counted_total_simps [simp]:
  "counted_total p [] = 0"
  "counted_total p ((m, n) # bs) = (if p m then n else 0) + counted_total p bs"
  "counted_total p (bs @ bs') = counted_total p bs + counted_total p bs'"
  by (simp_all add: counted_total_def)

interpretation llm: collection "llm_account provider" for provider
  by unfold_locales (auto simp: llm_account_def llm_sums_def)

lemma llm_account_plain:
  "llm_audit (wdb v) = llm_audit (wdb w) \<Longrightarrow> wcalls w \<le> wcalls v \<Longrightarrow> llm_account provider w v []"
  by (simp add: llm_account_def llm_sums_def audited_def)

lemma llm_account_call:
  "llm_audit (wdb v) = llm_audit (wdb w) \<Longrightarrow> wcalls v = wcalls w \<Longrightarrow> outcome \<notin> {''ok'', ''invalid''} \<Longrightarrow>
     llm_account provider w v [(LLM_CALL_TOTAL provider outcome, 1)]"
  by (simp add: llm_account_def llm_sums_def audited_def verdict_metric_def)

lemma ask_model_counts:
  obtains bs where "ask_model_counted X F provider prompt (w, c) =
      (let (r, n) = ask_model X F prompt (wcalls w)
       in (map_sum id (\<lambda>(res, data). (res, data, n)) r, (w\<lparr>wcalls := n\<rparr>, c @ bs)))"
    "wcalls w < snd (ask_model X F prompt (wcalls w))"
    "bs = [] \<or> bs = [(LLM_CALL_TOTAL provider ''invalid'', 1)] \<and>
       ask_model X F prompt (wcalls w) = (Inl LLMValidationError, wcalls w + 2)"
proof -
  have "\<exists>bs. ask_model_counted X F provider prompt (w, c) =
      (let (r, n) = ask_model X F prompt (wcalls w)
       in (map_sum id (\<lambda>(res, data). (res, data, n)) r, (w\<lparr>wcalls := n\<rparr>, c @ bs))) \<and>
    wcalls w < snd (ask_model X F prompt (wcalls w)) \<and>
    (bs = [] \<or> bs = [(LLM_CALL_TOTAL provider ''invalid'', 1)] \<and>
       ask_model X F prompt (wcalls w) = (Inl LLMValidationError, wcalls w + 2))"
    by (auto simp: ask_model_counted_def ask_model_def inc_def Let_def split: sum.splits)
  then show thesis using that by blast
qed

lemma ask_answer:
  "ask_model X F prompt n = (Inr (res, data), n') \<Longrightarrow> \<exists>k q. fb_complete F k q (fb_schema F) = Inr res"
  by (auto simp: ask_model_def attempt_def bindE_eq_Inr Let_def split: sum.splits if_splits)

lemma count_answer_up:
  assumes "0 \<le> lr_tokens_in res" "0 \<le> lr_tokens_out res"
  shows "count_answer provider res (w, c) = (Inr (), (w, c @ [(LLM_CALL_TOTAL provider ''ok'', 1),
    (LLM_TOKENS provider ''input'', lr_tokens_in res), (LLM_TOKENS provider ''output'', lr_tokens_out res)]))"
  using assms by (simp add: count_answer_def inc_def)

lemma audit_tokens:
  assumes "audit eid out decision d = Inr d'"
  obtains a where "llm_audit d' = llm_audit d @ [a]" "la_source a = lo_source out"
    "la_tokens_in a = lo_tokens_in out" "la_tokens_out a = lo_tokens_out out"
  using assms by (auto simp: audit_def bindE_eq_Inr int4_param_Inr split: if_splits)

lemma cached_extract_counts:
  assumes "cache_get (wdb w) (extract_key X F payload hint) = Some row"
  shows "llm.collects provider w c (classify_extract_counted X F provider eid hint payload (w, c))
    (classify_extract X F eid hint payload w)"
proof (cases "audit eid (cached_outcome F row) hint (wdb w)")
  case (Inl e)
  then show ?thesis
    using assms llm_account_call [of w w "''hit_cache''" provider]
    by (auto simp: classify_extract_counted_def classify_extract_def inc_def uncounted_def on_db_def llm.collects_def)
next
  case (Inr d)
  then obtain a where "llm_audit d = llm_audit (wdb w) @ [a]" "la_source a = ''llm_cache''"
    by (rule audit_tokens) (simp add: cached_outcome_def)
  then have "llm_account provider w (w\<lparr>wdb := d\<rparr>) [(LLM_CALL_TOTAL provider ''hit_cache'', 1)]"
    by (simp add: llm_account_def llm_sums_def audited_def verdict_metric_def)
  then show ?thesis
    using assms Inr
    by (auto simp: classify_extract_counted_def classify_extract_def inc_def uncounted_def on_db_def llm.collects_def)
qed

text \<open>A fresh answer is counted before it is stored and audited.\<close>

lemma llm_account_answer:
  assumes "0 \<le> lr_tokens_in res" "0 \<le> lr_tokens_out res" "wcalls w < wcalls v"
    and "audited la_tokens_in v \<le> audited la_tokens_in w + lr_tokens_in res"
    and "audited la_tokens_out v \<le> audited la_tokens_out w + lr_tokens_out res"
  shows "llm_account provider w v [(LLM_CALL_TOTAL provider ''ok'', 1),
    (LLM_TOKENS provider ''input'', lr_tokens_in res), (LLM_TOKENS provider ''output'', lr_tokens_out res)]"
  using assms by (simp add: llm_account_def llm_sums_def verdict_metric_def)

lemma store_answer_counts:
  assumes "0 \<le> lr_tokens_in res" "0 \<le> lr_tokens_out res" "wcalls w < n"
  shows "llm.collects provider w c
    (andthen (count_answer provider res (w\<lparr>wcalls := n\<rparr>, c)) (\<lambda>_ s.
       let out = fresh_outcome F res data n in
       andthen (uncounted (on_db (cache_set key out)) s) (\<lambda>_ s.
       andthen (uncounted (on_db (audit eid out hint)) s) (\<lambda>_ s. (Inr out, s)))))
    (let out = fresh_outcome F res data n; w1 = w\<lparr>wcalls := n\<rparr> in
     case cache_set key out (wdb w) of
       Inl e \<Rightarrow> (Inl e, w1)
     | Inr d1 \<Rightarrow> (case audit eid out hint d1 of
           Inl e \<Rightarrow> (Inl e, w1\<lparr>wdb := d1\<rparr>) | Inr d2 \<Rightarrow> (Inr out, w1\<lparr>wdb := d2\<rparr>)))"
proof -
  let ?out = "fresh_outcome F res data n"
  note acc = llm_account_answer [OF assms(1,2), of w _ provider]
  note simps = uncounted_def on_db_def llm.collects_def Let_def count_answer_up [OF assms(1,2)]
  show ?thesis
  proof (cases "cache_set key ?out (wdb w)")
    case (Inl e)
    then show ?thesis using acc [of "w\<lparr>wcalls := n\<rparr>"] assms by (simp add: simps audited_def)
  next
    case set: (Inr d1)
    then have same: "llm_audit d1 = llm_audit (wdb w)" by (auto elim: cache_set_cases)
    show ?thesis
    proof (cases "audit eid ?out hint d1")
      case (Inl e)
      then show ?thesis
        using acc [of "w\<lparr>wcalls := n, wdb := d1\<rparr>"] assms set same by (simp add: simps audited_def)
    next
      case (Inr d2)
      then obtain a where "llm_audit d2 = llm_audit d1 @ [a]" "la_source a = ''llm''"
          "la_tokens_in a = lr_tokens_in res" "la_tokens_out a = lr_tokens_out res"
        by (rule audit_tokens) (simp add: fresh_outcome_def)
      then show ?thesis
        using acc [of "w\<lparr>wcalls := n, wdb := d2\<rparr>"] assms set same Inr by (simp add: simps audited_def)
    qed
  qed
qed

lemma asked_extract_counts:
  assumes "counts_up F" "cache_get (wdb w) (extract_key X F payload hint) = None"
    and "budget_allow F (wdb w) hint (1 / 1000)"
  shows "llm.collects provider w c (classify_extract_counted X F provider eid hint payload (w, c))
    (classify_extract X F eid hint payload w)"
proof -
  let ?p = "render_prompt X F payload"
  obtain bs where bs: "ask_model_counted X F provider ?p (w, c) =
    (let (r, n) = ask_model X F ?p (wcalls w)
     in (map_sum id (\<lambda>(res, data). (res, data, n)) r, (w\<lparr>wcalls := n\<rparr>, c @ bs)))"
    "wcalls w < snd (ask_model X F ?p (wcalls w))"
    "bs = [] \<or> bs = [(LLM_CALL_TOTAL provider ''invalid'', 1)] \<and>
       ask_model X F ?p (wcalls w) = (Inl LLMValidationError, wcalls w + 2)"
    by (rule ask_model_counts)
  obtain r n where ask: "ask_model X F ?p (wcalls w) = (r, n)" by fastforce
  show ?thesis
  proof (cases r)
    case (Inl e)
    have "llm_account provider w (w\<lparr>wcalls := n\<rparr>) bs"
      using bs(2,3) ask by (auto simp: llm_account_def llm_sums_def audited_def verdict_metric_def)
    with assms(2,3) bs(1) ask Inl show ?thesis
      by (auto simp: classify_extract_counted_def classify_extract_def llm.collects_def)
  next
    case (Inr p)
    obtain res data where p: "p = (res, data)" by fastforce
    have "0 \<le> lr_tokens_in res" "0 \<le> lr_tokens_out res"
      using ask_answer [of X F ?p "wcalls w" res data n] ask Inr p assms(1) by (auto simp: counts_up_def)
    from store_answer_counts [OF this, of w n] show ?thesis
      using assms(2,3) bs ask Inr p by (auto simp: classify_extract_counted_def classify_extract_def Let_def)
  qed
qed

lemma classify_extract_counts:
  assumes "counts_up F"
  shows "llm.collects provider w c (classify_extract_counted X F provider eid hint payload (w, c))
    (classify_extract X F eid hint payload w)"
proof (cases "cache_get (wdb w) (extract_key X F payload hint)")
  case (Some row)
  then show ?thesis by (rule cached_extract_counts)
next
  case None
  show ?thesis
  proof (cases "budget_allow F (wdb w) hint (1 / 1000)")
    case False
    then show ?thesis
      using None llm_account_call [of w w "''budget_exceeded''" provider]
      by (auto simp: classify_extract_counted_def classify_extract_def inc_def llm.collects_def)
  qed (rule asked_extract_counts [OF assms None])
qed

lemma classify_event_type_counts:
  assumes "counts_up F"
  shows "llm.collects provider w c (classify_event_type_counted X F provider vendor raw (w, c))
    (classify_event_type X F vendor raw w)"
proof (cases "cache_get (wdb w) (event_type_key X vendor raw)")
  case (Some row)
  then show ?thesis
    using llm_account_call [of w w "''hit_cache''" provider]
    by (auto simp: classify_event_type_counted_def classify_event_type_def inc_def llm.collects_def)
next
  case miss: None
  let ?w = "w\<lparr>wcalls := wcalls w + 1\<rparr>"
  note defs = classify_event_type_counted_def classify_event_type_def Let_def
  have called: "llm_account provider w ?w []" by (rule llm_account_plain) simp_all
  show ?thesis
  proof (cases "budget_allow F (wdb w) vendor (2 / 10000)")
    case False
    then show ?thesis
      using miss llm_account_call [of w w "''budget_exceeded''" provider]
      by (auto simp: defs inc_def llm.collects_def)
  next
    case True
    show ?thesis
    proof (cases "fb_complete F (wcalls w) (event_type_prompt F vendor raw) (JObj [])")
      case (Inl e)
      with miss True called show ?thesis by (auto simp: defs llm.collects_def)
    next
      case answer: (Inr res)
      have up: "0 \<le> lr_tokens_in res" "0 \<le> lr_tokens_out res" using answer assms by (auto simp: counts_up_def)
      show ?thesis
      proof (cases "parse_json X (lr_text res)")
        case None
        with miss True answer called show ?thesis by (auto simp: defs llm.collects_def)
      next
        case (Some data)
        have acc: "llm_account provider w v [(LLM_CALL_TOTAL provider ''ok'', 1),
            (LLM_TOKENS provider ''input'', lr_tokens_in res), (LLM_TOKENS provider ''output'', lr_tokens_out res)]"
          if "wcalls v = wcalls w + 1" "llm_audit (wdb v) = llm_audit (wdb w)" for v
          using that up by (intro llm_account_answer) (simp_all add: audited_def)
        show ?thesis
        proof (cases "cache_set (event_type_key X vendor raw) (event_type_outcome res data) (wdb w)")
          case (Inl e)
          with miss True answer Some acc [of ?w] count_answer_up [OF up] show ?thesis
            by (simp add: defs llm.collects_def uncounted_def on_db_def)
        next
          case (Inr d)
          then have "llm_audit d = llm_audit (wdb w)" by (auto elim: cache_set_cases)
          with miss True answer Some Inr acc [of "?w\<lparr>wdb := d\<rparr>"] count_answer_up [OF up] show ?thesis
            by (simp add: defs llm.collects_def uncounted_def on_db_def)
        qed
      qed
    qed
  qed
qed

lemma normalize_llm_counts:
  assumes "counts_up F"
  shows "llm.collects provider w c (normalize_llm_counted X F provider payload eid hint (w, c))
    (normalize_llm X F payload eid hint w)"
proof -
  let ?h = "str_or hint ''unknown''"
  obtain r v where m: "classify_extract X F eid ?h payload w = (r, v)" by fastforce
  with classify_extract_counts [OF assms, of provider w c X eid ?h payload] obtain bs where
    bs: "classify_extract_counted X F provider eid ?h payload (w, c) = (r, (v, c @ bs))" "llm_account provider w v bs"
    by (auto simp: llm.collects_def)
  show ?thesis
  proof (cases r)
    case (Inl e)
    with m bs show ?thesis
      by (cases e) (simp_all add: normalize_llm_counted_def normalize_llm_def llm.collectsI)
  next
    case (Inr out)
    with m bs show ?thesis by (simp add: normalize_llm_counted_def normalize_llm_def llm.collectsI)
  qed
qed

lemma on_db_counts:
  assumes "\<And>d. stmt (wdb w) = Inr d \<Longrightarrow> llm_audit d = llm_audit (wdb w)"
  shows "llm.collects provider w c (uncounted (on_db stmt) (w, c)) (on_db stmt w)"
  using assms by (intro llm.collects_uncounted llm_account_plain) (auto simp: on_db_def split: sum.splits)

lemma lift_counts: "llm.collects provider w c (uncounted (lift_result r) (w, c)) (lift_result r w)"
  by (rule llm.collects_uncounted) (simp add: lift_result_def llm.acc_none)

lemma classify_and_persist_counts:
  assumes "counts_up F"
  shows "llm.collects provider w c (classify_and_persist_counted X F provider vid raw (w, c))
    (classify_and_persist X F vid raw w)"
  unfolding classify_and_persist_counted_def classify_and_persist_def
proof (rule llm.collects_andthen [OF classify_event_type_counts [OF assms]], goal_cases)
  case (1 found v d)
  show ?case
  proof (cases found)
    case (Some p)
    obtain cls state conf where p: "p = (cls, state, conf)" by (cases p)
    have "llm.collects provider v d
        (andthen (uncounted (on_db (\<lambda>d. persist_event_type d vid raw a b conf ''llm'')) (v, d)) (\<lambda>_ s. (Inr (Some (a, b)), s)))
        (andthen (on_db (\<lambda>d. persist_event_type d vid raw a b conf ''llm'') v) (\<lambda>_ w. (Inr (Some (a, b)), w)))" for a b
      using persist_plain by (intro llm.collects_andthen on_db_counts llm.collects_same) (auto simp: plain_def)
    with Some p show ?thesis by (auto simp: llm.collects_same split: sum.split)
  qed (simp add: llm.collects_same)
qed

lemma resolve_event_type_counts:
  assumes "counts_up F"
  shows "llm.collects provider w c (resolve_event_type_counted X F provider vid raw (w, c))
    (resolve_event_type X F vid raw w)"
  using classify_and_persist_counts [OF assms]
  by (simp add: resolve_event_type_counted_def resolve_event_type_def llm.collects_same split: option.split)

lemma success_counts:
  "llm.collects provider w c (andthen (uncounted (on_db (increment_success i)) (w, c)) (\<lambda>_ s. (r, s)))
    (andthen (on_db (increment_success i) w) (\<lambda>_ w. (r, w)))"
  using increment_plain(1) by (intro llm.collects_andthen on_db_counts llm.collects_same) (auto simp: plain_def)

lemma process_via_schema_counts:
  assumes "counts_up F"
  shows "llm.collects provider w c (process_via_schema_counted X F provider eid vid payload m (w, c))
    (process_via_schema X F eid vid payload m w)"
  unfolding process_via_schema_counted_def process_via_schema_def Let_def
proof (rule llm.collects_andthen [OF lift_counts], goal_cases)
  case (1 first v d)
  show ?case
  proof (cases "jget (sm_schema_doc m) ''classification'' = JStr ''unclassified'' \<and> ex_success first")
    case False
    have second: "llm.collects provider u e
        (andthen (uncounted (lift_result r) (u, e)) (\<lambda>x s. if \<not> ex_success x then (Inr None, s)
           else andthen (uncounted (on_db (increment_success i)) s) (\<lambda>_ s. (Inr (ex_canonical_event x), s))))
        (andthen (lift_result r u) (\<lambda>x w. if \<not> ex_success x then (Inr None, w)
           else andthen (on_db (increment_success i) w) (\<lambda>_ w. (Inr (ex_canonical_event x), w))))" for u e r i
      by (rule llm.collects_andthen [OF lift_counts]) (simp add: llm.collects_same success_counts)
    show ?thesis
      unfolding if_not_P [OF False]
      by (auto simp: llm.collects_same split: option.split
          intro!: llm.collects_andthen [OF resolve_event_type_counts [OF assms]] second)
  qed (simp add: success_counts)
qed

section \<open>Every verdict is counted once\<close>

definition verdict_value :: "process_outcome \<Rightarrow> string" where
  "verdict_value out = (case out of NotFound \<Rightarrow> ''not_found'' | RequiresReview \<Rightarrow> ''review''
     | PendingLLM \<Rightarrow> ''pending_llm'' | Applied a \<Rightarrow> outcome_value a)"

text \<open>What a job that ends with a result increments, besides the counters of the model calls.\<close>

fun verdict_counted :: "process_outcome result \<Rightarrow> registry \<Rightarrow> bool" where
  "verdict_counted (Inl e) bs \<longleftrightarrow> bs = []"
| "verdict_counted (Inr NotFound) bs \<longleftrightarrow> bs = [(WORKER_PROCESS_TOTAL ''unknown'' ''missing'' ''not_found'', 1)]"
| "verdict_counted (Inr (Applied a)) bs \<longleftrightarrow> (\<exists>vendor cls.
     bs = [(STATE_TRANSITION_TOTAL cls (outcome_value a), 1),
           (WORKER_PROCESS_TOTAL vendor cls (outcome_value a), 1), (WORKER_LATENCY, 1)])"
| "verdict_counted (Inr out) bs \<longleftrightarrow> (\<exists>vendor.
     bs = [(WORKER_PROCESS_TOTAL vendor ''unknown'' (verdict_value out), 1), (WORKER_LATENCY, 1)])"

definition job_counts ::
  "string \<Rightarrow> world \<Rightarrow> registry \<Rightarrow> process_outcome result \<times> (world \<times> registry) \<Rightarrow> process_outcome result \<times> world \<Rightarrow> bool"
where
  "job_counts provider w c m m' \<longleftrightarrow> (\<exists>bs. m = (fst m', (snd m', c @ bs)) \<and> llm_sums provider w (snd m') bs \<and>
     verdict_counted (fst m') (filter (verdict_metric \<circ> fst) bs))"

lemma llm_sums_append: "llm_sums provider w v bs \<Longrightarrow> llm_sums provider v u bs' \<Longrightarrow> llm_sums provider w u (bs @ bs')"
  by (auto simp: llm_sums_def)

lemma job_counts_andthen:
  assumes "llm.collects provider w c m m'" "\<And>x v d. m' = (Inr x, v) \<Longrightarrow> job_counts provider v d (k x (v, d)) (h x v)"
  shows "job_counts provider w c (andthen m k) (andthen m' h)"
proof -
  obtain r v where m': "m' = (r, v)" by fastforce
  obtain bs where bs: "m = (r, (v, c @ bs))" "llm_account provider w v bs"
    using assms(1) m' by (auto simp: llm.collects_def)
  show ?thesis
  proof (cases r)
    case (Inl e)
    with bs m' show ?thesis by (auto simp: job_counts_def llm_account_def)
  next
    case (Inr x)
    from assms(2) [of x v "c @ bs"] m' Inr
    obtain bs' where "k x (v, c @ bs) = (fst (h x v), (snd (h x v), c @ bs @ bs'))" "llm_sums provider v (snd (h x v)) bs'"
      "verdict_counted (fst (h x v)) (filter (verdict_metric \<circ> fst) bs')"
      by (auto simp: job_counts_def)
    with bs m' Inr llm_sums_append show ?thesis by (auto simp: job_counts_def llm_account_def intro!: exI [of _ "bs @ bs'"])
  qed
qed

lemma job_counts_from:
  assumes "llm_audit (wdb v) = llm_audit (wdb w)" "wcalls v = wcalls w" "job_counts provider v c m m'"
  shows "job_counts provider w c m m'"
  using assms by (simp add: job_counts_def llm_sums_def audited_def)

lemma job_counts_raise: "job_counts provider w c (Inl e, (w, c)) (Inl e, w)"
  by (simp add: job_counts_def llm_sums_def)

lemma job_counts_verdict:
  assumes "out = RequiresReview \<or> out = PendingLLM" "name = verdict_value out"
  shows "job_counts provider w c (count_verdict vendor ''unknown'' name out (w, c)) (Inr out, w)"
proof -
  let ?bs = "[(WORKER_PROCESS_TOTAL vendor ''unknown'' name, 1 :: int), (WORKER_LATENCY, 1)]"
  have "count_verdict vendor ''unknown'' name out (w, c) = (Inr out, (w, c @ ?bs))"
    by (simp add: count_verdict_def inc_def)
  with assms show ?thesis
    by (auto simp: job_counts_def llm_sums_def verdict_metric_def intro!: exI [of _ ?bs])
qed

lemma mark_review_audit: "mark_review eid reason detail d = Inr d' \<Longrightarrow> llm_audit d' = llm_audit d"
  by (auto simp: mark_review_def mark_status_frame split: if_splits)

lemma review_counts:
  "job_counts provider w c
    (andthen (uncounted (on_db (mark_review eid reason detail)) (w, c))
      (\<lambda>_. count_verdict vendor ''unknown'' ''review'' RequiresReview))
    (andthen (on_db (mark_review eid reason detail) w) (\<lambda>_ w. (Inr RequiresReview, w)))"
  by (rule job_counts_andthen [OF on_db_counts])
    (auto simp: verdict_value_def intro: job_counts_verdict mark_review_audit)

lemma apply_canonical_audit:
  assumes "apply_canonical eid ev d = Inr (d', out)"
  shows "llm_audit d' = llm_audit d"
proof (rule apply_canonical_cases [OF assms])
  fix d1 d2
  assume u: "upsert_canonical_event ev d = Inr d1" and a: "apply_event d1 ev = Inr (d2, out)"
    and d': "d' = set_raw eid (\<lambda>r. r\<lparr>rw_vendor_id := coalesce (rw_vendor_id r) (Some (vendor_id ev)),
            rw_status := Processed, rw_error := None, rw_processed_at := Some (clock d)\<rparr>) d2"
  from u obtain t where "d1 = d\<lparr>canonical_events := t\<rparr>" by (auto elim!: upsert_canonical_cases)
  with apply_event_rest [OF a] show "llm_audit d' = llm_audit d" by (simp add: d' rest_of_def set_raw_def)
qed

lemma finalize_counts:
  "job_counts provider w c (finalize_counted X eid vid canonical (w, c)) (finalize X eid vid canonical w)"
proof (cases "normalize (override_vendor vid canonical)")
  case (Inl e)
  then show ?thesis
    by (simp add: finalize_counted_def finalize_def review_counts job_counts_raise)
next
  case norm: (Inr ev)
  show ?thesis
  proof (cases "apply_canonical eid ev (wdb w)")
    case (Inl e)
    with norm show ?thesis by (simp add: finalize_counted_def finalize_def Let_def job_counts_raise)
  next
    case (Inr p)
    obtain d out where p: "p = (d, out)" by fastforce
    let ?cls = "classification_value (classification ev)" and ?name = "outcome_value out"
    let ?bs = "[(STATE_TRANSITION_TOTAL ?cls ?name, 1 :: int), (WORKER_PROCESS_TOTAL (vendor_id ev) ?cls ?name, 1),
      (WORKER_LATENCY, 1)]"
    have "finalize_counted X eid vid canonical (w, c) = (Inr (Applied out), (w\<lparr>wdb := d\<rparr>, c @ ?bs))"
      using norm Inr p by (simp add: finalize_counted_def Let_def count_verdict_def inc_def)
    moreover have "finalize X eid vid canonical w = (Inr (Applied out), w\<lparr>wdb := d\<rparr>)"
      using norm Inr p by (simp add: finalize_def)
    ultimately show ?thesis
      using apply_canonical_audit [of eid ev "wdb w" d out] Inr p
      by (auto simp: job_counts_def llm_sums_def audited_def verdict_metric_def intro!: exI [of _ ?bs])
  qed
qed

lemma discover_after_audit:
  "llm_audit (wdb (discover_after X eid vid payload r w)) = llm_audit (wdb w) \<and>
     wcalls (discover_after X eid vid payload r w) = wcalls w"
  using discover_frame
  by (auto simp: discover_after_def split: json.splits) (metis prod.collapse)+

lemma process_via_llm_counts:
  assumes "counts_up F"
  shows "job_counts provider w c (process_via_llm_counted X F provider eid vid payload (w, c))
    (process_via_llm X F eid vid payload w)"
  unfolding process_via_llm_counted_def process_via_llm_def
proof (rule job_counts_andthen [OF normalize_llm_counts [OF assms]], goal_cases)
  case (1 r v d)
  have applied: "job_counts provider v d
      (finalize_counted X eid vid canonical (discover_after X eid vid payload r v, d))
      (finalize X eid vid canonical (discover_after X eid vid payload r v))" for canonical
    using discover_after_audit by (intro job_counts_from [OF _ _ finalize_counts]) auto
  let ?v = "v\<lparr>wdb := mark_pending_llm eid (reason_of ''llm_deferred'' (ar_detail r)) (wdb v)\<rparr>"
  have pending: "job_counts provider v d
      (count_verdict (str_or vid ''unknown'') ''unknown'' ''pending_llm'' PendingLLM (?v, d)) (Inr PendingLLM, ?v)"
    by (rule job_counts_from [OF _ _ job_counts_verdict])
      (simp_all add: mark_pending_llm_def mark_status_frame verdict_value_def)
  show ?case
    using applied pending review_counts by (simp split: option.split AdapterStatus.split)
qed

lemma process_known_counts:
  assumes "counts_up F"
  shows "job_counts provider w c (process_known_counted X F provider eid vid payload (w, c))
    (process_known X F eid vid payload w)"
proof (cases "lookup_schema X (wdb w) vid payload")
  case None
  then show ?thesis
    by (simp add: process_known_counted_def process_known_def process_via_llm_counts [OF assms])
next
  case (Some m)
  have failed: "job_counts provider v d
      (andthen (uncounted (on_db (increment_failure i)) (v, d)) (\<lambda>_. process_via_llm_counted X F provider eid vid payload))
      (andthen (on_db (increment_failure i) v) (\<lambda>_. process_via_llm X F eid vid payload))" for v d i
    using increment_plain(2)
    by (intro job_counts_andthen on_db_counts process_via_llm_counts [OF assms]) (auto simp: plain_def)
  from Some show ?thesis
    unfolding process_known_counted_def process_known_def
    by (auto intro!: job_counts_andthen [OF process_via_schema_counts [OF assms]] finalize_counts failed split: option.split)
qed

lemma process_event_counts:
  assumes "counts_up F"
  shows "job_counts provider w c (process_event_counted X F provider eid (w, c)) (process_event X F eid w)"
proof (cases "tbl_get (raw_events (wdb w)) eid")
  case None
  then show ?thesis
    by (auto simp: process_event_counted_def process_event_def inc_def job_counts_def llm_sums_def verdict_metric_def)
next
  case (Some row)
  then show ?thesis
    unfolding process_event_counted_def process_event_def
    by (auto intro!: job_counts_andthen [OF lift_counts] process_known_counts [OF assms])
qed

lemma process_webhook_counts:
  assumes "counts_up F"
  shows "job_counts provider w c (process_webhook_counted X F provider eid (w, c)) (process_webhook X F eid w)"
proof -
  obtain r v where m: "process_event X F eid w = (r, v)" by fastforce
  with process_event_counts [OF assms, of provider w c X eid]
  obtain bs where bs: "process_event_counted X F provider eid (w, c) = (r, (v, c @ bs))" "llm_sums provider w v bs"
    "verdict_counted r (filter (verdict_metric \<circ> fst) bs)" by (auto simp: job_counts_def)
  then show ?thesis
    by (cases r) (simp_all add: process_webhook_counted_def process_webhook_def m job_counts_def llm_sums_def audited_def
        mark_failed_def mark_status_frame)
qed

text \<open>C24: a verdict is counted once, a failure never.  A job that ends with a result increments
  \<open>WORKER_PROCESS_TOTAL\<close> once, by one, under the name of the result, and \<open>STATE_TRANSITION_TOTAL\<close> under the
  same name when an event was applied; a job that raises, which marks the event as failed, increments
  neither.  Counting does not change what the job does.\<close>

theorem verdicts_are_counted_once:
  assumes "counts_up F" "process_webhook_counted X F provider eid (w, c) = (r, (v, d))"
  shows "process_webhook X F eid w = (r, v) \<and>
     (\<exists>bs. d = c @ bs \<and> verdict_counted r (filter (verdict_metric \<circ> fst) bs))"
  using process_webhook_counts [OF assms(1), of provider w c X eid] assms(2)
  by (auto simp: job_counts_def prod_eq_iff)

section \<open>Examples\<close>

lemma any_F_counts_up: "counts_up any_F"
  by (auto simp: counts_up_def any_F_def sample_F_def)

definition counted_run :: "process_outcome result \<times> (world \<times> registry)" where
  "counted_run = process_webhook_counted sample_LX any_F ''openai'' ''e1'' (known_w, [])"

lemma verdicts_are_counted_once_witness:
  "process_webhook sample_LX any_F ''e1'' known_w = (fst counted_run, fst (snd counted_run)) \<and>
   map fst (snd (snd counted_run)) = [STATE_TRANSITION_TOTAL ''shipment'' ''applied_initial'',
     WORKER_PROCESS_TOTAL ''maersk'' ''shipment'' ''applied_initial'', WORKER_LATENCY]"
proof
  have "process_webhook_counted sample_LX any_F ''openai'' ''e1'' (known_w, []) =
      (fst counted_run, (fst (snd counted_run), snd (snd counted_run)))"
    by (simp add: counted_run_def)
  from verdicts_are_counted_once [OF any_F_counts_up this]
  show "process_webhook sample_LX any_F ''e1'' known_w = (fst counted_run, fst (snd counted_run))" by blast
  show "map fst (snd (snd counted_run)) = [STATE_TRANSITION_TOTAL ''shipment'' ''applied_initial'',
     WORKER_PROCESS_TOTAL ''maersk'' ''shipment'' ''applied_initial'', WORKER_LATENCY]"
    by code_simp
qed

end
