(* ===== verification/Monitoring.thy ===== *)
theory Monitoring
  imports Metrics
begin

text \<open>
  The service and its counters.  \<open>prometheus_client\<close> keeps one registry for each process: the receiver
  increments that of the API process, the jobs that of the worker, and \<open>GET /metrics\<close> of \<open>app/main.py\<close>
  shows the one of the process that answers, \<open>metrics_endpoint\<close>: here the sums of the increments, of which
  the exposition format shows those with at least one increment when the counter has labels.  Both processes run on; a restart begins with an empty
  registry.
\<close>

section \<open>Receiver\<close>

definition count_delivery ::
  "string \<Rightarrow> response \<Rightarrow> service \<times> registry \<Rightarrow> response result \<times> (service \<times> registry)" where
  "count_delivery outcome answer s =
     andthen (inc (INGEST_TOTAL outcome) 1 s) (\<lambda>_ s.
     andthen (inc INGEST_LATENCY 1 s) (\<lambda>_ s. (Inr answer, s)))"

definition ingest_counted ::
  "externals \<Rightarrow> receiver_settings \<Rightarrow> bool \<Rightarrow> string \<Rightarrow> request \<Rightarrow> service \<times> registry \<Rightarrow>
     response result \<times> (service \<times> registry)" where
  "ingest_counted X S up new_trace req = (\<lambda>(s, c).
     let trace = (case or_str (header req ''x-request-id'') None of Some t \<Rightarrow> t | None \<Rightarrow> new_trace) in
     case parse_body X S (rq_body req) of
       Inl e \<Rightarrow> andthen (inc (INGEST_TOTAL ''bad_request'') 1 (s, c)) (\<lambda>_ s. (Inl e, s))
     | Inr payload \<Rightarrow>
         (case verify_signature X S req of
            Inl e \<Rightarrow> (Inl e, (s, c))
          | Inr verified \<Rightarrow>
              let eid = delivered_id X req payload in
              (case insert_raw eid (new_raw (sv_db s) req payload verified) (sv_db s) of
                 (d, False) \<Rightarrow>
                   count_delivery ''duplicated''
                     \<lparr>rp_event_id = eid, rp_deduplicated = True, rp_trace_id = trace\<rparr> (set_db d s, c)
               | (d, True) \<Rightarrow>
                   (case enqueue_process up eid (Some trace) (sv_queue s) of
                      Inl e \<Rightarrow> (Inl e, (set_db d s, c))
                    | Inr q \<Rightarrow>
                        count_delivery ''accepted''
                          \<lparr>rp_event_id = eid, rp_deduplicated = False, rp_trace_id = trace\<rparr>
                          ((set_db d s)\<lparr>sv_queue := q\<rparr>, c)))))"

text \<open>What a request increments: nothing when its signature is refused or the queue is down.\<close>

definition delivery_counted :: "externals \<Rightarrow> receiver_settings \<Rightarrow> request \<Rightarrow> response result \<Rightarrow> registry" where
  "delivery_counted X S req r = (case r of
     Inl e \<Rightarrow> if is_ok (parse_body X S (rq_body req)) then [] else [(INGEST_TOTAL ''bad_request'', 1)]
   | Inr rp \<Rightarrow> [(INGEST_TOTAL (if rp_deduplicated rp then ''duplicated'' else ''accepted''), 1), (INGEST_LATENCY, 1)])"

lemma ingest_counts:
  assumes "ingest X S up tr req s = (r, s')"
  shows "ingest_counted X S up tr req (s, c) = (r, (s', c @ delivery_counted X S req r))"
proof (cases "parse_body X S (rq_body req)")
  case (Inl e)
  with assms show ?thesis by (auto simp: ingest_def ingest_counted_def inc_def delivery_counted_def is_ok_def Let_def)
next
  case body: (Inr payload)
  show ?thesis
  proof (cases "verify_signature X S req")
    case (Inl e)
    with assms body show ?thesis by (auto simp: ingest_def ingest_counted_def delivery_counted_def is_ok_def Let_def)
  next
    case (Inr verified)
    obtain d b where "insert_raw (delivered_id X req payload) (new_raw (sv_db s) req payload verified) (sv_db s) = (d, b)"
      by fastforce
    with assms body Inr show ?thesis
      by (cases b) (auto simp: ingest_def ingest_counted_def count_delivery_def inc_def delivery_counted_def is_ok_def
          Let_def split: sum.split_asm)
  qed
qed

section \<open>Two processes\<close>

record monitored =
  mo_service :: service
  mo_api :: registry
  mo_worker :: registry

definition metrics_endpoint :: "monitored \<Rightarrow> registry" where
  "metrics_endpoint m = mo_api m"

abbreviation mo_world :: "monitored \<Rightarrow> world" where
  "mo_world m \<equiv> sv_world (mo_service m)"

inductive monitored_step ::
  "externals \<Rightarrow> receiver_settings \<Rightarrow> fallback \<Rightarrow> string \<Rightarrow> bool \<Rightarrow> monitored \<Rightarrow> monitored \<Rightarrow> bool"
  for X S F provider reliable
where
  mo_deliver: "ingest_counted X S up tr req (mo_service m, mo_api m) = (r, (s', a)) \<Longrightarrow> (reliable \<Longrightarrow> up) \<Longrightarrow>
    monitored_step X S F provider reliable m (m\<lparr>mo_service := s', mo_api := a\<rparr>)"
| mo_work: "tbl_get (jq_jobs (sv_queue (mo_service m))) jid = Some (eid, tr) \<Longrightarrow>
    tries (sv_queue (mo_service m)) jid < max_tries \<Longrightarrow>
    process_webhook_counted X F provider eid (mo_world m, mo_worker m) = (r, (w, c)) \<Longrightarrow>
    monitored_step X S F provider reliable m
      (m\<lparr>mo_service := \<lparr>sv_world = w, sv_queue = end_job jid (start_job jid (sv_queue (mo_service m)))\<rparr>, mo_worker := c\<rparr>)"
| mo_work_again: "tbl_get (jq_jobs (sv_queue (mo_service m))) jid = Some (eid, tr) \<Longrightarrow>
    tries (sv_queue (mo_service m)) jid < max_tries \<Longrightarrow>
    process_webhook_counted X F provider eid (mo_world m, mo_worker m) = (r, (w, c)) \<Longrightarrow>
    monitored_step X S F provider reliable m
      (m\<lparr>mo_service := \<lparr>sv_world = w, sv_queue = start_job jid (sv_queue (mo_service m))\<rparr>, mo_worker := c\<rparr>)"
| mo_give_up: "tbl_get (jq_jobs (sv_queue (mo_service m))) jid = Some (eid, tr) \<Longrightarrow>
    max_tries \<le> tries (sv_queue (mo_service m)) jid \<Longrightarrow>
    monitored_step X S F provider reliable m (m\<lparr>mo_service := reported jid (mo_service m)\<rparr>)"
| mo_expire: "monitored_step X S F provider reliable m (m\<lparr>mo_service := (mo_service m)\<lparr>sv_queue :=
    (sv_queue (mo_service m))\<lparr>jq_results := removeAll jid (jq_results (sv_queue (mo_service m)))\<rparr>\<rparr>\<rparr>)"
| mo_tick: "monitored_step X S F provider reliable m
    (m\<lparr>mo_service := set_db ((sv_db (mo_service m))\<lparr>clock := clock (sv_db (mo_service m)) + int n\<rparr>) (mo_service m)\<rparr>)"

definition monitored_reaches ::
  "externals \<Rightarrow> receiver_settings \<Rightarrow> fallback \<Rightarrow> string \<Rightarrow> bool \<Rightarrow> monitored \<Rightarrow> monitored \<Rightarrow> bool" where
  "monitored_reaches X S F provider reliable = (monitored_step X S F provider reliable)\<^sup>*\<^sup>*"

definition fresh :: "service \<Rightarrow> monitored" where
  "fresh s = \<lparr>mo_service = s, mo_api = [], mo_worker = []\<rparr>"

section \<open>Counting changes nothing\<close>

lemma ingest_counted_run:
  "ingest_counted X S up tr req (s, c) = (r, (s', a)) \<longleftrightarrow>
     ingest X S up tr req s = (r, s') \<and> a = c @ delivery_counted X S req r"
proof -
  obtain q t where run: "ingest X S up tr req s = (q, t)" by fastforce
  show ?thesis unfolding run ingest_counts [OF run] by auto
qed

lemma process_counted_run:
  assumes "counts_up F" "process_webhook_counted X F provider eid (w, c) = (r, (v, d))"
  obtains bs where "process_webhook X F eid w = (r, v)" "d = c @ bs" "llm_sums provider w v bs"
    "verdict_counted r (filter (verdict_metric \<circ> fst) bs)"
  using process_webhook_counts [OF assms(1), of provider w c X eid] assms(2)
  by (fastforce simp: job_counts_def prod_eq_iff)

lemma monitored_step_run:
  assumes "counts_up F" "monitored_step X S F provider reliable m m'"
  shows "service_step X S F reliable (mo_service m) (mo_service m')"
  using assms(2)
proof cases
  case (mo_deliver up tr req r s' a)
  then show ?thesis using service_step.deliver by (auto simp: ingest_counted_run)
next
  case (mo_work jid eid tr r w c)
  from assms(1) mo_work(4) obtain "process_webhook X F eid (mo_world m) = (r, w)" by (rule process_counted_run)
  then have "work_job X F jid eid (mo_service m) = mo_service m'"
    using mo_work(1) by (simp add: work_job_def run_job_def)
  with service_step.work [OF mo_work(2,3)] show ?thesis by metis
next
  case (mo_work_again jid eid tr r w c)
  from assms(1) mo_work_again(4) obtain "process_webhook X F eid (mo_world m) = (r, w)" by (rule process_counted_run)
  then have "unreported_job X F jid eid (mo_service m) = mo_service m'"
    using mo_work_again(1) by (simp add: unreported_job_def run_job_def)
  with service_step.work_again [OF mo_work_again(2,3)] show ?thesis by metis
next
  case (mo_give_up jid eid tr)
  then show ?thesis using service_step.give_up by simp
next
  case (mo_expire jid)
  then show ?thesis using service_step.expire by simp
next
  case (mo_tick n)
  then show ?thesis using service_step.tick by simp
qed

lemma service_step_monitored:
  assumes "counts_up F" "service_step X S F reliable (mo_service m) s'"
  shows "\<exists>m'. monitored_step X S F provider reliable m m' \<and> mo_service m' = s'"
  using assms(2)
proof cases
  case (deliver up tr req r)
  have "monitored_step X S F provider reliable m
      (m\<lparr>mo_service := s', mo_api := mo_api m @ delivery_counted X S req r\<rparr>)"
    by (rule mo_deliver [OF ingest_counts [OF deliver(1)]]) (use deliver(2) in simp)
  then show ?thesis by force
next
  case (work jid eid tr)
  obtain r w c where run: "process_webhook_counted X F provider eid (mo_world m, mo_worker m) = (r, (w, c))"
    by (metis surj_pair)
  with assms(1) obtain "process_webhook X F eid (mo_world m) = (r, w)" by (rule process_counted_run)
  with work(1) mo_work [OF work(2,3) run] show ?thesis by (force simp: work_job_def run_job_def)
next
  case (work_again jid eid tr)
  obtain r w c where run: "process_webhook_counted X F provider eid (mo_world m, mo_worker m) = (r, (w, c))"
    by (metis surj_pair)
  with assms(1) obtain "process_webhook X F eid (mo_world m) = (r, w)" by (rule process_counted_run)
  with work_again(1) mo_work_again [OF work_again(2,3) run] show ?thesis by (force simp: unreported_job_def run_job_def)
next
  case (give_up jid eid tr)
  then show ?thesis using mo_give_up [OF give_up(2,3)] by fastforce
next
  case (expire jid)
  then show ?thesis using mo_expire by fastforce
next
  case (tick n)
  then show ?thesis using mo_tick by fastforce
qed

lemma service_run_monitored:
  assumes "(service_step X S F reliable)\<^sup>*\<^sup>* s s'" "counts_up F" "mo_service m = s"
  shows "\<exists>m'. (monitored_step X S F provider reliable)\<^sup>*\<^sup>* m m' \<and> mo_service m' = s'"
  using assms(1)
proof (induction rule: rtranclp_induct)
  case base
  then show ?case using assms(3) by blast
next
  case (step t u)
  then obtain n where n: "(monitored_step X S F provider reliable)\<^sup>*\<^sup>* m n" "mo_service n = t" by blast
  with service_step_monitored [OF assms(2), of X S reliable n u provider] step.hyps(2) show ?case
    by (meson rtranclp.rtrancl_into_rtrancl)
qed

lemma monitored_run_service:
  assumes "(monitored_step X S F provider reliable)\<^sup>*\<^sup>* m m'" "counts_up F"
  shows "(service_step X S F reliable)\<^sup>*\<^sup>* (mo_service m) (mo_service m')"
  using assms(1)
proof (induction rule: rtranclp_induct)
  case (step n n')
  with monitored_step_run [OF assms(2)] show ?case by (meson rtranclp.rtrancl_into_rtrancl)
qed simp

text \<open>C23: counting changes nothing.  When no answer reports a negative number of tokens, the runs of the
  service with counters are exactly its runs without: every run counts something, and no count stops or
  alters a run.\<close>

theorem counting_changes_nothing:
  assumes "counts_up F"
  shows "service_reaches X S F reliable s s' \<longleftrightarrow>
     (\<exists>m'. monitored_reaches X S F provider reliable (fresh s) m' \<and> mo_service m' = s')"
  using service_run_monitored [OF _ assms, of X S reliable s s' "fresh s" provider]
    monitored_run_service [OF _ assms, of X S provider reliable "fresh s"]
  unfolding service_reaches_def monitored_reaches_def by (fastforce simp: fresh_def)

section \<open>What the counters say\<close>

definition ingest_metric :: "metric \<Rightarrow> bool" where
  "ingest_metric k = (case k of INGEST_TOTAL outcome \<Rightarrow> True | INGEST_LATENCY \<Rightarrow> True | _ \<Rightarrow> False)"

text \<open>The API process counts deliveries only, and each accepted one is a new row of the log; with the
  queue up these are all new rows.  The worker's counters cover what its jobs audited and asked for.\<close>

definition api_account :: "bool \<Rightarrow> db \<Rightarrow> db \<Rightarrow> registry \<Rightarrow> bool" where
  "api_account reliable d d' bs \<longleftrightarrow> filter (Not \<circ> ingest_metric \<circ> fst) bs = [] \<and>
     int (length (raw_events d)) + counter (INGEST_TOTAL ''accepted'') bs \<le> int (length (raw_events d')) \<and>
     (reliable \<longrightarrow>
       int (length (raw_events d)) + counter (INGEST_TOTAL ''accepted'') bs = int (length (raw_events d')))"

definition monitored_rel :: "bool \<Rightarrow> string \<Rightarrow> monitored \<Rightarrow> monitored \<Rightarrow> bool" where
  "monitored_rel reliable provider m m' \<longleftrightarrow> (\<exists>bs cs. mo_api m' = mo_api m @ bs \<and> mo_worker m' = mo_worker m @ cs \<and>
     api_account reliable (sv_db (mo_service m)) (sv_db (mo_service m')) bs \<and>
     llm_sums provider (mo_world m) (mo_world m') cs)"

lemma llm_sums_same:
  "llm_audit (wdb v) = llm_audit (wdb w) \<Longrightarrow> wcalls v = wcalls w \<Longrightarrow> llm_sums provider w v []"
  by (simp add: llm_sums_def audited_def)

lemma monitored_relI:
  assumes "mo_api m' = mo_api m @ bs" "mo_worker m' = mo_worker m @ cs"
    and "api_account reliable (sv_db (mo_service m)) (sv_db (mo_service m')) bs"
    and "llm_sums provider (mo_world m) (mo_world m') cs"
  shows "monitored_rel reliable provider m m'"
  using assms unfolding monitored_rel_def by blast

lemma monitored_rel_refl: "monitored_rel reliable provider m m"
  by (rule monitored_relI [of _ _ "[]" "[]"]) (simp_all add: api_account_def llm_sums_same)

lemma api_account_append:
  "api_account reliable d e bs \<Longrightarrow> api_account reliable e f bs' \<Longrightarrow> api_account reliable d f (bs @ bs')"
  by (auto simp: api_account_def)

lemma monitored_rel_trans:
  assumes "monitored_rel reliable provider m n" "monitored_rel reliable provider n u"
  shows "monitored_rel reliable provider m u"
proof -
  obtain bs cs where 1: "mo_api n = mo_api m @ bs" "mo_worker n = mo_worker m @ cs"
    "api_account reliable (sv_db (mo_service m)) (sv_db (mo_service n)) bs" "llm_sums provider (mo_world m) (mo_world n) cs"
    using assms(1) unfolding monitored_rel_def by blast
  obtain bs' cs' where 2: "mo_api u = mo_api n @ bs'" "mo_worker u = mo_worker n @ cs'"
    "api_account reliable (sv_db (mo_service n)) (sv_db (mo_service u)) bs'" "llm_sums provider (mo_world n) (mo_world u) cs'"
    using assms(2) unfolding monitored_rel_def by blast
  show ?thesis
    by (rule monitored_relI [of _ _ "bs @ bs'" "cs @ cs'"])
      (use 1 2 api_account_append llm_sums_append in simp_all)
qed

lemma with_raw_length: "\<not> event_exists d eid \<Longrightarrow> length (raw_events (with_raw eid row d)) = Suc (length (raw_events d))"
  by (simp add: with_raw_def event_exists_def tbl_insert_def)

lemma deliver_account:
  assumes "ingest X S up tr req s = (r, s')" "reliable \<Longrightarrow> up"
  shows "api_account reliable (sv_db s) (sv_db s') (delivery_counted X S req r) \<and>
     llm_sums provider (sv_world s) (sv_world s') []"
  using assms(1)
proof (cases rule: ingest_cases)
  case (refused e)
  then show ?thesis by (auto simp: api_account_def delivery_counted_def ingest_metric_def llm_sums_same)
next
  case (duplicate payload v t)
  then show ?thesis by (auto simp: api_account_def delivery_counted_def ingest_metric_def llm_sums_same)
next
  case (accepted payload v t q)
  then show ?thesis
    by (simp add: api_account_def delivery_counted_def ingest_metric_def with_raw_length set_db_def llm_sums_def
        audited_def) (simp add: with_raw_def)
next
  case (lost payload v)
  then show ?thesis
    using assms(2)
    by (auto simp: api_account_def delivery_counted_def is_ok_def with_raw_length set_db_def llm_sums_def audited_def)
      (simp_all add: with_raw_def)
qed

lemma work_account:
  assumes "counts_up F" "process_webhook_counted X F provider eid (w, c) = (r, (v, d))"
  obtains cs where "d = c @ cs" "llm_sums provider w v cs" "api_account reliable (wdb w) (wdb v) []"
proof -
  obtain bs where bs: "process_webhook X F eid w = (r, v)" "d = c @ bs" "llm_sums provider w v bs"
    by (rule process_counted_run [OF assms])
  have "db_step eid (wdb w) (wdb v)"
    using keeps_process_webhook [of eid w X F] bs(1) by (simp add: steps.keeps_def)
  then have "raw_log (wdb v) = raw_log (wdb w)" by (simp add: db_step_def)
  then have "length (raw_events (wdb v)) = length (raw_events (wdb w))"
    by (metis length_map raw_log_def)
  with bs that show thesis by (simp add: api_account_def)
qed

lemma monitored_rel_step:
  assumes "counts_up F" "monitored_step X S F provider reliable m m'"
  shows "monitored_rel reliable provider m m'"
  using assms(2)
proof cases
  case (mo_deliver up tr req r s' a)
  with deliver_account [of X S up tr req "mo_service m" r s' reliable provider] show ?thesis
    by (intro monitored_relI [of _ _ "delivery_counted X S req r" "[]"]) (auto simp: ingest_counted_run)
next
  case (mo_work jid eid tr r w c)
  from assms(1) mo_work(4) obtain cs where "c = mo_worker m @ cs" "llm_sums provider (mo_world m) w cs"
    "api_account reliable (sv_db (mo_service m)) (wdb w) []" by (rule work_account)
  then show ?thesis by (intro monitored_relI [of _ _ "[]" cs]) (simp_all add: mo_work(1))
next
  case (mo_work_again jid eid tr r w c)
  from assms(1) mo_work_again(4) obtain cs where "c = mo_worker m @ cs" "llm_sums provider (mo_world m) w cs"
    "api_account reliable (sv_db (mo_service m)) (wdb w) []" by (rule work_account)
  then show ?thesis by (intro monitored_relI [of _ _ "[]" cs]) (simp_all add: mo_work_again(1))
next
  case (mo_give_up jid eid tr)
  then show ?thesis
    by (intro monitored_relI [of _ _ "[]" "[]"]) (simp_all add: api_account_def llm_sums_same reported_fields)
next
  case (mo_expire jid)
  then show ?thesis by (intro monitored_relI [of _ _ "[]" "[]"]) (simp_all add: api_account_def llm_sums_same)
next
  case (mo_tick n)
  then show ?thesis
    by (intro monitored_relI [of _ _ "[]" "[]"]) (simp_all add: api_account_def llm_sums_same set_db_def)
qed

interpretation monitoring: run_relation "\<lambda>m m'. counts_up F \<longrightarrow> monitored_rel reliable provider m m'"
    "monitored_step X S F provider reliable" for X S F provider reliable
  by unfold_locales (auto intro: monitored_rel_refl monitored_rel_trans monitored_rel_step)

lemma monitored_run_rel:
  assumes "counts_up F" "monitored_reaches X S F provider reliable (fresh s) m"
  shows "api_account reliable (sv_db s) (sv_db (mo_service m)) (mo_api m)"
    and "llm_sums provider (sv_world s) (mo_world m) (mo_worker m)"
  using monitoring.run_rel [of X S F provider reliable "fresh s" m] assms
  by (auto simp: monitored_reaches_def monitored_rel_def fresh_def)

text \<open>C25: the counter of accepted deliveries is the growth of the log.  From the start of the processes on,
  \<open>INGEST_TOTAL{outcome="accepted"}\<close> never exceeds the number of webhooks stored, and equals it while the
  queue is up; a webhook whose enqueueing fails is stored and not counted.\<close>

theorem accepted_deliveries_are_the_log:
  assumes "counts_up F" "monitored_reaches X S F provider reliable (fresh s) m"
  shows "int (length (raw_events (sv_db s))) + counter (INGEST_TOTAL ''accepted'') (metrics_endpoint m)
       \<le> int (length (raw_events (sv_db (mo_service m)))) \<and>
     (reliable \<longrightarrow> int (length (raw_events (sv_db s))) + counter (INGEST_TOTAL ''accepted'') (metrics_endpoint m)
       = int (length (raw_events (sv_db (mo_service m)))))"
  using monitored_run_rel(1) [OF assms] by (simp add: api_account_def metrics_endpoint_def)

text \<open>The registry of the API process holds the counters of the receiver only; verdicts, transitions, model
  calls and tokens are counted in the registry of the worker, which has no endpoint.\<close>

lemma worker_counters_are_not_exposed:
  assumes "counts_up F" "monitored_reaches X S F provider reliable (fresh s) m" "\<not> ingest_metric k"
  shows "counter k (metrics_endpoint m) = 0"
proof -
  have "\<forall>b \<in> set (mo_api m). ingest_metric (fst b)"
    using monitored_run_rel(1) [OF assms(1,2)] by (auto simp: api_account_def filter_empty_conv)
  with assms(3) have "filter (\<lambda>(m, n). m = k) (mo_api m) = []" by (auto simp: filter_empty_conv)
  then show ?thesis by (simp add: counted_total_def metrics_endpoint_def)
qed

text \<open>C26: the token counters cover the audit.  When no answer reports a negative number of
  tokens, the tokens that \<open>llm_audit\<close> records for fresh answers since the start of the worker never exceed its
  \<open>LLM_TOKENS\<close>, in either direction; and every extraction counted as \<open>ok\<close> made a call, every one counted as
  \<open>invalid\<close> made two.\<close>

theorem audited_tokens_are_counted:
  assumes "counts_up F" "monitored_reaches X S F provider reliable (fresh s) m"
  shows "audited la_tokens_in (mo_world m) - audited la_tokens_in (sv_world s)
       \<le> counter (LLM_TOKENS provider ''input'') (mo_worker m) \<and>
     audited la_tokens_out (mo_world m) - audited la_tokens_out (sv_world s)
       \<le> counter (LLM_TOKENS provider ''output'') (mo_worker m) \<and>
     counter (LLM_CALL_TOTAL provider ''ok'') (mo_worker m) +
       2 * counter (LLM_CALL_TOTAL provider ''invalid'') (mo_worker m)
       \<le> int (wcalls (mo_world m)) - int (wcalls (sv_world s))"
  using monitored_run_rel(2) [OF assms] by (simp add: llm_sums_def)

section \<open>Examples\<close>

definition watched :: monitored where
  "watched = \<lparr>mo_service = accepted_sv, mo_api = [(INGEST_TOTAL ''accepted'', 1), (INGEST_LATENCY, 1)], mo_worker = []\<rparr>"

lemma watched_step: "monitored_step sample_RX sample_S any_F ''openai'' True (fresh sample_sv) watched"
proof -
  have "delivery_counted sample_RX sample_S accepted_rq (Inr accepted_rp) = [(INGEST_TOTAL ''accepted'', 1), (INGEST_LATENCY, 1)]"
    using accepted_stored(3) by (simp add: delivery_counted_def)
  with ingest_counts [OF accepted_run, of "[]"]
  have "ingest_counted sample_RX sample_S True ''t'' accepted_rq (mo_service (fresh sample_sv), mo_api (fresh sample_sv)) =
      (Inr accepted_rp, (accepted_sv, mo_api watched))" by (simp add: fresh_def watched_def)
  from mo_deliver [OF this] show ?thesis by (simp add: fresh_def watched_def)
qed

lemma watched_reached: "monitored_reaches sample_RX sample_S any_F ''openai'' True (fresh sample_sv) watched"
  unfolding monitored_reaches_def by (rule r_into_rtranclp) (rule watched_step)

lemma counting_changes_nothing_witness:
  "\<exists>m. monitored_reaches sample_RX sample_S any_F ''openai'' True (fresh sample_sv) m \<and> mo_service m = accepted_sv"
  using counting_changes_nothing [OF any_F_counts_up] accepted_reached by blast

lemma accepted_deliveries_are_the_log_witness: "int (length (raw_events (sv_db accepted_sv))) = 1"
  using accepted_deliveries_are_the_log [OF any_F_counts_up watched_reached]
  by (simp add: watched_def metrics_endpoint_def sample_sv_def empty_db_def)

lemma worker_counters_are_not_exposed_witness: "counter WORKER_LATENCY (metrics_endpoint watched) = 0"
  by (rule worker_counters_are_not_exposed [OF any_F_counts_up watched_reached]) (simp add: ingest_metric_def)

text \<open>A job that asks the model, whose two answers are refused.\<close>

definition unsure_F :: fallback where
  "unsure_F = sample_F ''I think so'' ''I do not know''"

lemma unsure_F_counts_up: "counts_up unsure_F"
  by (auto simp: counts_up_def unsure_F_def sample_F_def)

definition unknown_sv :: service where
  "unknown_sv = \<lparr>sv_world = \<lparr>wdb = known_db\<lparr>vendor_schemas := []\<rparr>, wcalls = 0\<rparr>,
     sv_queue = \<lparr>jq_jobs = [(job_id ''e1'', (''e1'', None))], jq_results = [], jq_tries = []\<rparr>\<rparr>"

definition asked_run :: "process_outcome result \<times> (world \<times> registry)" where
  "asked_run = process_webhook_counted sample_LX unsure_F ''openai'' ''e1'' (sv_world unknown_sv, [])"

definition asked :: monitored where
  "asked = (fresh unknown_sv)\<lparr>mo_service := unknown_sv\<lparr>sv_world := fst (snd asked_run), sv_queue := start_job (job_id ''e1'') (sv_queue unknown_sv)\<rparr>, mo_worker := snd (snd asked_run)\<rparr>"

lemma asked_reached: "monitored_reaches sample_LX sample_S unsure_F ''openai'' True (fresh unknown_sv) asked"
proof -
  have w: "tbl_get (jq_jobs (sv_queue (mo_service (fresh unknown_sv)))) (job_id ''e1'') = Some (''e1'', None)"
    by (simp add: fresh_def unknown_sv_def tbl_get_def)
  have "process_webhook_counted sample_LX unsure_F ''openai'' ''e1'' (mo_world (fresh unknown_sv), mo_worker (fresh unknown_sv)) =
      (fst asked_run, (fst (snd asked_run), snd (snd asked_run)))"
    by (simp add: asked_run_def fresh_def)
  from mo_work_again [OF w _ this, of sample_S True]
  have "monitored_step sample_LX sample_S unsure_F ''openai'' True (fresh unknown_sv) asked"
    by (simp add: asked_def fresh_def unknown_sv_def tries_def max_tries_def)
  then show ?thesis unfolding monitored_reaches_def by (rule r_into_rtranclp)
qed

lemma asked_counts: "counter (LLM_CALL_TOTAL ''openai'' ''invalid'') (snd (snd asked_run)) = 1" "wcalls (fst (snd asked_run)) = 2"
  by code_simp+

lemma audited_tokens_are_counted_witness:
  "counter (LLM_CALL_TOTAL ''openai'' ''ok'') (mo_worker asked) \<le> 0"
  using audited_tokens_are_counted [OF unsure_F_counts_up asked_reached] asked_counts
  by (simp add: asked_def fresh_def unknown_sv_def)

end
