(* ===== verification/Seed.thy ===== *)
theory Seed
  imports Service
begin

text \<open>
  \<open>app/tools/seed.py\<close>: posts the sample payloads to the running API, in the order of their file names,
  and stops at the first answer that reports an error.  How \<open>httpx\<close> writes a JSON body and which headers
  it sends are parameters, and so is the directory: \<open>None\<close> when it does not exist, otherwise the names
  and contents of its files.
\<close>

section \<open>The client\<close>

record client =
  cl_encode :: "json \<Rightarrow> string"
  cl_headers :: "(string \<times> string) list"

datatype seed_error = Exit nat | BadFile | HTTPStatusError exn

type_synonym seed_line = "string \<times> response"

definition fixture_files :: "(string \<times> string) list \<Rightarrow> (string \<times> string) list" where
  "fixture_files dir = sort_key fst (filter (\<lambda>(name, content). endswith name ''.json'') dir)"

definition seed_request :: "client \<Rightarrow> json \<Rightarrow> request" where
  "seed_request C payload = \<lparr>rq_body = cl_encode C payload, rq_headers = cl_headers C, rq_vendor = None\<rparr>"

text \<open>The requests one after the other; \<open>trace\<close> is the trace id that the API makes up for a file.\<close>

fun seed_files ::
  "externals \<Rightarrow> receiver_settings \<Rightarrow> bool \<Rightarrow> (string \<Rightarrow> string) \<Rightarrow> client \<Rightarrow> (string \<times> string) list \<Rightarrow> service \<Rightarrow>
     (seed_error + seed_line list) \<times> service" where
  "seed_files X S up trace C [] s = (Inr [], s)"
| "seed_files X S up trace C ((name, content) # fs) s =
     (case x_loads X content of
        None \<Rightarrow> (Inl BadFile, s)
      | Some payload \<Rightarrow>
          (case receive_any X S up (trace name) (seed_request C payload) s of
             (Inl e, s') \<Rightarrow> (Inl (HTTPStatusError e), s')
           | (Inr answer, s') \<Rightarrow>
               (case seed_files X S up trace C fs s' of
                  (Inl e, s'') \<Rightarrow> (Inl e, s'')
                | (Inr ls, s'') \<Rightarrow> (Inr ((name, answer) # ls), s''))))"

definition seed ::
  "externals \<Rightarrow> receiver_settings \<Rightarrow> bool \<Rightarrow> (string \<Rightarrow> string) \<Rightarrow> client \<Rightarrow> (string \<times> string) list option \<Rightarrow> service \<Rightarrow>
     (seed_error + seed_line list) \<times> service" where
  "seed X S up trace C dir s = (case dir of
       None \<Rightarrow> (Inl (Exit 1), s)
     | Some entries \<Rightarrow>
         if fixture_files entries = [] then (Inl (Exit 1), s)
         else seed_files X S up trace C (fixture_files entries) s)"

section \<open>Posting\<close>

lemma post_answered:
  assumes "receive_any X S up tr req s = (Inr rp, s')"
  shows "event_exists (sv_db s') (rp_event_id rp)"
    and "event_exists (sv_db s2) (rp_event_id rp) \<Longrightarrow>
      \<exists>rp'. receive_any X S up' tr' req s2 = (Inr rp', s2) \<and> rp_deduplicated rp' \<and> rp_event_id rp' = rp_event_id rp"
proof -
  let ?req = "req\<lparr>rq_vendor := None\<rparr>"
  obtain payload v where p: "parse_body X S (rq_body ?req) = Inr payload" "verify_signature X S ?req = Inr v"
    "rp_event_id rp = delivered_id X ?req payload" "event_exists (sv_db s') (delivered_id X ?req payload)"
    using assms unfolding receive_any_def
    by (cases rule: ingest_cases) (auto simp: event_exists_def with_raw_get)
  then show "event_exists (sv_db s') (rp_event_id rp)" by simp
  assume "event_exists (sv_db s2) (rp_event_id rp)"
  with p show "\<exists>rp'. receive_any X S up' tr' req s2 = (Inr rp', s2) \<and> rp_deduplicated rp' \<and> rp_event_id rp' = rp_event_id rp"
    by (simp add: receive_any_def ingest_def insert_raw_def Let_def)
qed

lemma post_step: "receive_any X S up tr req s = (r, s') \<Longrightarrow> log_extends (sv_db s) (sv_db s')"
proof -
  assume "receive_any X S up tr req s = (r, s')"
  then have "service_step X S F False s s'" for F
    unfolding receive_any_def by (rule service_step.deliver) simp
  from service_rel_step [OF this] show "log_extends (sv_db s) (sv_db s')" by (simp add: service_rel_def)
qed

lemma log_extends_event: "log_extends d d' \<Longrightarrow> event_exists d eid \<Longrightarrow> event_exists d' eid"
  by (fastforce simp: log_extends_def event_exists_def)

lemma seed_files_log: "seed_files X S up trace C fs s = (r, s') \<Longrightarrow> log_extends (sv_db s) (sv_db s')"
proof (induction fs arbitrary: s r)
  case (Cons f fs)
  show ?case
  proof (cases f)
    case (Pair name content)
    show ?thesis
    proof (cases "x_loads X content")
      case None
      with Cons.prems Pair show ?thesis by (simp add: log_extends_refl)
    next
      case (Some payload)
      obtain a t where post: "receive_any X S up (trace name) (seed_request C payload) s = (a, t)" by fastforce
      show ?thesis
      proof (cases a)
        case (Inl e)
        with Cons.prems Pair Some post post_step [OF post] show ?thesis by simp
      next
        case (Inr rp)
        obtain b u where rest: "seed_files X S up trace C fs t = (b, u)" by fastforce
        have u: "u = s'" using Cons.prems Pair Some post Inr rest by (auto split: sum.splits)
        from Cons.IH [OF rest [unfolded u]] post_step [OF post] show ?thesis using log_extends_trans by blast
      qed
    qed
  qed
qed (simp add: log_extends_refl)

definition absorbed :: "seed_line list \<Rightarrow> seed_line list \<Rightarrow> bool" where
  "absorbed ls ls' \<longleftrightarrow> list_all2 (\<lambda>(name, rp) (name', rp'). name' = name \<and> rp_event_id rp' = rp_event_id rp \<and>
     rp_deduplicated rp') ls ls'"

lemma seed_files_again:
  assumes "seed_files X S up trace C fs s = (Inr ls, s1)" "log_extends (sv_db s1) (sv_db s2)"
  shows "\<exists>ls'. seed_files X S up' trace' C fs s2 = (Inr ls', s2) \<and> absorbed ls ls'"
  using assms
proof (induction fs arbitrary: s ls)
  case (Cons f fs)
  obtain name content where f: "f = (name, content)" by (cases f)
  from Cons.prems(1) f obtain payload rp t ms where
    load: "x_loads X content = Some payload" and
    post: "receive_any X S up (trace name) (seed_request C payload) s = (Inr rp, t)" and
    rest: "seed_files X S up trace C fs t = (Inr ms, s1)" and ls: "ls = (name, rp) # ms"
    by (auto split: option.splits prod.splits sum.splits)
  have "event_exists (sv_db s2) (rp_event_id rp)"
    using post_answered(1) [OF post] log_extends_event [OF seed_files_log [OF rest]] log_extends_event [OF Cons.prems(2)]
    by blast
  from post_answered(2) [OF post this, of up' "trace' name"] obtain rp' where
    rp': "receive_any X S up' (trace' name) (seed_request C payload) s2 = (Inr rp', s2)"
    "rp_deduplicated rp'" "rp_event_id rp' = rp_event_id rp" by blast
  from Cons.IH [OF rest Cons.prems(2)] obtain ms' where
    "seed_files X S up' trace' C fs s2 = (Inr ms', s2)" "absorbed ms ms'" by blast
  with rp' load f ls show ?case by (simp add: absorbed_def)
qed (simp add: absorbed_def)

text \<open>C27: seeding again is harmless.  When the tool has posted all its files, then at any later time, after
  whatever the service has done with them, posting them again is answered for every file with the same
  event id as a duplicate and changes nothing.\<close>

theorem seeding_again_changes_nothing:
  assumes "seed X S up trace C dir s = (Inr ls, s1)" "service_reaches X S F reliable s1 s2"
  shows "\<exists>ls'. seed X S up' trace' C dir s2 = (Inr ls', s2) \<and> absorbed ls ls'"
proof -
  have "log_extends (sv_db s1) (sv_db s2)"
    using runs.run_rel assms(2) unfolding service_reaches_def service_rel_def by blast
  with assms(1) seed_files_again show ?thesis by (auto simp: seed_def split: option.splits if_splits)
qed

section \<open>Examples\<close>

definition sample_client :: client where
  "sample_client = \<lparr>cl_encode = (\<lambda>v. case jget (case v of JObj kvs \<Rightarrow> kvs | _ \<Rightarrow> []) ''carrier_scac'' of JStr t \<Rightarrow> t | _ \<Rightarrow> []),
     cl_headers = [(''content-type'', ''application/json'')]\<rparr>"

definition sample_dir :: "(string \<times> string) list" where
  "sample_dir = [(''b.json'', ''ONEY''), (''readme.md'', ''x''), (''a.json'', ''MAEU'')]"

lemma sample_files: "map fst (fixture_files sample_dir) = [''a.json'', ''b.json'']"
  by code_simp

definition seeded :: "(seed_error + seed_line list) \<times> service" where
  "seeded = seed sample_RX sample_S True (\<lambda>_. ''t'') sample_client (Some sample_dir) sample_sv"

lemma seeded_ok: "(case fst seeded of Inr ls \<Rightarrow> map fst ls | Inl e \<Rightarrow> []) = [''a.json'', ''b.json'']"
  by code_simp

lemma seeding_again_changes_nothing_witness:
  "\<exists>ls'. seed sample_RX sample_S False (\<lambda>_. ''u'') sample_client (Some sample_dir) (snd seeded) = (Inr ls', snd seeded) \<and>
     map fst ls' = [''a.json'', ''b.json'']"
proof -
  obtain ls where ls: "seeded = (Inr ls, snd seeded)" "map fst ls = [''a.json'', ''b.json'']"
    using seeded_ok by (cases "fst seeded") (simp_all add: prod_eq_iff)
  have "service_reaches sample_RX sample_S any_F True (snd seeded) (snd seeded)" by (simp add: service_reaches_def)
  from seeding_again_changes_nothing [OF _ this, of True "\<lambda>_. ''t''" sample_client "Some sample_dir" sample_sv ls] ls
  obtain ls' where ls': "seed sample_RX sample_S False (\<lambda>_. ''u'') sample_client (Some sample_dir) (snd seeded) = (Inr ls', snd seeded)"
    "absorbed ls ls'"
    by (metis seeded_def)
  have "map fst ls' = map fst ls"
    using ls'(2) unfolding absorbed_def by (induction rule: list_all2_induct) auto
  with ls' ls(2) show ?thesis by auto
qed

end
