(* ===== verification/Spec2Isabelle.thy ===== *)
theory Spec2Isabelle
  imports Shell Migrate Recovery Monitoring Seed
begin

text \<open>
  A verification development for the GLS webhook service (Python, under \<open>src/app\<close>).

  \<^bold>\<open>The program.\<close>  Vendors post JSON webhooks.  The receiver stores each of them once under its content
  address in the append-only table \<open>raw_events\<close> and enqueues a job.  The worker turns the payload into a
  canonical event on one of two paths: with a schema that was learned for the payload's shape (path A),
  or by asking a model provider, after which it tries to learn a schema from the answer (path B).  The
  canonical event is normalised and applied to the projections of shipments and invoices by two state
  machines, in one transaction.  A replay tool runs slices of the raw log through the worker again.

  \<^bold>\<open>The parts\<close>, each with the file it models, its state and its operations.

  \<^item> \<open>Prelude\<close>, \<open>Values\<close>: exceptions as values, results, Python strings and integers, SQL tables, JSON.
    Code outside the repository is the record \<open>externals\<close>: orjson, SHA-256, HMAC, dateutil, the text of
    floats and exceptions.  \<open>orjson_laws\<close> states what is used of orjson; \<open>Sample_Externals\<close> gives an
    instance and proves that it satisfies the laws.
  \<^item> \<open>Canonical\<close> (\<open>domain/canonical.py\<close>): enumerations, pydantic models and their validators.
  \<^item> \<open>Normalizer\<close> (\<open>domain/normalizer.py\<close>): every function.
  \<^item> \<open>Storage\<close> (\<open>storage/migrations\<close>): the tables as a record, with the constraints the code relies on.
  \<^item> \<open>Lifecycle\<close>: the abstract lifecycle of one entity, the specification that \<open>StateMachine\<close>
    (\<open>domain/state_machine.py\<close>) refines; \<open>Projection\<close> holds the invariant of the tables and
    \<open>Refinement\<close> the simulation and its consequences for whole event sequences.
  \<^item> \<open>Hashing\<close> (\<open>hashing.py\<close>), \<open>Fingerprint\<close> (\<open>adapters/fingerprint.py\<close>), \<open>Parsers\<close>
    (\<open>adapters/parsers.py\<close>), \<open>Registry\<close> (\<open>adapters/registry.py\<close>).
  \<^item> \<open>SchemaPaths\<close>, \<open>SchemaDriven\<close> (\<open>adapters/schema_driven.py\<close>): path A's extraction.
  \<^item> \<open>LLMSchema\<close>, \<open>LLMFallback\<close> (\<open>llm/fallback.py\<close>, \<open>llm/provider.py\<close>): target schema, cache, budget,
    the one retry and the audit log.  \<open>LLMSchema\<close> writes out the target schema of \<open>llm/schemas\<close>; the
    provider, the prompt and schema files and the verdict of jsonschema on them are the record
    \<open>fallback\<close>.
  \<^item> \<open>OpenAI\<close> (\<open>llm/openai_provider.py\<close>): request, response and cost; the HTTP exchange is a parameter.
  \<^item> \<open>SchemaDiscoverer\<close> (\<open>adapters/schema_discoverer.py\<close>), \<open>LLMUniversal\<close>
    (\<open>adapters/llm_universal.py\<close>, \<open>adapters/base.py\<close>).
  \<^item> \<open>Pipeline\<close> (\<open>workers/pipeline.py\<close>, \<open>workers/processor.py\<close>): the job; \<open>Worker\<close>: its guarantees.
  \<^item> \<open>Receiver\<close> (\<open>api/receiver.py\<close>, \<open>queue.py\<close>): both routes.
  \<^item> \<open>Service\<close>: receiver, queue and worker as one transition system whose jobs are single steps.
  \<^item> \<open>Resumptions\<close>: jobs that can be interrupted, as trees of actions, and a rely/guarantee calculus for
    them; \<open>Jobs\<close>: the functions of orchestration, discovery and pipeline as such jobs, one action for each
    statement, transaction and provider call; \<open>Guarantees\<close>: what each action guarantees;
    \<open>Interleaving\<close>: the service with up to 16 jobs in progress for each worker process, whose actions
    alternate in any order, and with receivers that have stored a webhook and not yet enqueued it.
  \<^item> \<open>Replay\<close> (\<open>tools/replay.py\<close>), \<open>Rebuild\<close> (what a full rebuild yields), \<open>Migrate\<close>
    (\<open>tools/migrate.py\<close>).
  \<^item> \<open>Urls\<close> (\<open>queue.py\<close>: Redis URLs), \<open>Shell\<close> (\<open>config.py\<close>, \<open>db.py\<close>, \<open>main.py\<close>, \<open>logging.py\<close>, and start
    and end of worker and replay): settings, connections, cached provider, health, trace ids.
  \<^item> \<open>Recovery\<close>: replay as the way out of the states that crashes, cancellations and a missing queue leave.
  \<^item> \<open>Metrics\<close> (\<open>metrics.py\<close> and every place that increments a counter): the functions of orchestration,
    pipeline and job once more with the registry of their process; \<open>Monitoring\<close>: the receiver with its
    counters, the service with the registries of API and worker, and what \<open>/metrics\<close> shows.
  \<^item> \<open>Seed\<close> (\<open>tools/seed.py\<close>): the client that posts the sample payloads.

  \<^bold>\<open>What is proved.\<close>  The state machines refine the lifecycle, every entity moves by its own events only,
  seen events change nothing, and rows never lose data.  Normalisation guarantees its output and is
  idempotent.  Extraction yields valid events or an explanation; paths read the positions they name;
  discovered paths and schemas are found again.  Answers of a model are validated before they are
  stored and used, spending stays within the budgets under a stated bound, and calls are bounded.  Every
  job that runs to its end gives a verdict and keeps the log and the invariants, and what path A extracts
  reaches no provider.  Redeliveries are absorbed, the log is append-only, replays of events that path A maps
  to applied ones change nothing, and a full rebuild leaves every entity
  where the lifecycle, run on the stored events in order of receipt, ends.  With interleaved jobs that die and
  are started again, no webhook is lost as long as the queue is up, no receiver dies between INSERT and
  enqueueing, no job is cancelled and no job uses up its tries; the projection is that of one sequence of
  canonical events, the service recovers from the death of all its workers, and the day's spending, in all
  and on each vendor, overruns its budget by a stated amount at most when no answer costs more than the
  estimate.  What the service loses otherwise a replay through the queue brings to a verdict, once arq has
  forgotten its result.  Counting changes no run,
  every verdict is counted once, the token counters cover the audit, and the accepted deliveries are the
  growth of the log.  Processes close what they open, but for a pool whose queue cannot be reached.
  Theorems about flaws (a failed enqueueing, the unsigned generic path, a cancelled job, a job that dies too
  often, an ignored TLS scheme, a failed replay, a blank id, a time out of range, counters that nobody shows)
  state what the code does.

  \<^bold>\<open>Interfaces\<close> are locales: \<open>keyed_table\<close> (tables), \<open>idempotent_log\<close> and the lifecycle locales (state
  machines), \<open>step_relation\<close> and \<open>run_relation\<close> (relations that every step and every run keep),
  \<open>interference\<close> (what a job relies on and guarantees), \<open>collection\<close> (what a step counts beside its work); each
  is interpreted on the definitions of the code.

  \<^bold>\<open>Bounds and termination.\<close>  No definition uses fuel: the loops of the path and template parsers have
  measures, the retry of the model is written out, everything else recurses on data.

  \<^bold>\<open>Abstractions.\<close>  Python strings are their UTF-8 bytes, so lengths and slices of other than ASCII text
  count bytes and case and white space are those of ASCII.  Floats are rationals.  JSON survives the
  round trip through \<open>jsonb\<close>, and texts do not contain the character zero.  Postgres sessions run in
  UTC; database and process read one clock; a rolled back transaction also rolls back its sequence.
  Statements outside a transaction commit one by one, and an exception leaves what they did.  A
  transaction is one action also when jobs interleave: the rows it depends on are locked until its end
  (\<open>FOR UPDATE\<close>, unique keys).  A cancelled job stops between two actions.  Of arq the model uses that a
  job id is unique while its job waits or its result is kept, that a job runs once at a time, that a dead
  or stopped worker's job is run again until it was started \<open>max_tries\<close> times (the default of
  \<open>worker_max_retries\<close>, 5) and then taken from the queue, and that a job cancelled by \<open>job_timeout\<close> or ended
  by an exception is not.  Of \<open>prometheus_client\<close> it uses that a process has one registry and that a negative increment
  raises; of a histogram it keeps the number of observations.  The replay tool runs while no job does.
  The text of an exception depends on its class only.  pydantic's conversions are written out for the
  types that occur.

  \<^bold>\<open>Not modelled.\<close>  Failures of the database other than the violated constraints and ranges that the
  statements check: a connection lost in the middle of a job leaves what a cancelled job leaves, and is not
  told apart from it.  Rows that nobody but an operator can have written, such as a higher
  version of a learned schema.  The limit of 4300 digits of \<open>int\<close> outside \<open>parse_money\<close>.  Reading the environment and \<open>.env\<close>, the jsonb codecs of \<open>db.py\<close>, the set-up of structlog
  and the log lines, the text format of \<open>/metrics\<close>, the command line parsers, the HTTP exchange of the sample
  client and the SQL text of the migrations: library calls, input and output.  What remains of the
  files under \<open>src/app\<close> outside the modelled lines is imports, documentation and the headers of classes.
\<close>

end
